(* ===== verification/Go_Prelude.thy ===== *)
theory Go_Prelude
  imports Main "HOL-Library.Sublist"
begin

text \<open>
  The prelude of the development: the part of the Go language and of its standard library that
  the modelled code uses, as executable functions, with the lemmas that the component theories
  share.

  \<^item> Go strings and byte slices are \<^typ>\<open>string\<close>s (a \<^typ>\<open>char\<close> is one byte).
  \<^item> An \<open>int64\<close> is an \<^typ>\<open>int\<close>; where the source computes with values it does not control,
    the two's complement wrap-around is written out with \<open>wrap64\<close>.
  \<^item> A Go function that returns a value and an \<open>ok\<close> flag returns an \<^typ>\<open>'a option\<close>; one that
    returns an error returns a sum, with the error on the left.
  \<^item> \<open>strings.ToLower\<close> and \<open>strings.ToUpper\<close> are modelled on ASCII letters; other bytes are kept.
    \<open>strings.TrimSpace\<close> is modelled on all the UTF-8 sequences that \<open>unicode.IsSpace\<close> accepts.
\<close>

named_theorems go_defs \<open>definitions of the string library that the component proofs unfold\<close>

subsection \<open>64-bit integers\<close>

definition wrap64 :: "int \<Rightarrow> int" where
  "wrap64 x = (x + 2 ^ 63) mod 2 ^ 64 - 2 ^ 63"

definition int64 :: "int \<Rightarrow> bool" where
  "int64 x \<longleftrightarrow> - (2 ^ 63) \<le> x \<and> x < 2 ^ 63"

abbreviation max_int64 :: int where
  "max_int64 \<equiv> 9223372036854775807"

lemma wrap64_id [simp]: "int64 x \<Longrightarrow> wrap64 x = x"
  by (simp add: wrap64_def int64_def)

lemma int64_wrap64 [simp]: "int64 (wrap64 x)"
proof -
  have "0 \<le> (x + 2 ^ 63) mod 2 ^ 64" "(x + 2 ^ 63) mod 2 ^ 64 < (2 ^ 64 :: int)"
    by (rule pos_mod_sign, simp, rule pos_mod_bound, simp)
  then show ?thesis
    by (simp add: wrap64_def int64_def)
qed

lemma int64_le: "0 \<le> x \<Longrightarrow> x \<le> y \<Longrightarrow> int64 y \<Longrightarrow> int64 x"
  by (simp add: int64_def)

lemma wrap64_nonneg: "0 \<le> x \<Longrightarrow> x < 2 ^ 63 \<Longrightarrow> wrap64 x = x"
  by (simp add: int64_def)

subsection \<open>Bytes\<close>

abbreviation byte :: "char \<Rightarrow> nat" where
  "byte c \<equiv> of_char c"

abbreviation CR :: char where "CR \<equiv> CHR 0x0D"
abbreviation LF :: char where "LF \<equiv> CHR 0x0A"
abbreviation TAB :: char where "TAB \<equiv> CHR 0x09"
abbreviation SP :: char where "SP \<equiv> CHR 0x20"
abbreviation DQ :: char where "DQ \<equiv> CHR 0x22"

definition lower_char :: "char \<Rightarrow> char" where
  "lower_char c = (if 65 \<le> byte c \<and> byte c \<le> 90 then char_of (byte c + 32) else c)"

definition upper_char :: "char \<Rightarrow> char" where
  "upper_char c = (if 97 \<le> byte c \<and> byte c \<le> 122 then char_of (byte c - 32) else c)"

definition is_digit :: "char \<Rightarrow> bool" where
  "is_digit c \<longleftrightarrow> 48 \<le> byte c \<and> byte c \<le> 57"

definition digit_val :: "char \<Rightarrow> int" where
  "digit_val c = int (byte c) - 48"

definition digit_char :: "nat \<Rightarrow> char" where
  "digit_char d = char_of (48 + d)"

definition to_lower :: "string \<Rightarrow> string" where
  "to_lower s = map lower_char s"

definition to_upper :: "string \<Rightarrow> string" where
  "to_upper s = map upper_char s"

lemma byte_less [simp]: "byte c < 256"
  using of_char_mod_256 [of c, where 'a = nat] by (metis mod_less_divisor zero_less_numeral)

lemma byte_eq_iff: "byte a = byte b \<longleftrightarrow> a = b"
  by simp

lemma byte_upper_char:
  "byte (upper_char c) = (if 97 \<le> byte c \<and> byte c \<le> 122 then byte c - 32 else byte c)"
proof -
  have "(byte c - 32) mod 256 = byte c - 32" using byte_less [of c] by (intro mod_less) linarith
  then show ?thesis by (simp add: upper_char_def)
qed

lemma byte_lower_char:
  "byte (lower_char c) = (if 65 \<le> byte c \<and> byte c \<le> 90 then byte c + 32 else byte c)"
  by (simp add: lower_char_def)

lemma char_eq_byte: "c = d \<longleftrightarrow> byte c = byte d"
  by simp

lemma upper_char_eq:
  "\<not> (65 \<le> byte d \<and> byte d \<le> 90) \<Longrightarrow> \<not> (97 \<le> byte d \<and> byte d \<le> 122) \<Longrightarrow>
   upper_char c = d \<longleftrightarrow> c = d"
  unfolding char_eq_byte byte_upper_char by auto

lemma lower_char_eq:
  "\<not> (65 \<le> byte d \<and> byte d \<le> 90) \<Longrightarrow> \<not> (97 \<le> byte d \<and> byte d \<le> 122) \<Longrightarrow>
   lower_char c = d \<longleftrightarrow> c = d"
  unfolding char_eq_byte byte_lower_char by auto

lemma in_set_to_upper:
  "\<not> (65 \<le> byte d \<and> byte d \<le> 90) \<Longrightarrow> \<not> (97 \<le> byte d \<and> byte d \<le> 122) \<Longrightarrow>
   d \<in> set (to_upper s) \<longleftrightarrow> d \<in> set s"
  using upper_char_eq [of d] by (auto simp: to_upper_def image_iff) metis+

lemma in_set_to_lower:
  "\<not> (65 \<le> byte d \<and> byte d \<le> 90) \<Longrightarrow> \<not> (97 \<le> byte d \<and> byte d \<le> 122) \<Longrightarrow>
   d \<in> set (to_lower s) \<longleftrightarrow> d \<in> set s"
  using lower_char_eq [of d] by (auto simp: to_lower_def image_iff) metis+

lemma sep_split:
  "c \<notin> set a \<Longrightarrow> c \<notin> set b \<Longrightarrow> a @ c # x = b @ c # y \<Longrightarrow> a = b \<and> x = y"
proof (induction a arbitrary: b)
  case Nil
  then show ?case by (cases b) auto
next
  case (Cons d a)
  then show ?case by (cases b) auto
qed

lemma length_to_lower [simp]: "length (to_lower s) = length s"
  by (simp add: to_lower_def)

lemma lower_char_idem [simp]: "lower_char (lower_char c) = lower_char c"
  by (simp add: lower_char_def)

lemma to_lower_idem [simp]: "to_lower (to_lower s) = to_lower s"
  by (simp add: to_lower_def)

lemma to_lower_append [simp]: "to_lower (xs @ ys) = to_lower xs @ to_lower ys"
  by (simp add: to_lower_def)

lemma digit_char_is_digit [simp]: "d < 10 \<Longrightarrow> is_digit (digit_char d)"
  by (simp add: is_digit_def digit_char_def)

lemma digit_val_char [simp]: "d < 10 \<Longrightarrow> digit_val (digit_char d) = int d"
  by (simp add: digit_val_def digit_char_def)

lemma digit_val_bounds: "is_digit c \<Longrightarrow> 0 \<le> digit_val c \<and> digit_val c \<le> 9"
  by (auto simp: is_digit_def digit_val_def)

subsection \<open>Prefixes, suffixes and searching\<close>

definition has_prefix :: "string \<Rightarrow> string \<Rightarrow> bool" where
  \<comment> \<open>\<open>strings.HasPrefix(s, p)\<close>\<close>
  "has_prefix s p \<longleftrightarrow> take (length p) s = p"

definition has_suffix :: "string \<Rightarrow> string \<Rightarrow> bool" where
  \<comment> \<open>\<open>strings.HasSuffix(s, p)\<close>\<close>
  "has_suffix s p \<longleftrightarrow> length p \<le> length s \<and> drop (length s - length p) s = p"

definition trim_prefix :: "string \<Rightarrow> string \<Rightarrow> string" where
  \<comment> \<open>\<open>strings.TrimPrefix(s, p)\<close>\<close>
  "trim_prefix s p = (if has_prefix s p then drop (length p) s else s)"

definition cut_prefix :: "string \<Rightarrow> string \<Rightarrow> string option" where
  \<comment> \<open>\<open>strings.CutPrefix(s, p)\<close>\<close>
  "cut_prefix s p = (if has_prefix s p then Some (drop (length p) s) else None)"

fun index_byte :: "string \<Rightarrow> char \<Rightarrow> nat option" where
  \<comment> \<open>\<open>strings.IndexByte\<close>, \<open>bytes.IndexByte\<close>; \<open>None\<close> is -1\<close>
  "index_byte [] c = None"
| "index_byte (x # xs) c = (if x = c then Some 0 else map_option Suc (index_byte xs c))"

fun index_str :: "string \<Rightarrow> string \<Rightarrow> nat option" where
  \<comment> \<open>\<open>strings.Index\<close>, \<open>bytes.Index\<close>: the least offset of the pattern\<close>
  "index_str [] p = (if p = [] then Some 0 else None)"
| "index_str (x # xs) p =
     (if has_prefix (x # xs) p then Some 0 else map_option Suc (index_str xs p))"

definition contains :: "string \<Rightarrow> string \<Rightarrow> bool" where
  \<comment> \<open>\<open>strings.Contains(s, p)\<close>\<close>
  "contains s p \<longleftrightarrow> index_str s p \<noteq> None"

definition last_index_byte :: "string \<Rightarrow> char \<Rightarrow> nat option" where
  \<comment> \<open>\<open>strings.LastIndexByte\<close>\<close>
  "last_index_byte s c =
     (case index_byte (rev s) c of None \<Rightarrow> None | Some i \<Rightarrow> Some (length s - 1 - i))"

lemma has_prefix_append [simp]: "has_prefix (p @ s) p"
  by (simp add: has_prefix_def)

lemma has_prefix_iff: "has_prefix s p \<longleftrightarrow> (\<exists>t. s = p @ t)"
  by (metis append_eq_conv_conj append_take_drop_id has_prefix_def)

lemma has_prefix_code [code, simp]:
  "has_prefix s [] \<longleftrightarrow> True"
  "has_prefix [] (p # ps) \<longleftrightarrow> False"
  "has_prefix (x # xs) (p # ps) \<longleftrightarrow> x = p \<and> has_prefix xs ps"
  by (auto simp: has_prefix_def)

lemma has_suffix_append [simp]: "has_suffix (s @ p) p"
  by (simp add: has_suffix_def)

lemma has_suffix_iff: "has_suffix s p \<longleftrightarrow> (\<exists>t. s = t @ p)"
  by (metis append_take_drop_id has_suffix_append has_suffix_def)

lemma index_byte_None: "index_byte s c = None \<longleftrightarrow> c \<notin> set s"
  by (induction s) auto

lemma index_byte_Some:
  "index_byte s c = Some i \<Longrightarrow> i < length s \<and> s ! i = c \<and> c \<notin> set (take i s)"
  by (induction s arbitrary: i) (auto split: if_splits simp: take_Cons')

lemma index_byte_split:
  "index_byte s c = Some i \<Longrightarrow> s = take i s @ c # drop (Suc i) s \<and> c \<notin> set (take i s)"
  using index_byte_Some [of s c i] by (metis id_take_nth_drop)

lemma index_byte_append: "c \<notin> set a \<Longrightarrow> index_byte (a @ c # b) c = Some (length a)"
  by (induction a) auto

lemma index_str_Some:
  "index_str s p = Some i \<Longrightarrow> s = take i s @ p @ drop (i + length p) s"
proof (induction s p arbitrary: i rule: index_str.induct)
  case (1 p)
  then show ?case by (simp split: if_splits)
next
  case (2 x xs p)
  show ?case
  proof (cases "has_prefix (x # xs) p")
    case True
    with "2.prems" have "i = 0" by simp
    with True show ?thesis by (metis add_0 append_Nil append_take_drop_id has_prefix_def take_0)
  next
    case False
    with "2.prems" obtain j where j: "index_str xs p = Some j" "i = Suc j" by auto
    with "2.IH" [OF False] have "xs = take j xs @ p @ drop (j + length p) xs" by blast
    with j(2) show ?thesis by simp
  qed
qed

lemma index_str_least:
  "index_str s p = Some i \<Longrightarrow> j < i \<Longrightarrow> \<not> has_prefix (drop j s) p"
proof (induction s p arbitrary: i j rule: index_str.induct)
  case (2 x xs p)
  then show ?case by (cases j) (auto split: if_splits)
qed (simp split: if_splits)

lemma index_str_None: "index_str s p = None \<longleftrightarrow> (\<forall>j \<le> length s. \<not> has_prefix (drop j s) p)"
proof (induction s p rule: index_str.induct)
  case (1 p)
  then show ?case by (cases p) auto
next
  case (2 x xs p)
  show ?case
  proof (cases "has_prefix (x # xs) p")
    case True
    then show ?thesis by auto
  next
    case False
    with 2 show ?thesis
      by (auto simp: less_Suc_eq_le) (metis Suc_le_mono drop_Cons' drop_Suc_Cons not_less_eq_eq old.nat.exhaust False drop0)
  qed
qed

lemma index_str_iff:
  "index_str s p = Some i \<longleftrightarrow>
     i \<le> length s \<and> has_prefix (drop i s) p \<and> (\<forall>j < i. \<not> has_prefix (drop j s) p)"
  (is "?L \<longleftrightarrow> ?R")
proof
  assume L: ?L
  then have "has_prefix (drop i s) p"
    using index_str_Some [OF L]
    by (metis append_eq_conv_conj append_take_drop_id drop_drop has_prefix_iff
        append_same_eq length_append same_append_eq)
  moreover have "i \<le> length s"
  proof (rule ccontr)
    assume "\<not> i \<le> length s"
    then have "length s < i" by simp
    with index_str_least [OF L this] calculation show False by simp
  qed
  ultimately show ?R using index_str_least [OF L] by blast
next
  assume R: ?R
  then have "index_str s p \<noteq> None" by (auto simp: index_str_None)
  then obtain k where k: "index_str s p = Some k" by blast
  then have "has_prefix (drop k s) p"
    using index_str_Some [OF k]
    by (metis append_eq_conv_conj append_take_drop_id has_prefix_iff same_append_eq)
  with R k show ?L by (metis index_str_least linorder_neqE_nat)
qed

lemma index_str_prefix_eq:
  assumes "index_str s p = Some i"
  shows "index_str (s @ t) p = Some i"
proof -
  from assms have i: "i \<le> length s" "has_prefix (drop i s) p" "\<forall>j < i. \<not> has_prefix (drop j s) p"
    by (auto simp: index_str_iff)
  from i(2) have "length p \<le> length s - i"
    by (metis has_prefix_def length_drop length_take min.cobounded1 take_all_iff
        nat_le_linear min_def)
  then have "\<not> has_prefix (drop j (s @ t)) p" if "j < i" for j
    using i that by (auto simp: has_prefix_def)
  moreover have "has_prefix (drop i (s @ t)) p"
    using i(1,2) \<open>length p \<le> length s - i\<close> by (auto simp: has_prefix_def)
  ultimately show ?thesis
    using i(1) by (auto simp: index_str_iff)
qed

subsection \<open>Splitting, joining and trimming\<close>

fun split_on :: "char \<Rightarrow> string \<Rightarrow> string list" where
  \<comment> \<open>\<open>strings.Split\<close> with a one-byte separator\<close>
  "split_on c [] = [[]]"
| "split_on c (x # xs) =
     (if x = c then [] # split_on c xs
      else (case split_on c xs of [] \<Rightarrow> [[x]] | y # ys \<Rightarrow> (x # y) # ys))"

fun join_with :: "string \<Rightarrow> string list \<Rightarrow> string" where
  \<comment> \<open>\<open>strings.Join\<close>\<close>
  "join_with sep [] = []"
| "join_with sep [x] = x"
| "join_with sep (x # y # ys) = x @ sep @ join_with sep (y # ys)"

lemma split_on_ne [simp]: "split_on c s \<noteq> []"
  by (induction s) (auto split: list.splits)

lemma split_on_no_sep: "x \<in> set (split_on c s) \<Longrightarrow> c \<notin> set x"
proof (induction s arbitrary: x)
  case (Cons a s)
  then show ?case
    by (cases "split_on c s") (auto split: if_splits)
qed simp

lemma split_on_id: "c \<notin> set s \<Longrightarrow> split_on c s = [s]"
  by (induction s) auto

lemma split_on_append:
  "c \<notin> set a \<Longrightarrow> split_on c (a @ c # b) = a # split_on c b"
  by (induction a) auto

lemma join_split_on: "join_with [c] (split_on c s) = s"
proof (induction s)
  case (Cons a s)
  obtain y ys where y: "split_on c s = y # ys" by (cases "split_on c s") auto
  with Cons show ?case by (cases ys) auto
qed simp

lemma join_with_Cons: "xs \<noteq> [] \<Longrightarrow> join_with sep (x # xs) = x @ sep @ join_with sep xs"
  by (cases xs) auto

lemma split_on_join:
  "xs \<noteq> [] \<Longrightarrow> \<forall>x \<in> set xs. c \<notin> set x \<Longrightarrow> split_on c (join_with [c] xs) = xs"
proof (induction xs)
  case (Cons a xs)
  then show ?case
    by (cases xs) (auto simp: split_on_id split_on_append)
qed simp

definition unicode_spaces :: "string list" where
  \<comment> \<open>the UTF-8 encodings of the runes for which \<open>unicode.IsSpace\<close> holds\<close>
  "unicode_spaces =
     [[TAB], [LF], [CHR 0x0B], [CHR 0x0C], [CR], [SP],
      [CHR 0xC2, CHR 0x85], [CHR 0xC2, CHR 0xA0], [CHR 0xE1, CHR 0x9A, CHR 0x80],
      [CHR 0xE2, CHR 0x80, CHR 0x80], [CHR 0xE2, CHR 0x80, CHR 0x81],
      [CHR 0xE2, CHR 0x80, CHR 0x82], [CHR 0xE2, CHR 0x80, CHR 0x83],
      [CHR 0xE2, CHR 0x80, CHR 0x84], [CHR 0xE2, CHR 0x80, CHR 0x85],
      [CHR 0xE2, CHR 0x80, CHR 0x86], [CHR 0xE2, CHR 0x80, CHR 0x87],
      [CHR 0xE2, CHR 0x80, CHR 0x88], [CHR 0xE2, CHR 0x80, CHR 0x89],
      [CHR 0xE2, CHR 0x80, CHR 0x8A], [CHR 0xE2, CHR 0x80, CHR 0xA8],
      [CHR 0xE2, CHR 0x80, CHR 0xA9], [CHR 0xE2, CHR 0x80, CHR 0xAF],
      [CHR 0xE2, CHR 0x81, CHR 0x9F], [CHR 0xE3, CHR 0x80, CHR 0x80]]"

lemma unicode_spaces_nonempty: "w \<in> set unicode_spaces \<Longrightarrow> w \<noteq> []"
  by (auto simp: unicode_spaces_def)

function (sequential) strip :: "string list \<Rightarrow> string \<Rightarrow> string" where
  \<comment> \<open>drops leading occurrences of the (non-empty) patterns\<close>
  "strip ws s =
     (case find (\<lambda>w. w \<noteq> [] \<and> has_prefix s w) ws of
        None \<Rightarrow> s
      | Some w \<Rightarrow> strip ws (drop (length w) s))"
  by pat_completeness auto
termination
  by (relation "measure (\<lambda>(ws, s). length s)")
    (auto simp: find_Some_iff has_prefix_def intro: diff_less)

declare strip.simps [simp del]

definition trim_space :: "string \<Rightarrow> string" where
  \<comment> \<open>\<open>strings.TrimSpace\<close>, \<open>bytes.TrimSpace\<close>\<close>
  "trim_space s = rev (strip (map rev unicode_spaces) (rev (strip unicode_spaces s)))"

definition no_space_ends :: "string \<Rightarrow> bool" where
  \<comment> \<open>neither end of the string is white space\<close>
  "no_space_ends s \<longleftrightarrow>
     list_all (\<lambda>w. \<not> has_prefix s w) unicode_spaces \<and>
     list_all (\<lambda>w. \<not> has_prefix (rev s) (rev w)) unicode_spaces"

lemma strip_id: "list_all (\<lambda>w. \<not> has_prefix s w) ws \<Longrightarrow> strip ws s = s"
  by (subst strip.simps) (auto simp: find_None_iff list_all_iff split: option.splits
      dest!: find_Some_iff [THEN iffD1])

lemma trim_space_id: "no_space_ends s \<Longrightarrow> trim_space s = s"
  by (simp add: trim_space_def no_space_ends_def strip_id list_all_iff)

lemma trim_space_Nil [simp]: "trim_space [] = []"
  by (rule trim_space_id) (simp add: no_space_ends_def unicode_spaces_def)

lemma strip_suffix: "\<exists>p. s = p @ strip ws s"
proof (induction ws s rule: strip.induct)
  case (1 ws s)
  show ?case
  proof (cases "find (\<lambda>w. w \<noteq> [] \<and> has_prefix s w) ws")
    case None
    then show ?thesis by (simp add: strip.simps [of ws s])
  next
    case (Some w)
    with 1 obtain p where p: "drop (length w) s = p @ strip ws (drop (length w) s)" by blast
    have "s = take (length w) s @ drop (length w) s" by simp
    also have "\<dots> = (take (length w) s @ p) @ strip ws s"
      using Some p by (simp add: strip.simps [of ws s])
    finally show ?thesis by blast
  qed
qed

lemma trim_space_infix: "\<exists>p q. s = p @ trim_space s @ q"
proof -
  obtain p where p: "s = p @ strip unicode_spaces s"
    using strip_suffix by blast
  obtain q where "rev (strip unicode_spaces s) =
      q @ strip (map rev unicode_spaces) (rev (strip unicode_spaces s))"
    using strip_suffix by blast
  then have "strip unicode_spaces s = trim_space s @ rev q"
    by (metis rev_append rev_rev_ident trim_space_def)
  with p show ?thesis by metis
qed

lemma set_trim_space: "set (trim_space s) \<subseteq> set s"
  using trim_space_infix [of s] by (metis Un_upper1 Un_upper2 set_append subset_trans)

subsection \<open>Decimal numbers\<close>

function (sequential) format_nat :: "nat \<Rightarrow> string" where
  "format_nat n = (if n < 10 then [digit_char n] else format_nat (n div 10) @ [digit_char (n mod 10)])"
  by pat_completeness auto
termination
  by (relation "measure id") auto

declare format_nat.simps [simp del]

definition format_int :: "int \<Rightarrow> string" where
  \<comment> \<open>\<open>strconv.FormatInt(v, 10)\<close>, \<open>strconv.Itoa\<close>\<close>
  "format_int v = (if v < 0 then CHR ''-'' # format_nat (nat (- v)) else format_nat (nat v))"

definition digits_val :: "string \<Rightarrow> int" where
  \<comment> \<open>the value of a string of decimal digits\<close>
  "digits_val s = foldl (\<lambda>a c. a * 10 + digit_val c) 0 s"

definition parse_int :: "string \<Rightarrow> int option" where
  \<comment> \<open>\<open>strconv.ParseInt(s, 10, 64)\<close>; \<open>None\<close> is a syntax or a range error\<close>
  "parse_int s =
     (let neg = (s \<noteq> [] \<and> hd s = CHR ''-'');
          ds = (if s \<noteq> [] \<and> (hd s = CHR ''-'' \<or> hd s = CHR ''+'') then tl s else s)
      in if ds = [] \<or> \<not> list_all is_digit ds then None
         else (let v = (if neg then - digits_val ds else digits_val ds)
               in if - (2 ^ 63) \<le> v \<and> v \<le> max_int64 then Some v else None))"

lemma digits_val_snoc [simp]: "digits_val (s @ [c]) = digits_val s * 10 + digit_val c"
  by (simp add: digits_val_def)

lemma digits_val_Nil [simp]: "digits_val [] = 0"
  by (simp add: digits_val_def)

lemma digits_val_nonneg: "list_all is_digit s \<Longrightarrow> 0 \<le> digits_val s"
proof (induction s rule: rev_induct)
  case (snoc c s)
  then show ?case
    using digit_val_bounds [of c] by simp
qed simp

lemma format_nat_digits [simp]: "list_all is_digit (format_nat n)"
proof (induction n rule: format_nat.induct)
  case (1 n)
  then show ?case by (simp add: format_nat.simps [of n])
qed

lemma format_nat_ne [simp]: "format_nat n \<noteq> []"
  by (simp add: format_nat.simps [of n])

lemma digits_val_format_nat [simp]: "digits_val (format_nat n) = int n"
proof (induction n rule: format_nat.induct)
  case (1 n)
  show ?case
  proof (cases "n < 10")
    case True
    then show ?thesis by (simp add: format_nat.simps [of n] digits_val_def)
  next
    case False
    then show ?thesis
      using "1.IH" by (simp add: format_nat.simps [of n] zdiv_int zmod_int)
  qed
qed

lemma hd_digit_no_sign:
  "list_all is_digit s \<Longrightarrow> s \<noteq> [] \<Longrightarrow> hd s \<noteq> CHR ''-'' \<and> hd s \<noteq> CHR ''+''"
  by (cases s) (auto simp: is_digit_def)

lemma parse_format_int: "int64 v \<Longrightarrow> parse_int (format_int v) = Some v"
  using hd_digit_no_sign [OF format_nat_digits [of "nat v"]]
  by (auto simp: parse_int_def format_int_def int64_def Let_def)

lemma parse_int_range: "parse_int s = Some v \<Longrightarrow> int64 v"
  by (auto simp: parse_int_def int64_def Let_def split: if_splits)

lemma parse_int_Nil [simp]: "parse_int [] = None"
  by (simp add: parse_int_def)

lemma parse_int_digits_nonneg: "CHR ''-'' \<notin> set s \<Longrightarrow> parse_int s = Some v \<Longrightarrow> 0 \<le> v"
  by (cases s) (auto simp: parse_int_def Let_def digits_val_nonneg split: if_splits)

subsection \<open>Wrapping counters\<close>

lemma wrap64_add_left [simp]: "wrap64 (wrap64 a + b) = wrap64 (a + b)"
  by (simp add: wrap64_def algebra_simps mod_simps)

lemma wrap64_add_right [simp]: "wrap64 (a + wrap64 b) = wrap64 (a + b)"
  using wrap64_add_left [of b a] by (simp only: add.commute)

lemma wrap64_diff_left [simp]: "wrap64 (wrap64 a - b) = wrap64 (a - b)"
  using wrap64_add_left [of a "- b"] by simp

lemma wrap64_add_diff [simp]: "wrap64 (wrap64 a + b - c) = wrap64 (a + b - c)"
  using wrap64_add_left [of a "b - c"] by (simp add: algebra_simps)

lemma wrap64_idem [simp]: "wrap64 (wrap64 a) = wrap64 a"
  using wrap64_add_left [of a 0] by simp

subsection \<open>Binary search\<close>

text \<open>\<open>sort.Search\<close>: the loop halves the interval until it is empty.\<close>

function sort_search :: "(nat \<Rightarrow> bool) \<Rightarrow> nat \<Rightarrow> nat \<Rightarrow> nat" where
  "sort_search f i j =
     (if i < j
      then (let h = (i + j) div 2 in if \<not> f h then sort_search f (h + 1) j else sort_search f i h)
      else i)"
  by pat_completeness auto
termination
  by (relation "measure (\<lambda>(f, i, j). j - i)") auto

declare sort_search.simps [simp del]

lemma sort_search_least:
  assumes "\<And>k l. k \<le> l \<Longrightarrow> l < j \<Longrightarrow> f k \<Longrightarrow> f l" "i \<le> j"
  shows "i \<le> sort_search f i j \<and> sort_search f i j \<le> j \<and>
    (\<forall>k. i \<le> k \<longrightarrow> k < sort_search f i j \<longrightarrow> \<not> f k) \<and>
    (\<forall>k. sort_search f i j \<le> k \<longrightarrow> k < j \<longrightarrow> f k)"
  using assms
proof (induction f i j rule: sort_search.induct)
  case (1 f i j)
  show ?case
  proof (cases "i < j")
    case False
    with 1(4) have "i = j" by simp
    then show ?thesis by (simp add: sort_search.simps [of f j j])
  next
    case True
    define h where "h = (i + j) div 2"
    have h: "i \<le> h" "h < j" using True by (auto simp: h_def)
    show ?thesis
    proof (cases "f h")
      case False
      have eq: "sort_search f i j = sort_search f (h + 1) j"
        using True False by (subst sort_search.simps) (simp add: h_def Let_def)
      have ih: "h + 1 \<le> sort_search f (h + 1) j \<and> sort_search f (h + 1) j \<le> j \<and>
          (\<forall>k. h + 1 \<le> k \<longrightarrow> k < sort_search f (h + 1) j \<longrightarrow> \<not> f k) \<and>
          (\<forall>k. sort_search f (h + 1) j \<le> k \<longrightarrow> k < j \<longrightarrow> f k)"
        using "1.IH"(1) [OF True h_def False] 1(3) h by auto
      moreover have "\<not> f k" if "i \<le> k" "k < sort_search f (h + 1) j" for k
      proof (cases "h + 1 \<le> k")
        case False
        then have "k \<le> h" by simp
        with 1(3) [of k h] h(2) \<open>\<not> f h\<close> show ?thesis by blast
      qed (use ih that in blast)
      ultimately show ?thesis using h unfolding eq by auto
    next
      case fh: True
      have eq: "sort_search f i j = sort_search f i h"
        using True fh by (subst sort_search.simps) (simp add: h_def Let_def)
      have ih: "i \<le> sort_search f i h \<and> sort_search f i h \<le> h \<and>
          (\<forall>k. i \<le> k \<longrightarrow> k < sort_search f i h \<longrightarrow> \<not> f k) \<and>
          (\<forall>k. sort_search f i h \<le> k \<longrightarrow> k < h \<longrightarrow> f k)"
        using "1.IH"(2) [OF True h_def] fh 1(3) h by (meson less_trans)
      moreover have "f k" if "sort_search f i h \<le> k" "k < j" for k
        using ih that fh 1(3) [of h k] by (meson linorder_not_le)
      ultimately show ?thesis using h unfolding eq by auto
    qed
  qed
qed

subsection \<open>Further facts on searching, case and white space\<close>

lemma index_str_split:
  assumes "index_str s p = Some i"
  obtains a z where "s = a @ p @ z" "i = length a"
proof -
  from assms have i: "i \<le> length s" "has_prefix (drop i s) p" by (auto simp: index_str_iff)
  then obtain z where "drop i s = p @ z" by (auto simp: has_prefix_iff)
  with i(1) that [of "take i s" z] show thesis by (metis append_take_drop_id length_take min.absorb2)
qed

lemma last_index_byte_append: "c \<notin> set b \<Longrightarrow> last_index_byte (a @ c # b) c = Some (length a)"
  using index_byte_append [of c "rev b" "rev a"] by (simp add: last_index_byte_def)

lemma last_index_byte_None: "last_index_byte s c = None \<longleftrightarrow> c \<notin> set s"
  using index_byte_None [of "rev s" c] by (auto simp: last_index_byte_def split: option.splits)

lemma to_lower_id: "list_all (\<lambda>c. \<not> (65 \<le> byte c \<and> byte c \<le> 90)) s \<Longrightarrow> to_lower s = s"
  by (induction s) (auto simp: to_lower_def lower_char_def)

definition printable :: "char \<Rightarrow> bool" where
  "printable c \<longleftrightarrow> 33 \<le> byte c \<and> byte c \<le> 126"

lemma trim_space_printable:
  assumes "s \<noteq> []" "printable (hd s)" "printable (last s)"
  shows "trim_space s = s"
proof (rule trim_space_id)
  have sp: "list_all (\<lambda>w. w \<noteq> [] \<and> \<not> printable (hd w) \<and> \<not> printable (last w)) unicode_spaces"
    by (simp add: unicode_spaces_def printable_def)
  have "\<not> has_prefix s w \<and> \<not> has_prefix (rev s) (rev w)" if "w \<in> set unicode_spaces" for w
  proof -
    from sp that have w: "w \<noteq> []" "\<not> printable (hd w)" "\<not> printable (last w)" by (auto simp: list_all_iff)
    have "hd s = hd w" if "has_prefix s w" using that w(1) by (auto simp: has_prefix_iff)
    moreover have "last s = last w" if "has_prefix (rev s) (rev w)"
      using that w(1) by (metis has_prefix_iff hd_append2 hd_rev rev_is_Nil_conv)
    ultimately show ?thesis using assms w by auto
  qed
  then show "no_space_ends s" by (simp add: no_space_ends_def list_all_iff)
qed

lemma format_nat_hd: "n \<noteq> 0 \<Longrightarrow> hd (format_nat n) \<noteq> CHR ''0''"
proof (induction n rule: format_nat.induct)
  case (1 n)
  show ?case
  proof (cases "n < 10")
    case True
    then have "byte (digit_char n) = 48 + n" by (simp add: digit_char_def)
    with 1 True show ?thesis by (subst format_nat.simps) (auto simp: char_eq_byte)
  next
    case False
    with 1 show ?thesis by (subst format_nat.simps) (simp add: hd_append)
  qed
qed

lemma format_nat_0: "format_nat 0 = ''0''"
  by (simp add: format_nat.simps digit_char_def char_eq_byte)

lemma is_digit_printable: "is_digit c \<Longrightarrow> printable c"
  by (simp add: is_digit_def printable_def)

lemma strip_clean: "w \<in> set ws \<Longrightarrow> w \<noteq> [] \<Longrightarrow> \<not> has_prefix (strip ws s) w"
proof (induction ws s rule: strip.induct)
  case (1 ws s)
  show ?case
  proof (cases "find (\<lambda>w. w \<noteq> [] \<and> has_prefix s w) ws")
    case None
    then have "strip ws s = s" by (subst strip.simps) simp
    with None "1.prems" show ?thesis by (auto simp: find_None_iff)
  next
    case (Some v)
    with "1.IH" [OF Some] "1.prems" show ?thesis by (subst strip.simps) simp
  qed
qed

lemma trim_space_ends: "no_space_ends (trim_space s)"
proof -
  let ?t = "strip unicode_spaces s"
  obtain q where "rev ?t = q @ strip (map rev unicode_spaces) (rev ?t)" using strip_suffix by blast
  then have t: "?t = trim_space s @ rev q" by (metis rev_append rev_rev_ident trim_space_def)
  have "\<not> has_prefix (trim_space s) w" "\<not> has_prefix (rev (trim_space s)) (rev w)" if "w \<in> set unicode_spaces" for w
  proof -
    have w: "w \<noteq> []" using that unicode_spaces_nonempty by blast
    show "\<not> has_prefix (rev (trim_space s)) (rev w)"
      using strip_clean [of "rev w" "map rev unicode_spaces" "rev ?t"] that w by (auto simp: trim_space_def)
    show "\<not> has_prefix (trim_space s) w"
    proof
      assume "has_prefix (trim_space s) w"
      then have "has_prefix ?t w" unfolding t by (auto simp: has_prefix_iff)
      with strip_clean [OF that w] show False by blast
    qed
  qed
  then show ?thesis by (simp add: no_space_ends_def list_all_iff)
qed

lemma trim_space_idem [simp]: "trim_space (trim_space s) = trim_space s"
  by (rule trim_space_id [OF trim_space_ends])

lemma has_prefix_to_lower:
  assumes "list_all (\<lambda>d. \<not> (97 \<le> byte d \<and> byte d \<le> 122)) w"
  shows "has_prefix (to_lower s) w \<Longrightarrow> has_prefix s w"
  using assms
proof (induction w arbitrary: s)
  case (Cons d w)
  then obtain c s' where s: "s = c # s'" "lower_char c = d" by (cases s) (auto simp: to_lower_def)
  have "c = d"
  proof (rule ccontr)
    assume "c \<noteq> d"
    with s(2) have "65 \<le> byte c \<and> byte c \<le> 90" by (auto simp: lower_char_def split: if_splits)
    with byte_lower_char [of c] s(2) Cons.prems(2) show False by simp
  qed
  with Cons s show ?case by (auto simp: to_lower_def)
qed simp

lemma trim_space_lower:
  assumes "no_space_ends s"
  shows "trim_space (to_lower s) = to_lower s"
proof (rule trim_space_id)
  have nl: "list_all (list_all (\<lambda>d. \<not> (97 \<le> byte d \<and> byte d \<le> 122))) unicode_spaces" by (simp add: unicode_spaces_def)
  have "\<not> has_prefix (to_lower s) w \<and> \<not> has_prefix (rev (to_lower s)) (rev w)" if "w \<in> set unicode_spaces" for w
  proof -
    from nl that have w: "list_all (\<lambda>d. \<not> (97 \<le> byte d \<and> byte d \<le> 122)) w" "list_all (\<lambda>d. \<not> (97 \<le> byte d \<and> byte d \<le> 122)) (rev w)"
      by (auto simp: list_all_iff)
    have "rev (to_lower s) = to_lower (rev s)" by (simp add: to_lower_def rev_map)
    with has_prefix_to_lower [OF w(1), of s] has_prefix_to_lower [OF w(2), of "rev s"] assms that show ?thesis
      by (auto simp: no_space_ends_def list_all_iff)
  qed
  then show "no_space_ends (to_lower s)" by (simp add: no_space_ends_def list_all_iff)
qed

lemma norm_idem [simp]: "to_lower (trim_space (to_lower (trim_space s))) = to_lower (trim_space s)"
  by (simp add: trim_space_lower [OF trim_space_ends])

end
