(* ===== verification/Spans.thy ===== *)
theory Spans
  imports Go_Prelude
begin

text \<open>
  Byte intervals of a cached body: \<open>Span\<close>, \<open>MergeSpans\<close>, \<open>isSortedAndDisjoint\<close> and \<open>Covers\<close> of
  \<open>internal/cache/key.go\<close>. A list of spans denotes the set of byte offsets it covers; the two
  operations that the store and the handlers rely on (recording an interval, asking whether a range
  is covered) are stated as the locale \<open>span_index\<close> and proved for the code's functions.
\<close>

subsection \<open>Spans\<close>

datatype span = Span (Start: int) (End: int)

instantiation span :: linorder
begin

definition less_eq_span :: "span \<Rightarrow> span \<Rightarrow> bool" where
  "a \<le> b \<longleftrightarrow> (if Start a = Start b then End a \<le> End b else Start a < Start b)"

definition less_span :: "span \<Rightarrow> span \<Rightarrow> bool" where
  "a < b \<longleftrightarrow> (if Start a = Start b then End a < End b else Start a < Start b)"

instance
  by standard (auto simp: less_eq_span_def less_span_def span.expand split: if_splits)

end

definition isSortedAndDisjoint :: "span list \<Rightarrow> bool" where
  "isSortedAndDisjoint spans \<longleftrightarrow>
     (\<forall>i \<in> {1..<length spans}. \<not> Start (spans ! i) < End (spans ! (i - 1)))"

fun merge_loop :: "span \<Rightarrow> span list \<Rightarrow> span list" where
  \<comment> \<open>the loop of \<open>MergeSpans\<close>; the first argument is the last element of \<open>out\<close>\<close>
  "merge_loop lst [] = [lst]"
| "merge_loop lst (s # ss) =
     (if Start s \<le> End lst
      then merge_loop (if End s > End lst then Span (Start lst) (End s) else lst) ss
      else lst # merge_loop s ss)"

definition MergeSpans :: "span list \<Rightarrow> span list" where
  "MergeSpans sps =
     (if length sps \<le> 1 then sps
      else if isSortedAndDisjoint sps then sps
      else (case sort sps of [] \<Rightarrow> [] | c # cs \<Rightarrow> merge_loop c cs))"

fun covers_loop :: "span list \<Rightarrow> int \<Rightarrow> int \<Rightarrow> bool" where
  \<comment> \<open>the loop of \<open>Covers\<close> over the merged spans\<close>
  "covers_loop [] start end = False"
| "covers_loop (s # ss) start end =
     (if start \<ge> End s then covers_loop ss start end
      else if start < Start s then False
      else if end \<le> End s then True
      else if End s \<ge> end then True
      else if End s \<ge> end then True
      else covers_loop ss (End s) end)"

definition Covers :: "span list \<Rightarrow> int \<Rightarrow> int \<Rightarrow> bool" where
  "Covers spans start end =
     (if start \<ge> end then True
      else if length spans = 1 then start \<ge> Start (spans ! 0) \<and> end \<le> End (spans ! 0)
      else covers_loop (MergeSpans spans) start end)"

subsection \<open>What a list of spans covers\<close>

definition covered :: "span list \<Rightarrow> int set" where
  "covered sps = (\<Union>s \<in> set sps. {Start s..<End s})"

lemma covered_Nil [simp]: "covered [] = {}"
  by (simp add: covered_def)

lemma covered_Cons [simp]: "covered (s # ss) = {Start s..<End s} \<union> covered ss"
  by (simp add: covered_def)

lemma covered_append [simp]: "covered (xs @ ys) = covered xs \<union> covered ys"
  by (simp add: covered_def)

lemma covered_cong: "set xs = set ys \<Longrightarrow> covered xs = covered ys"
  by (simp add: covered_def)

fun chained :: "span list \<Rightarrow> bool" where
  \<comment> \<open>\<open>isSortedAndDisjoint\<close> as a structural predicate\<close>
  "chained (a # b # ss) = (End a \<le> Start b \<and> chained (b # ss))"
| "chained ss = True"

lemma isSortedAndDisjoint_less:
  "isSortedAndDisjoint ss \<longleftrightarrow> (\<forall>i < length ss - 1. End (ss ! i) \<le> Start (ss ! Suc i))"
proof -
  have img: "{1..<length ss} = Suc ` {..<length ss - 1}"
    by (cases ss) (auto simp: image_Suc_lessThan)
  show ?thesis
    unfolding isSortedAndDisjoint_def img by (auto simp: not_less)
qed

lemma isSortedAndDisjoint_chained: "isSortedAndDisjoint ss = chained ss"
proof (induction ss rule: chained.induct)
  case (1 a b ss)
  then show ?case by (simp add: isSortedAndDisjoint_less All_less_Suc2)
qed (auto simp: isSortedAndDisjoint_less)

lemma chained_Cons: "chained (a # ss) \<longleftrightarrow> (ss = [] \<or> End a \<le> Start (hd ss)) \<and> chained ss"
  by (cases ss) auto

lemma merge_loop_ne [simp]: "merge_loop c cs \<noteq> []"
  by (induction c cs rule: merge_loop.induct) auto

lemma merge_loop_hd_Start: "Start (hd (merge_loop c cs)) = Start c"
  by (induction c cs rule: merge_loop.induct) auto

lemma sorted_merge_step:
  assumes "sorted (lst # s # ss)"
  shows "sorted ((if End s > End lst then Span (Start lst) (End s) else lst) # ss)"
    (is "sorted (?l # ss)")
proof -
  have le: "Start lst \<le> Start s"
    using assms by (auto simp: less_eq_span_def split: if_splits)
  have "?l \<le> t" if "t \<in> set ss" for t
  proof -
    have "lst \<le> t" "s \<le> t" using assms that by auto
    then show ?thesis using le by (auto simp: less_eq_span_def split: if_splits)
  qed
  with assms show ?thesis by simp
qed

lemma covered_merge_loop:
  "sorted (c # cs) \<Longrightarrow> covered (merge_loop c cs) = covered (c # cs)"
proof (induction c cs rule: merge_loop.induct)
  case (2 lst s ss)
  have le: "Start lst \<le> Start s"
    using "2.prems"(1) by (auto simp: less_eq_span_def split: if_splits)
  let ?l = "if End s > End lst then Span (Start lst) (End s) else lst"
  show ?case
  proof (cases "Start s \<le> End lst")
    case True
    have "sorted (?l # ss)" using "2.prems" by (rule sorted_merge_step)
    with "2.IH"(1) [OF True] True
    have "covered (merge_loop lst (s # ss)) = {Start ?l..<End ?l} \<union> covered ss" by simp
    also have "{Start ?l..<End ?l} = {Start lst..<End lst} \<union> {Start s..<End s}"
      using True le by auto
    finally show ?thesis by auto
  next
    case False
    with 2 show ?thesis by auto
  qed
qed simp

lemma chained_merge_loop: "chained (merge_loop c cs)"
proof (induction c cs rule: merge_loop.induct)
  case (2 lst s ss)
  then show ?case
    by (auto simp: chained_Cons merge_loop_hd_Start)
qed simp

lemma MergeSpans_cases:
  obtains (same) "MergeSpans sps = sps" "chained sps"
  | (merged) c cs where "MergeSpans sps = merge_loop c cs" "sorted (c # cs)" "set (c # cs) = set sps"
proof (cases "sort sps")
  case Nil
  then have "sps = []" by (metis set_empty set_sort)
  with same show ?thesis by (simp add: MergeSpans_def)
next
  case (Cons c cs)
  have short: "length sps \<le> 1 \<Longrightarrow> chained sps" by (cases sps rule: chained.cases) auto
  have c: "sorted (c # cs)" "set (c # cs) = set sps"
    using sorted_sort [of sps] set_sort [of "\<lambda>x. x" sps] by (simp_all only: Cons)
  show ?thesis
  proof (cases "length sps \<le> 1 \<or> isSortedAndDisjoint sps")
    case True
    with short have "MergeSpans sps = sps" "chained sps"
      by (auto simp: MergeSpans_def isSortedAndDisjoint_chained)
    then show ?thesis by (rule same)
  next
    case False
    with Cons have "MergeSpans sps = merge_loop c cs" by (simp add: MergeSpans_def)
    then show ?thesis using c by (rule merged)
  qed
qed

lemma covered_MergeSpans [simp]: "covered (MergeSpans sps) = covered sps"
proof (cases rule: MergeSpans_cases [of sps])
  case (merged c cs)
  have "covered (merge_loop c cs) = covered (c # cs)" by (rule covered_merge_loop) (rule merged)
  also have "\<dots> = covered sps" by (rule covered_cong) (rule merged)
  finally show ?thesis by (simp only: merged(1))
qed (simp only:)

lemma chained_MergeSpans: "chained (MergeSpans sps)"
  by (cases rule: MergeSpans_cases [of sps]) (simp_all only: chained_merge_loop)

subsection \<open>Coverage\<close>

lemma covers_loop_sound:
  "covers_loop ss a b \<Longrightarrow> {a..<b} \<subseteq> covered ss"
proof (induction ss a b rule: covers_loop.induct)
  case (2 s ss a b)
  show ?case
  proof (cases "a \<ge> End s \<or> a < Start s \<or> b \<le> End s")
    case True
    with 2 show ?thesis by (auto split: if_splits)
  next
    case False
    with 2 have "{End s..<b} \<subseteq> covered ss" by (auto split: if_splits)
    with False show ?thesis by (auto simp: subset_iff) (meson linorder_not_le)
  qed
qed simp

lemma chained_lower:
  "chained (s # ss) \<Longrightarrow> \<forall>t \<in> set (s # ss). Start t \<le> End t \<Longrightarrow> t \<in> set ss \<Longrightarrow> End s \<le> Start t"
proof (induction ss arbitrary: s)
  case (Cons u ss)
  show ?case
  proof (cases "t = u")
    case False
    with Cons have "End u \<le> Start t" by simp
    with Cons.prems show ?thesis by auto
  qed (use Cons in simp)
qed simp

lemma covers_loop_complete:
  "chained ss \<Longrightarrow> \<forall>t \<in> set ss. Start t \<le> End t \<Longrightarrow> a < b \<Longrightarrow> {a..<b} \<subseteq> covered ss \<Longrightarrow>
   covers_loop ss a b"
proof (induction ss a b rule: covers_loop.induct)
  case (2 s ss a b)
  have lower: "x \<in> covered ss \<Longrightarrow> End s \<le> x" for x
    using chained_lower [OF "2.prems"(1,2)] by (force simp: covered_def)
  have tail: "chained ss" "\<forall>t \<in> set ss. Start t \<le> End t"
    using 2 by (auto simp: chained_Cons)
  have a_in: "a \<in> {Start s..<End s} \<union> covered ss"
    using "2.prems"(3,4) by auto
  show ?case
  proof (cases "a \<ge> End s")
    case True
    then have "{a..<b} \<subseteq> covered ss" using "2.prems"(4) by force
    with True tail "2.prems"(3) show ?thesis using "2.IH"(1) by simp
  next
    case False
    with a_in lower have s: "Start s \<le> a" by force
    show ?thesis
    proof (cases "b \<le> End s")
      case True
      with False s show ?thesis by simp
    next
      case nb: False
      have "{End s..<b} \<subseteq> covered ss"
      proof
        fix x assume "x \<in> {End s..<b}"
        then have "x \<in> {a..<b}" "x \<notin> {Start s..<End s}" using False by auto
        with "2.prems"(4) have "x \<in> covered (s # ss)" "x \<notin> {Start s..<End s}" by blast+
        then show "x \<in> covered ss" by auto
      qed
      with nb tail False s show ?thesis using "2.IH"(2) by simp
    qed
  qed
qed simp

lemma Covers_sound: "Covers spans start end \<Longrightarrow> {start..<end} \<subseteq> covered spans"
proof -
  assume *: "Covers spans start end"
  show ?thesis
  proof (cases "start \<ge> end \<or> length spans = 1")
    case True
    with * show ?thesis
      by (cases spans) (auto simp: Covers_def split: if_splits)
  next
    case False
    with * have "covers_loop (MergeSpans spans) start end" by (simp add: Covers_def)
    from covers_loop_sound [OF this] show ?thesis by simp
  qed
qed

lemma merge_loop_wf:
  "sorted (c # cs) \<Longrightarrow> \<forall>t \<in> set (c # cs). Start t \<le> End t \<Longrightarrow>
   \<forall>t \<in> set (merge_loop c cs). Start t \<le> End t"
proof (induction c cs rule: merge_loop.induct)
  case (2 lst s ss)
  have le: "Start lst \<le> Start s"
    using "2.prems"(1) by (auto simp: less_eq_span_def split: if_splits)
  show ?case
  proof (cases "Start s \<le> End lst")
    case True
    let ?l = "if End s > End lst then Span (Start lst) (End s) else lst"
    have "\<forall>t \<in> set (?l # ss). Start t \<le> End t"
      using "2.prems"(2) le by auto
    from "2.IH"(1) [OF True sorted_merge_step [OF "2.prems"(1)] this] True
    show ?thesis by (simp only: merge_loop.simps if_True)
  next
    case False
    from "2.IH"(2) [OF False] False "2.prems" show ?thesis by simp
  qed
qed simp

lemma MergeSpans_wf:
  assumes "\<forall>t \<in> set sps. Start t \<le> End t"
  shows "\<forall>t \<in> set (MergeSpans sps). Start t \<le> End t"
proof (cases rule: MergeSpans_cases [of sps])
  case same
  then show ?thesis using assms by simp
next
  case (merged c cs)
  then show ?thesis using merge_loop_wf [of c cs] assms by metis
qed

lemma Covers_complete:
  assumes "\<forall>t \<in> set spans. Start t \<le> End t" and "{start..<end} \<subseteq> covered spans"
  shows "Covers spans start end"
proof (cases "start \<ge> end \<or> length spans = 1")
  case True
  show ?thesis
  proof (cases "start \<ge> end")
    case False
    with True obtain s where s: "spans = [s]" by (cases spans) auto
    with assms(2) False have "start \<in> {Start s..<End s}" "end - 1 \<in> {Start s..<End s}" by auto
    with s False show ?thesis by (simp add: Covers_def)
  qed (simp add: Covers_def)
next
  case False
  have "covers_loop (MergeSpans spans) start end"
    using False assms(2)
    by (intro covers_loop_complete chained_MergeSpans MergeSpans_wf assms(1)) simp_all
  with False show ?thesis by (simp add: Covers_def)
qed

subsection \<open>Properties\<close>


text \<open>C38: \<open>Covers\<close> decides coverage: on spans whose ends are not below their starts it answers true
  exactly when every offset of the half-open range is covered; a true answer is never wrong, even
  for malformed spans.\<close>

theorem Covers_iff:
  "(Covers spans start end \<longrightarrow> {start..<end} \<subseteq> covered spans) \<and>
   ((\<forall>t \<in> set spans. Start t \<le> End t) \<longrightarrow>
     Covers spans start end = ({start..<end} \<subseteq> covered spans))"
  using Covers_sound Covers_complete by blast

theorem Covers_iff_witness:
  "Covers [Span 0 4, Span 2 9] 1 9 \<and> {1..<9} \<subseteq> covered [Span 0 4, Span 2 9] \<and>
   \<not> Covers [Span 0 4, Span 6 9] 1 9"
proof -
  have "Covers [Span 0 4, Span 2 9] 1 9" by code_simp
  moreover have "{1..<9} \<subseteq> covered [Span 0 4, Span 2 9]"
    using Covers_iff [of "[Span 0 4, Span 2 9]" 1 9] calculation by simp
  moreover have "\<not> Covers [Span 0 4, Span 6 9] 1 9" by code_simp
  ultimately show ?thesis by blast
qed

text \<open>The comment on \<open>isSortedAndDisjoint\<close> excludes touching neighbours; the test admits them, so two
  adjacent spans are returned by \<open>MergeSpans\<close> as they are.\<close>

lemma isSortedAndDisjoint_touching:
  "isSortedAndDisjoint [Span 0 4, Span 4 9] \<and> MergeSpans [Span 0 4, Span 4 9] = [Span 0 4, Span 4 9]"
  by code_simp

subsection \<open>The interface used by the store\<close>

locale span_index =
  fixes bytes_of :: "'s \<Rightarrow> int set"
    and record_range :: "'s \<Rightarrow> int \<Rightarrow> int \<Rightarrow> 's"
    and has_range :: "'s \<Rightarrow> int \<Rightarrow> int \<Rightarrow> bool"
  assumes bytes_of_record: "bytes_of (record_range s a b) = bytes_of s \<union> {a..<b}"
    and has_range_sound: "has_range s a b \<Longrightarrow> {a..<b} \<subseteq> bytes_of s"
begin

definition backed :: "(int \<Rightarrow> bool) \<Rightarrow> 's \<Rightarrow> bool" where
  \<comment> \<open>every offset of the index satisfies the predicate (holds the right byte)\<close>
  "backed P s \<longleftrightarrow> (\<forall>x \<in> bytes_of s. P x)"

lemma backed_record: "backed P s \<Longrightarrow> (\<And>x. a \<le> x \<Longrightarrow> x < b \<Longrightarrow> P x) \<Longrightarrow> backed P (record_range s a b)"
  by (auto simp: backed_def bytes_of_record)

lemma backed_has_range: "backed P s \<Longrightarrow> has_range s a b \<Longrightarrow> a \<le> x \<Longrightarrow> x < b \<Longrightarrow> P x"
  using has_range_sound [of s a b] by (auto simp: backed_def)

lemma backed_mono: "backed P s \<Longrightarrow> (\<And>x. x \<in> bytes_of s \<Longrightarrow> P x \<Longrightarrow> Q x) \<Longrightarrow> backed Q s"
  by (auto simp: backed_def)

end

definition record_span :: "span list \<Rightarrow> int \<Rightarrow> int \<Rightarrow> span list" where
  \<comment> \<open>\<open>MergeSpans(append(meta.Spans, Span{Start: a, End: b}))\<close>\<close>
  "record_span sps a b = MergeSpans (sps @ [Span a b])"

interpretation spix: span_index covered record_span Covers
  by unfold_locales (auto simp: record_span_def dest: Covers_sound)

end
