(* ===== verification/Lru.thy ===== *)
theory Lru
  imports Go_Prelude "HOL-Library.AList"
begin

text \<open>
  The bounded LRU of \<open>internal/cache/lru.go\<close>: a map from keys to entries that are linked in a doubly
  linked list, most recently used first. The entries live in an explicit heap (addresses are
  naturals), and the pointer operations are those of the code. The development shows that the
  structure refines a most-recently-used association list, and provides the locale \<open>kv_cache\<close>: what
  the store relies on when it keeps decoded metadata and open handles in such a cache.
\<close>

subsection \<open>The data structure\<close>

record 'v lruEntry =
  ekey :: string
  eval :: 'v
  prev :: "nat option"
  nxt :: "nat option"

record 'v lru =
  cap :: int
  head :: "nat option"
  tail :: "nat option"
  mp :: "(string \<times> nat) list"
  heap :: "nat \<Rightarrow> 'v lruEntry"
  brk :: nat

definition newLRU :: "'v \<Rightarrow> int \<Rightarrow> 'v lru" where
  \<comment> \<open>the first argument fills heap cells that were never allocated\<close>
  "newLRU dflt capacity =
     \<lparr>cap = (if capacity < 1 then 1 else capacity), head = None, tail = None, mp = [],
      heap = (\<lambda>_. \<lparr>ekey = [], eval = dflt, prev = None, nxt = None\<rparr>), brk = 0\<rparr>"

definition upd :: "nat \<Rightarrow> ('v lruEntry \<Rightarrow> 'v lruEntry) \<Rightarrow> 'v lru \<Rightarrow> 'v lru" where
  \<comment> \<open>an assignment through a pointer to an entry\<close>
  "upd a f l = l\<lparr>heap := (heap l)(a := f (heap l a))\<rparr>"

definition pushFrontLocked :: "nat \<Rightarrow> 'v lru \<Rightarrow> 'v lru" where
  "pushFrontLocked e l =
     (let l1 = upd e (\<lambda>x. x\<lparr>prev := None\<rparr>) l;
          l2 = upd e (\<lambda>x. x\<lparr>nxt := head l1\<rparr>) l1;
          l3 = (case head l2 of None \<Rightarrow> l2 | Some h \<Rightarrow> upd h (\<lambda>x. x\<lparr>prev := Some e\<rparr>) l2);
          l4 = l3\<lparr>head := Some e\<rparr>
      in if tail l4 = None then l4\<lparr>tail := Some e\<rparr> else l4)"

definition removeLocked :: "nat \<Rightarrow> 'v lru \<Rightarrow> 'v lru" where
  "removeLocked e l =
     (let l1 = (case prev (heap l e) of
                  Some p \<Rightarrow> upd p (\<lambda>x. x\<lparr>nxt := nxt (heap l e)\<rparr>) l
                | None \<Rightarrow> l\<lparr>head := nxt (heap l e)\<rparr>);
          l2 = (case nxt (heap l1 e) of
                  Some n \<Rightarrow> upd n (\<lambda>x. x\<lparr>prev := prev (heap l1 e)\<rparr>) l1
                | None \<Rightarrow> l1\<lparr>tail := prev (heap l1 e)\<rparr>)
      in upd e (\<lambda>x. x\<lparr>prev := None, nxt := None\<rparr>) l2)"

definition moveToFrontLocked :: "nat \<Rightarrow> 'v lru \<Rightarrow> 'v lru" where
  "moveToFrontLocked e l =
     (if head l = Some e then l else pushFrontLocked e (removeLocked e l))"

definition Get :: "'v lru \<Rightarrow> string \<Rightarrow> 'v option \<times> 'v lru" where
  "Get l key =
     (case map_of (mp l) key of
        None \<Rightarrow> (None, l)
      | Some e \<Rightarrow> let l' = moveToFrontLocked e l in (Some (eval (heap l' e)), l'))"

definition evictOverflow :: "'v lru \<Rightarrow> 'v lru \<times> (string \<times> 'v) option" where
  \<comment> \<open>the eviction that ends the insertion branch of \<open>Add\<close> and of \<open>GetOrAdd\<close>; the second
      component is the pair handed to \<open>onEvict\<close>\<close>
  "evictOverflow l =
     (if int (length (mp l)) > cap l
      then (case tail l of
              Some victim \<Rightarrow>
                let l1 = removeLocked victim l;
                    l2 = l1\<lparr>mp := AList.delete (ekey (heap l1 victim)) (mp l1)\<rparr>
                in (l2, Some (ekey (heap l2 victim), eval (heap l2 victim)))
            | None \<Rightarrow> (l, None))
      else (l, None))"

definition insertNew :: "'v lru \<Rightarrow> string \<Rightarrow> 'v \<Rightarrow> 'v lru \<times> (string \<times> 'v) option" where
  \<comment> \<open>the branch of \<open>Add\<close> and of \<open>GetOrAdd\<close> for a missing key\<close>
  "insertNew l key val =
     (let e = brk l;
          l1 = l\<lparr>heap := (heap l)(e := \<lparr>ekey = key, eval = val, prev = None, nxt = None\<rparr>),
                 brk := Suc e\<rparr>;
          l2 = l1\<lparr>mp := AList.update key e (mp l1)\<rparr>
      in evictOverflow (pushFrontLocked e l2))"

definition Add :: "'v lru \<Rightarrow> string \<Rightarrow> 'v \<Rightarrow> 'v lru \<times> (string \<times> 'v) option" where
  "Add l key val =
     (case map_of (mp l) key of
        Some e \<Rightarrow> (moveToFrontLocked e (upd e (\<lambda>x. x\<lparr>eval := val\<rparr>) l), None)
      | None \<Rightarrow> insertNew l key val)"

definition GetOrAdd ::
  "'v lru \<Rightarrow> string \<Rightarrow> 'v \<Rightarrow> ('v \<times> bool) \<times> 'v lru \<times> (string \<times> 'v) option" where
  "GetOrAdd l key newVal =
     (case map_of (mp l) key of
        Some e \<Rightarrow> let l' = moveToFrontLocked e l in ((eval (heap l' e), True), l', None)
      | None \<Rightarrow> ((newVal, False), insertNew l key newVal))"

definition Len :: "'v lru \<Rightarrow> int" where
  "Len l = int (length (mp l))"

definition Delete :: "'v lru \<Rightarrow> string \<Rightarrow> bool \<times> 'v lru \<times> (string \<times> 'v) option" where
  "Delete l key =
     (case map_of (mp l) key of
        None \<Rightarrow> (False, l, None)
      | Some e \<Rightarrow>
          let l1 = removeLocked e l; l2 = l1\<lparr>mp := AList.delete key (mp l1)\<rparr>
          in (True, l2, Some (key, eval (heap l2 e))))"

subsection \<open>Doubly linked segments\<close>

definition first_or :: "nat list \<Rightarrow> nat option \<Rightarrow> nat option" where
  "first_or as n = (case as of [] \<Rightarrow> n | a # _ \<Rightarrow> Some a)"

definition last_or :: "nat option \<Rightarrow> nat list \<Rightarrow> nat option" where
  "last_or p as = (if as = [] then p else Some (last as))"

lemma first_or_simps [simp]: "first_or [] n = n" "first_or (a # as) n = Some a"
  by (simp_all add: first_or_def)

lemma last_or_simps [simp]:
  "last_or p [] = p" "last_or p (as @ [a]) = Some a" "last_or p (a # as) = last_or (Some a) as"
  by (simp_all add: last_or_def)

lemma first_or_append [simp]: "first_or (as @ bs) n = first_or as (first_or bs n)"
  by (cases as) auto

lemma first_or_Some: "first_or as None = Some a \<Longrightarrow> \<exists>bs. as = a # bs"
  by (cases as) auto

lemma last_or_Some: "last_or None as = Some a \<Longrightarrow> \<exists>bs. as = bs @ [a]"
  by (cases as rule: rev_cases) auto

lemma first_or_None [simp]: "first_or as None = None \<longleftrightarrow> as = []"
  by (cases as) auto

lemma first_or_ne [simp]: "as \<noteq> [] \<Longrightarrow> first_or as n = Some (hd as)"
  by (cases as) auto

lemma last_or_None [simp]: "last_or None as = None \<longleftrightarrow> as = []"
  by (simp add: last_or_def)

fun dll :: "(nat \<Rightarrow> 'v lruEntry) \<Rightarrow> nat option \<Rightarrow> nat list \<Rightarrow> nat option \<Rightarrow> bool" where
  "dll h p [] n = True"
| "dll h p (a # as) n = (prev (h a) = p \<and> nxt (h a) = first_or as n \<and> dll h (Some a) as n)"

lemma dll_append:
  "dll h p (as @ bs) n \<longleftrightarrow> dll h p as (first_or bs n) \<and> dll h (last_or p as) bs n"
  by (induction as arbitrary: p) auto

lemma dll_cong:
  "(\<And>a. a \<in> set as \<Longrightarrow> prev (h' a) = prev (h a) \<and> nxt (h' a) = nxt (h a)) \<Longrightarrow>
   dll h' p as n = dll h p as n"
  by (induction as arbitrary: p) auto

lemma dll_set_next:
  assumes "dll h p (as @ [a]) n" "a \<notin> set as"
  shows "dll (h(a := (h a)\<lparr>nxt := n'\<rparr>)) p (as @ [a]) n'"
proof -
  have "dll (h(a := (h a)\<lparr>nxt := n'\<rparr>)) p as (Some a) = dll h p as (Some a)"
    by (rule dll_cong) (use assms(2) in auto)
  with assms show ?thesis by (simp add: dll_append)
qed

lemma dll_set_prev:
  assumes "dll h p (a # as) n" "a \<notin> set as"
  shows "dll (h(a := (h a)\<lparr>prev := p'\<rparr>)) p' (a # as) n"
proof -
  have "dll (h(a := (h a)\<lparr>prev := p'\<rparr>)) (Some a) as n = dll h (Some a) as n"
    by (rule dll_cong) (use assms(2) in auto)
  with assms show ?thesis by simp
qed

definition links :: "'v lru \<Rightarrow> nat list \<Rightarrow> bool" where
  "links l as \<longleftrightarrow> distinct as \<and> dll (heap l) None as None \<and>
     head l = first_or as None \<and> tail l = last_or None as"

text \<open>The pointer operations touch only links: keys, values, the map and the capacity stay.\<close>

lemma upd_simps [simp]:
  "cap (upd a f l) = cap l" "head (upd a f l) = head l" "tail (upd a f l) = tail l"
  "mp (upd a f l) = mp l" "brk (upd a f l) = brk l"
  "heap (upd a f l) = (heap l)(a := f (heap l a))"
  by (simp_all add: upd_def)

lemma pushFront_frame [simp]:
  "cap (pushFrontLocked e l) = cap l" "mp (pushFrontLocked e l) = mp l"
  "brk (pushFrontLocked e l) = brk l"
  "ekey (heap (pushFrontLocked e l) a) = ekey (heap l a)"
  "eval (heap (pushFrontLocked e l) a) = eval (heap l a)"
  by (simp_all add: pushFrontLocked_def Let_def split: option.split)

lemma remove_frame [simp]:
  "cap (removeLocked e l) = cap l" "mp (removeLocked e l) = mp l" "brk (removeLocked e l) = brk l"
  "ekey (heap (removeLocked e l) a) = ekey (heap l a)"
  "eval (heap (removeLocked e l) a) = eval (heap l a)"
  by (simp_all add: removeLocked_def Let_def split: option.split)

lemma move_frame [simp]:
  "cap (moveToFrontLocked e l) = cap l" "mp (moveToFrontLocked e l) = mp l"
  "brk (moveToFrontLocked e l) = brk l"
  "ekey (heap (moveToFrontLocked e l) a) = ekey (heap l a)"
  "eval (heap (moveToFrontLocked e l) a) = eval (heap l a)"
  by (simp_all add: moveToFrontLocked_def)

lemma links_pushFront:
  assumes "links l as" "e \<notin> set as"
  shows "links (pushFrontLocked e l) (e # as)"
proof (cases as)
  case Nil
  then show ?thesis using assms by (auto simp: links_def pushFrontLocked_def Let_def)
next
  case (Cons b bs)
  let ?h = "(heap l)(e := (heap l e)\<lparr>prev := None, nxt := Some b\<rparr>)"
  have "dll ?h None as None = dll (heap l) None as None"
    by (rule dll_cong) (use assms(2) in auto)
  then have "dll ?h None (b # bs) None" using assms Cons by (simp add: links_def)
  from dll_set_prev [OF this, of "Some e"] assms Cons
  have "dll (?h(b := (?h b)\<lparr>prev := Some e\<rparr>)) (Some e) (b # bs) None"
    by (simp add: links_def)
  with assms Cons show ?thesis
    by (auto simp: links_def pushFrontLocked_def Let_def last_or_def)
qed

lemma dll_remove:
  assumes "dll h None (xs @ e # ys) None" "distinct (xs @ e # ys)"
  defines "h1 \<equiv> (case prev (h e) of Some p \<Rightarrow> h(p := (h p)\<lparr>nxt := nxt (h e)\<rparr>) | None \<Rightarrow> h)"
  defines "h2 \<equiv> (case nxt (h e) of Some n \<Rightarrow> h1(n := (h1 n)\<lparr>prev := prev (h e)\<rparr>) | None \<Rightarrow> h1)"
  shows "dll h2 None (xs @ ys) None" and "h2 e = h e"
proof -
  have pe: "prev (h e) = last_or None xs" and ne: "nxt (h e) = first_or ys None"
    and x: "dll h None xs (Some e)" and y: "dll h (Some e) ys None"
    using assms(1) by (simp_all add: dll_append)
  have h1x: "dll h1 None xs (first_or ys None)"
  proof (cases xs rule: rev_cases)
    case (snoc zs z)
    with assms(2) dll_set_next [of h None zs z "Some e" "first_or ys None"] x
    show ?thesis by (simp add: h1_def pe ne)
  qed simp
  have "xs \<noteq> [] \<Longrightarrow> last xs \<notin> set ys"
    using assms(2) by (cases xs rule: rev_cases) auto
  then have "dll h1 (Some e) ys None = dll h (Some e) ys None"
    by (intro dll_cong)
      (use assms(2) in \<open>auto simp: h1_def pe last_or_def split: option.splits if_splits\<close>)
  with y have h1y: "dll h1 (Some e) ys None" by simp
  have h2y: "dll h2 (last_or None xs) ys None"
  proof (cases ys)
    case (Cons z zs)
    with h1y assms(2) dll_set_prev [of h1 "Some e" z zs None "last_or None xs"]
    show ?thesis by (simp add: h2_def pe ne)
  qed simp
  have "dll h2 None xs (first_or ys None) = dll h1 None xs (first_or ys None)"
    by (rule dll_cong)
      (use assms(2) in \<open>auto simp: h2_def ne first_or_def split: option.splits list.splits\<close>)
  with h1x h2y show "dll h2 None (xs @ ys) None" by (simp add: dll_append)
  have "h1 e = h e"
    using assms(2) by (auto simp: h1_def pe last_or_def split: option.splits if_splits)
  then show "h2 e = h e"
    using assms(2) by (auto simp: h2_def ne first_or_def split: option.splits list.splits)
qed

lemma links_remove:
  assumes "links l (xs @ e # ys)"
  shows "links (removeLocked e l) (xs @ ys)"
proof -
  let ?h = "heap l"
  let ?h1 = "case prev (?h e) of Some p \<Rightarrow> ?h(p := (?h p)\<lparr>nxt := nxt (?h e)\<rparr>) | None \<Rightarrow> ?h"
  let ?h2 = "case nxt (?h e) of Some n \<Rightarrow> ?h1(n := (?h1 n)\<lparr>prev := prev (?h e)\<rparr>) | None \<Rightarrow> ?h1"
  have d: "dll ?h None (xs @ e # ys) None" "distinct (xs @ e # ys)"
    using assms by (auto simp: links_def)
  have pe: "prev (?h e) = last_or None xs" and ne: "nxt (?h e) = first_or ys None"
    using d(1) by (simp_all add: dll_append)
  have e1: "?h1 e = ?h e"
    using d(2) pe by (auto simp: last_or_def split: option.splits if_splits)
  have heap: "heap (removeLocked e l) = ?h2(e := (?h2 e)\<lparr>prev := None, nxt := None\<rparr>)"
    using e1 by (auto simp: removeLocked_def Let_def split: option.split)
  have "dll (heap (removeLocked e l)) None (xs @ ys) None = dll ?h2 None (xs @ ys) None"
    unfolding heap by (rule dll_cong) (use d(2) in auto)
  then have 1: "dll (heap (removeLocked e l)) None (xs @ ys) None"
    using dll_remove(1) [OF d] by simp
  have 2: "head (removeLocked e l) = first_or (xs @ ys) None"
    using assms pe ne e1
    by (auto simp: removeLocked_def Let_def links_def last_or_def split: option.split if_splits)
  have 3: "tail (removeLocked e l) = last_or None (xs @ ys)"
    using assms pe ne e1
    by (auto simp: removeLocked_def Let_def links_def last_or_def split: option.split if_splits)
  from 1 2 3 d(2) show ?thesis by (auto simp: links_def)
qed

subsection \<open>The specification: a most-recently-used list\<close>

fun mru_get :: "(string \<times> 'v) list \<Rightarrow> string \<Rightarrow> 'v option \<times> (string \<times> 'v) list" where
  "mru_get xs k =
     (case map_of xs k of None \<Rightarrow> (None, xs) | Some v \<Rightarrow> (Some v, (k, v) # AList.delete k xs))"

definition mru_add ::
  "int \<Rightarrow> (string \<times> 'v) list \<Rightarrow> string \<Rightarrow> 'v \<Rightarrow> (string \<times> 'v) list \<times> (string \<times> 'v) option" where
  "mru_add c xs k v =
     (let ys = (k, v) # AList.delete k xs
      in if map_of xs k = None \<and> int (length ys) > c then (butlast ys, Some (last ys))
         else (ys, None))"

definition mru_delete ::
  "(string \<times> 'v) list \<Rightarrow> string \<Rightarrow> (string \<times> 'v) list \<times> (string \<times> 'v) option" where
  "mru_delete xs k = (AList.delete k xs, map_option (Pair k) (map_of xs k))"

definition entry_of :: "'v lru \<Rightarrow> nat \<Rightarrow> string \<times> 'v" where
  "entry_of l a = (ekey (heap l a), eval (heap l a))"

definition rep :: "'v lru \<Rightarrow> nat list \<Rightarrow> bool" where
  \<comment> \<open>the addresses in list order, and the map pointing at exactly these entries\<close>
  "rep l as \<longleftrightarrow> links l as \<and> (\<forall>a \<in> set as. a < brk l) \<and> cap l \<ge> 1 \<and>
     distinct (map fst (mp l)) \<and> distinct (map (\<lambda>a. ekey (heap l a)) as) \<and>
     set (mp l) = (\<lambda>a. (ekey (heap l a), a)) ` set as"

definition repr :: "'v lru \<Rightarrow> (string \<times> 'v) list \<Rightarrow> bool" where
  "repr l xs \<longleftrightarrow> (\<exists>as. rep l as \<and> xs = map (entry_of l) as \<and> int (length as) \<le> cap l)"

lemma rep_lookup:
  assumes "rep l as"
  shows "map_of (mp l) k = Some a \<longleftrightarrow> a \<in> set as \<and> ekey (heap l a) = k"
  using assms by (auto simp: rep_def map_of_eq_Some_iff)

lemma rep_lookup_None:
  assumes "rep l as"
  shows "map_of (mp l) k = None \<longleftrightarrow> k \<notin> (\<lambda>a. ekey (heap l a)) ` set as"
proof (cases "map_of (mp l) k")
  case None
  then show ?thesis using rep_lookup [OF assms, of k] by auto
next
  case (Some a)
  then show ?thesis using rep_lookup [OF assms, of k a] by auto
qed

lemma rep_length:
  assumes "rep l as"
  shows "length (mp l) = length as"
proof -
  have d: "distinct (mp l)" "distinct as"
    using assms by (auto simp: rep_def links_def distinct_map)
  have "inj_on (\<lambda>a. (ekey (heap l a), a)) (set as)" by (auto intro: inj_onI)
  then have "card (set (mp l)) = card (set as)"
    using assms by (simp add: rep_def card_image)
  with d show ?thesis by (simp add: distinct_card)
qed

lemma map_of_entry:
  assumes "distinct (map (\<lambda>a. ekey (heap l a)) as)"
  shows "map_of (map (entry_of l) as) k =
    (case filter (\<lambda>a. ekey (heap l a) = k) as of [] \<Rightarrow> None | a # _ \<Rightarrow> Some (eval (heap l a)))"
  using assms by (induction as) (auto simp: entry_of_def)

lemma map_of_entry_Some:
  assumes "a \<in> set as" "distinct (map (\<lambda>a. ekey (heap l a)) as)" "ekey (heap l a) = k"
  shows "map_of (map (entry_of l) as) k = Some (eval (heap l a))"
  by (rule map_of_is_SomeI) (use assms in \<open>auto simp: entry_of_def comp_def image_iff\<close>)

lemma map_of_entry_None:
  "map_of (map (entry_of l) as) k = None \<longleftrightarrow> k \<notin> (\<lambda>a. ekey (heap l a)) ` set as"
  by (auto simp: map_of_eq_None_iff entry_of_def image_iff)

lemma delete_entry_split:
  assumes "distinct (map (\<lambda>a. ekey (heap l a)) (xs @ e # ys))"
  shows "AList.delete (ekey (heap l e)) (map (entry_of l) (xs @ e # ys)) = map (entry_of l) (xs @ ys)"
proof -
  have "AList.delete (ekey (heap l e)) (map (entry_of l) zs) = map (entry_of l) zs"
    if "ekey (heap l e) \<notin> (\<lambda>a. ekey (heap l a)) ` set zs" for zs
    using that by (induction zs) (auto simp: entry_of_def)
  from this [of xs] this [of ys] assms show ?thesis
    by (auto simp: AList.delete_eq entry_of_def)
qed

subsection \<open>Each operation refines its specification\<close>

lemma entry_of_frame [simp]:
  "entry_of (pushFrontLocked e l) = entry_of l" "entry_of (removeLocked e l) = entry_of l"
  "entry_of (moveToFrontLocked e l) = entry_of l" "entry_of (l\<lparr>mp := q\<rparr>) = entry_of l"
  by (simp_all add: entry_of_def fun_eq_iff)

lemma links_mp [simp]: "links (l\<lparr>mp := q\<rparr>) as = links l as"
  by (simp add: links_def)

lemma rep_move:
  assumes "rep l (xs @ e # ys)"
  shows "rep (moveToFrontLocked e l) (e # xs @ ys)"
proof (cases "xs = []")
  case True
  then show ?thesis using assms by (simp add: moveToFrontLocked_def rep_def links_def)
next
  case False
  have L: "links l (xs @ e # ys)" using assms by (simp add: rep_def)
  then have "head l \<noteq> Some e" using False by (auto simp: links_def)
  moreover have "links (pushFrontLocked e (removeLocked e l)) (e # xs @ ys)"
    using links_remove [OF L] L by (intro links_pushFront) (auto simp: links_def)
  ultimately have "links (moveToFrontLocked e l) (e # xs @ ys)" by (simp add: moveToFrontLocked_def)
  then show ?thesis using assms by (auto simp: rep_def)
qed

lemma rep_set_val:
  assumes "rep l as"
  shows "rep (upd e (\<lambda>x. x\<lparr>eval := v\<rparr>) l) as"
proof -
  have "dll (heap (upd e (\<lambda>x. x\<lparr>eval := v\<rparr>) l)) None as None = dll (heap l) None as None"
    by (rule dll_cong) simp
  moreover have "ekey (heap (upd e (\<lambda>x. x\<lparr>eval := v\<rparr>) l) a) = ekey (heap l a)" for a by simp
  ultimately show ?thesis using assms by (simp add: rep_def links_def del: upd_simps(6))
qed

lemma rep_split:
  assumes "rep l as" "map_of (mp l) k = Some e"
  obtains xs ys where "as = xs @ e # ys" "ekey (heap l e) = k"
  using assms rep_lookup [OF assms(1)] by (metis split_list)

lemma rep_distinct_keys: "rep l as \<Longrightarrow> distinct (map (\<lambda>a. ekey (heap l a)) as)"
  by (simp add: rep_def)

lemma rep_map_of:
  assumes "rep l as"
  shows "map_of (map (entry_of l) as) k = map_option (\<lambda>a. eval (heap l a)) (map_of (mp l) k)"
proof (cases "map_of (mp l) k")
  case None
  then show ?thesis
    using rep_lookup_None [OF assms, of k] map_of_entry_None [of l as k] by simp
next
  case (Some a)
  then show ?thesis
    using rep_lookup [OF assms, of k a] map_of_entry_Some [OF _ rep_distinct_keys [OF assms], of a k]
    by simp
qed

lemma repr_move:
  assumes "rep l as" "map_of (mp l) k = Some e" "int (length as) \<le> cap l"
  shows "repr (moveToFrontLocked e l)
    ((k, eval (heap l e)) # AList.delete k (map (entry_of l) as))"
proof -
  obtain xs ys where as: "as = xs @ e # ys" and k: "ekey (heap l e) = k"
    by (rule rep_split [OF assms(1,2)])
  have "rep (moveToFrontLocked e l) (e # xs @ ys)" using assms(1) as by (simp add: rep_move)
  moreover have "(k, eval (heap l e)) # AList.delete k (map (entry_of l) as) =
      map (entry_of l) (e # xs @ ys)"
    using delete_entry_split [of l xs e ys] rep_distinct_keys [OF assms(1)] as k
    by (simp add: entry_of_def)
  ultimately show ?thesis using assms(3) as
    by (auto simp: repr_def intro!: exI [of _ "e # xs @ ys"])
qed

lemma repr_Get:
  assumes "repr l xs"
  shows "fst (Get l k) = fst (mru_get xs k)" "repr (snd (Get l k)) (snd (mru_get xs k))"
proof -
  obtain as where r: "rep l as" and xs: "xs = map (entry_of l) as"
    and len: "int (length as) \<le> cap l"
    using assms by (auto simp: repr_def)
  show "fst (Get l k) = fst (mru_get xs k)"
    using rep_map_of [OF r, of k] by (auto simp: Get_def xs Let_def split: option.split)
  show "repr (snd (Get l k)) (snd (mru_get xs k))"
    using rep_map_of [OF r, of k] repr_move [OF r _ len, of k] assms xs
    by (auto simp: Get_def Let_def split: option.split)
qed

lemma rep_remove:
  assumes "rep l (xs @ e # ys)"
  shows "rep (removeLocked e l\<lparr>mp := AList.delete (ekey (heap l e)) (mp l)\<rparr>) (xs @ ys)"
proof -
  have L: "links (removeLocked e l) (xs @ ys)"
    using assms by (intro links_remove) (simp add: rep_def)
  have "set (AList.delete (ekey (heap l e)) (mp l)) =
      {p \<in> set (mp l). fst p \<noteq> ekey (heap l e)}"
    by (auto simp: AList.delete_eq)
  also have "\<dots> = (\<lambda>a. (ekey (heap l a), a)) ` set (xs @ ys)"
    using assms unfolding rep_def by (force simp: image_iff)
  finally have S: "set (AList.delete (ekey (heap l e)) (mp l)) =
      (\<lambda>a. (ekey (heap l a), a)) ` set (xs @ ys)" .
  show ?thesis
    unfolding rep_def
  proof (intro conjI)
    show "distinct (map fst (mp (removeLocked e l\<lparr>mp := AList.delete (ekey (heap l e)) (mp l)\<rparr>)))"
      using assms by (simp add: rep_def distinct_delete)
  qed (use assms L S in \<open>simp_all add: rep_def ball_Un\<close>)
qed

lemma update_nonmem: "k \<notin> fst ` set al \<Longrightarrow> AList.update k v al = al @ [(k, v)]"
  by (induction al) auto

lemma evictOverflow_rep:
  assumes "rep l (a # as)" "int (length as) \<le> cap l"
  shows "repr (fst (evictOverflow l)) (fst (if int (Suc (length as)) > cap l
           then (butlast (map (entry_of l) (a # as)), Some (last (map (entry_of l) (a # as))))
           else (map (entry_of l) (a # as), None)))"
    and "snd (evictOverflow l) = snd (if int (Suc (length as)) > cap l
           then (butlast (map (entry_of l) (a # as)), Some (last (map (entry_of l) (a # as))))
           else (map (entry_of l) (a # as), None))"
proof -
  obtain bs w where bs: "a # as = bs @ [w]" by (metis list.distinct(1) rev_exhaust)
  have len: "length bs = length as"
    using bs by (metis length_Cons length_append_singleton Suc_inject)
  have mlen: "length (mp l) = Suc (length as)" using rep_length [OF assms(1)] by simp
  have tl: "tail l = Some w" using assms(1) unfolding bs by (simp add: rep_def links_def)
  have r: "rep (removeLocked w l\<lparr>mp := AList.delete (ekey (heap l w)) (mp l)\<rparr>) bs"
    using rep_remove [of l bs w "[]"] assms(1) unfolding bs by simp
  show "repr (fst (evictOverflow l)) (fst (if int (Suc (length as)) > cap l
           then (butlast (map (entry_of l) (a # as)), Some (last (map (entry_of l) (a # as))))
           else (map (entry_of l) (a # as), None)))"
  proof (cases "int (Suc (length as)) > cap l")
    case True
    then show ?thesis using r len assms(2) unfolding bs repr_def
      by (intro exI [of _ bs]) (simp add: evictOverflow_def mlen tl Let_def)
  next
    case False
    then show ?thesis using assms unfolding repr_def
      by (intro exI [of _ "a # as"]) (simp add: evictOverflow_def mlen)
  qed
  show "snd (evictOverflow l) = snd (if int (Suc (length as)) > cap l
           then (butlast (map (entry_of l) (a # as)), Some (last (map (entry_of l) (a # as))))
           else (map (entry_of l) (a # as), None))"
    unfolding bs by (simp add: evictOverflow_def mlen tl Let_def entry_of_def)
qed

lemma repr_insertNew:
  assumes "repr l xs" "map_of (mp l) k = None"
  shows "repr (fst (insertNew l k v)) (fst (mru_add (cap l) xs k v))"
    and "snd (insertNew l k v) = snd (mru_add (cap l) xs k v)"
proof -
  obtain as where r: "rep l as" and xs: "xs = map (entry_of l) as"
    and len: "int (length as) \<le> cap l"
    using assms by (auto simp: repr_def)
  let ?e = "brk l"
  let ?l2 = "l\<lparr>heap := (heap l)(?e := \<lparr>ekey = k, eval = v, prev = None, nxt = None\<rparr>),
               brk := Suc ?e, mp := AList.update k ?e (mp l)\<rparr>"
  let ?l3 = "pushFrontLocked ?e ?l2"
  have fresh: "?e \<notin> set as" using r by (auto simp: rep_def)
  have knew: "k \<notin> (\<lambda>a. ekey (heap l a)) ` set as" using rep_lookup_None [OF r] assms(2) by simp
  have kmp: "k \<notin> fst ` set (mp l)" using assms(2) by (simp add: map_of_eq_None_iff)
  have old: "heap ?l2 a = heap l a" if "a \<in> set as" for a using that fresh by auto
  have "dll (heap ?l2) None as None = dll (heap l) None as None"
    by (rule dll_cong) (use old in simp)
  then have "links ?l2 as" using r by (simp add: rep_def links_def)
  then have L3: "links ?l3 (?e # as)" using fresh by (rule links_pushFront)
  have mp3: "mp ?l3 = mp l @ [(k, ?e)]" using kmp by (simp add: update_nonmem)
  have ents: "map (entry_of ?l3) (?e # as) = (k, v) # xs"
    using old by (simp add: xs entry_of_def)
  have del: "AList.delete k xs = xs" using knew by (auto simp: xs entry_of_def image_iff)
  have none: "map_of xs k = None" using knew map_of_entry_None [of l as k] by (simp add: xs)
  have "set (mp ?l3) = (\<lambda>a. (ekey (heap ?l3 a), a)) ` set (?e # as)"
    using r old unfolding mp3 by (simp add: rep_def)
  moreover have "distinct (map (\<lambda>a. ekey (heap ?l3 a)) (?e # as))"
  proof -
    have "map (\<lambda>a. ekey (heap ?l3 a)) (?e # as) = k # map (\<lambda>a. ekey (heap l a)) as"
      using old by simp
    moreover have "distinct (k # map (\<lambda>a. ekey (heap l a)) as)" using r knew by (simp add: rep_def)
    ultimately show ?thesis by (simp only:)
  qed
  ultimately have r3: "rep ?l3 (?e # as)"
    using r L3 kmp unfolding rep_def mp3 by (auto simp: less_Suc_eq)
  have "insertNew l k v = evictOverflow ?l3" by (simp add: insertNew_def Let_def)
  moreover have "mru_add (cap l) xs k v =
      (if int (Suc (length as)) > cap ?l3
       then (butlast (map (entry_of ?l3) (?e # as)), Some (last (map (entry_of ?l3) (?e # as))))
       else (map (entry_of ?l3) (?e # as), None))"
    using none del unfolding ents by (simp add: mru_add_def xs)
  moreover have "int (length as) \<le> cap ?l3" using len by simp
  ultimately show "repr (fst (insertNew l k v)) (fst (mru_add (cap l) xs k v))"
    and "snd (insertNew l k v) = snd (mru_add (cap l) xs k v)"
    using evictOverflow_rep [OF r3] by (simp_all only:)
qed

lemma repr_Add:
  assumes "repr l xs"
  shows "repr (fst (Add l k v)) (fst (mru_add (cap l) xs k v))"
    and "snd (Add l k v) = snd (mru_add (cap l) xs k v)"
proof -
  obtain as where r: "rep l as" and xs: "xs = map (entry_of l) as"
    and len: "int (length as) \<le> cap l"
    using assms by (auto simp: repr_def)
  have "repr (fst (Add l k v)) (fst (mru_add (cap l) xs k v)) \<and>
      snd (Add l k v) = snd (mru_add (cap l) xs k v)"
  proof (cases "map_of (mp l) k")
    case None
    then show ?thesis using repr_insertNew [OF assms None] by (simp add: Add_def)
  next
    case (Some e)
    let ?l' = "upd e (\<lambda>x. x\<lparr>eval := v\<rparr>) l"
    obtain ys zs where as: "as = ys @ e # zs" and k: "ekey (heap l e) = k"
      by (rule rep_split [OF r Some])
    have r': "rep ?l' as" using r by (rule rep_set_val)
    have "e \<notin> set ys \<union> set zs" using r by (auto simp: rep_def links_def as)
    then have same: "map (entry_of ?l') (ys @ zs) = map (entry_of l) (ys @ zs)"
      by (auto simp: entry_of_def)
    have "AList.delete k (map (entry_of ?l') as) = map (entry_of ?l') (ys @ zs)"
      using delete_entry_split [of ?l' ys e zs] rep_distinct_keys [OF r'] k by (simp add: as)
    also have "\<dots> = AList.delete k (map (entry_of l) as)"
      using delete_entry_split [of l ys e zs] rep_distinct_keys [OF r] k same by (simp add: as)
    finally have "AList.delete k (map (entry_of ?l') as) = AList.delete k xs" by (simp only: xs)
    moreover have "map_of xs k \<noteq> None" using rep_map_of [OF r, of k] Some by (simp add: xs)
    ultimately show ?thesis
      using repr_move [OF r', of k e] Some len by (auto simp: Add_def mru_add_def Let_def)
  qed
  then show "repr (fst (Add l k v)) (fst (mru_add (cap l) xs k v))"
    and "snd (Add l k v) = snd (mru_add (cap l) xs k v)" by simp_all
qed

lemma repr_map_of:
  assumes "repr l xs"
  shows "map_option (\<lambda>a. eval (heap l a)) (map_of (mp l) k) = map_of xs k"
  using assms by (auto simp: repr_def rep_map_of)

lemma repr_GetOrAdd:
  assumes "repr l xs"
  shows "GetOrAdd l k v = (case map_of xs k of
      Some w \<Rightarrow> ((w, True), snd (Get l k), None) | None \<Rightarrow> ((v, False), Add l k v))"
  unfolding repr_map_of [OF assms, of k, symmetric]
  by (auto simp: GetOrAdd_def Get_def Add_def Let_def split: option.splits)

lemma repr_Delete:
  assumes "repr l xs"
  shows "fst (Delete l k) = (map_of xs k \<noteq> None)"
    and "repr (fst (snd (Delete l k))) (fst (mru_delete xs k))"
    and "snd (snd (Delete l k)) = snd (mru_delete xs k)"
proof -
  obtain as where r: "rep l as" and xs: "xs = map (entry_of l) as"
    and len: "int (length as) \<le> cap l"
    using assms by (auto simp: repr_def)
  note look = repr_map_of [OF assms, of k]
  have "fst (Delete l k) = (map_of xs k \<noteq> None) \<and>
      repr (fst (snd (Delete l k))) (fst (mru_delete xs k)) \<and>
      snd (snd (Delete l k)) = snd (mru_delete xs k)"
  proof (cases "map_of (mp l) k")
    case None
    with look have n: "map_of xs k = None" by simp
    then have "AList.delete k xs = xs" by (simp add: map_of_eq_None_iff)
    with None n assms show ?thesis
      by (simp add: Delete_def mru_delete_def)
  next
    case (Some e)
    obtain ys zs where as: "as = ys @ e # zs" and k: "ekey (heap l e) = k"
      by (rule rep_split [OF r Some])
    have "repr (removeLocked e l\<lparr>mp := AList.delete k (mp l)\<rparr>) (AList.delete k xs)"
      using rep_remove [of l ys e zs] r delete_entry_split [of l ys e zs] rep_distinct_keys [OF r] len k
      unfolding repr_def as xs by (intro exI [of _ "ys @ zs"]) simp
    with look [symmetric] Some show ?thesis by (auto simp: Delete_def mru_delete_def Let_def)
  qed
  then show "fst (Delete l k) = (map_of xs k \<noteq> None)"
    and "repr (fst (snd (Delete l k))) (fst (mru_delete xs k))"
    and "snd (snd (Delete l k)) = snd (mru_delete xs k)" by simp_all
qed

lemma repr_new: "repr (newLRU d c) []"
  by (simp add: repr_def rep_def newLRU_def links_def)

lemma repr_Len: "repr l xs \<Longrightarrow> Len l = int (length xs) \<and> Len l \<le> cap l \<and> 1 \<le> cap l"
  using rep_length [of l] by (auto simp: repr_def Len_def) (simp add: rep_def)

lemma repr_distinct: "repr l xs \<Longrightarrow> distinct (map fst xs)"
  by (auto simp: repr_def rep_def entry_of_def comp_def)

subsection \<open>The interface used by the store\<close>

locale kv_cache =
  fixes inv :: "'c \<Rightarrow> bool"
    and contents :: "'c \<Rightarrow> string \<Rightarrow> 'v option"
    and get :: "'c \<Rightarrow> string \<Rightarrow> 'v option \<times> 'c"
    and add :: "'c \<Rightarrow> string \<Rightarrow> 'v \<Rightarrow> 'c \<times> (string \<times> 'v) option"
    and del :: "'c \<Rightarrow> string \<Rightarrow> bool \<times> 'c \<times> (string \<times> 'v) option"
  assumes get_value: "inv c \<Longrightarrow> fst (get c k) = contents c k"
    and get_contents: "inv c \<Longrightarrow> contents (snd (get c k)) = contents c"
    and get_inv: "inv c \<Longrightarrow> inv (snd (get c k))"
    and add_contents: "inv c \<Longrightarrow> contents (fst (add c k v)) =
          (case snd (add c k v) of None \<Rightarrow> (contents c)(k \<mapsto> v)
           | Some (k', w) \<Rightarrow> (contents c)(k \<mapsto> v, k' := None))"
    and add_victim: "inv c \<Longrightarrow> snd (add c k v) = Some (k', w) \<Longrightarrow>
          k' \<noteq> k \<and> contents c k = None \<and> contents c k' = Some w"
    and add_inv: "inv c \<Longrightarrow> inv (fst (add c k v))"
    and del_contents: "inv c \<Longrightarrow> contents (fst (snd (del c k))) = (contents c)(k := None)"
    and del_victim: "inv c \<Longrightarrow> snd (snd (del c k)) = map_option (Pair k) (contents c k)"
    and del_inv: "inv c \<Longrightarrow> inv (fst (snd (del c k)))"
begin

definition coherent :: "(string \<Rightarrow> 'v option) \<Rightarrow> 'c \<Rightarrow> bool" where
  \<comment> \<open>whatever is cached is what the backing store holds\<close>
  "coherent D c \<longleftrightarrow> inv c \<and> (\<forall>k v. contents c k = Some v \<longrightarrow> D k = Some v)"

lemma coherent_inv: "coherent D c \<Longrightarrow> inv c"
  by (simp add: coherent_def)

lemma add_hit: "inv c \<Longrightarrow> contents (fst (add c k v)) k = Some v"
  using add_victim [of c k v] by (cases "snd (add c k v)") (auto simp: add_contents)

lemma add_other: "inv c \<Longrightarrow> k' \<noteq> k \<Longrightarrow> contents (fst (add c k v)) k' = Some w \<Longrightarrow> contents c k' = Some w"
  by (auto simp: add_contents split: option.splits if_splits)

lemma coherent_get:
  "coherent D c \<Longrightarrow> coherent D (snd (get c k)) \<and> (\<forall>v. fst (get c k) = Some v \<longrightarrow> D k = Some v)"
  by (auto simp: coherent_def get_value get_contents get_inv)

lemma coherent_add: "coherent D c \<Longrightarrow> coherent (D(k \<mapsto> v)) (fst (add c k v))"
  using add_inv [of c k v] add_hit [of c k v] add_other [of c _ k v]
  unfolding coherent_def by (metis fun_upd_apply)

lemma coherent_fill: "coherent D c \<Longrightarrow> D k = Some v \<Longrightarrow> coherent D (fst (add c k v))"
  using coherent_add [of D c k v] by (simp add: fun_upd_idem)

lemma coherent_del: "coherent D c \<Longrightarrow> coherent (D(k := x)) (fst (snd (del c k)))"
  by (auto simp: coherent_def del_contents del_inv)

lemma coherent_del_same: "coherent D c \<Longrightarrow> coherent D (fst (snd (del c k)))"
  using coherent_del [of D c k "D k"] by simp

end

definition lru_inv :: "'v lru \<Rightarrow> bool" where
  "lru_inv l \<longleftrightarrow> (\<exists>xs. repr l xs)"

definition lru_contents :: "'v lru \<Rightarrow> string \<Rightarrow> 'v option" where
  "lru_contents l k = map_option (\<lambda>a. eval (heap l a)) (map_of (mp l) k)"

lemma lru_contents_repr: "repr l xs \<Longrightarrow> lru_contents l = map_of xs"
  by (rule ext) (simp add: lru_contents_def repr_map_of)

lemma mru_get_map_of: "map_of (snd (mru_get xs k)) = map_of xs"
  by (auto simp: delete_conv' fun_eq_iff split: option.split)

lemma mru_add_map_of:
  assumes "distinct (map fst xs)" "c \<ge> 1"
  shows "map_of (fst (mru_add c xs k v)) =
    (case snd (mru_add c xs k v) of None \<Rightarrow> (map_of xs)(k \<mapsto> v)
     | Some (k', w) \<Rightarrow> (map_of xs)(k \<mapsto> v, k' := None))"
    and "snd (mru_add c xs k v) = Some (k', w) \<Longrightarrow>
      k' \<noteq> k \<and> map_of xs k = None \<and> map_of xs k' = Some w"
proof -
  have "map_of (fst (mru_add c xs k v)) =
      (case snd (mru_add c xs k v) of None \<Rightarrow> (map_of xs)(k \<mapsto> v)
       | Some (k', w) \<Rightarrow> (map_of xs)(k \<mapsto> v, k' := None)) \<and>
    (snd (mru_add c xs k v) = Some (k', w) \<longrightarrow>
      k' \<noteq> k \<and> map_of xs k = None \<and> map_of xs k' = Some w)"
  proof (cases "map_of xs k = None \<and> int (Suc (length xs)) > c")
    case True
    then have del: "AList.delete k xs = xs" by (simp add: map_of_eq_None_iff)
    from True assms(2) have "xs \<noteq> []" by auto
    then obtain ys p where xs: "xs = ys @ [p]" by (metis rev_exhaust)
    obtain a b where p: "p = (a, b)" by (cases p)
    have "a \<notin> fst ` set ys" using assms(1) by (simp add: xs p)
    then have ya: "map_of ys a = None" by (simp add: map_of_eq_None_iff)
    have "a \<noteq> k" using True by (auto simp: xs p map_of_eq_None_iff)
    with ya True del show ?thesis
      by (auto simp: mru_add_def Let_def xs p map_add_def fun_eq_iff split: option.split)
  next
    case False
    then have "mru_add c xs k v = ((k, v) # AList.delete k xs, None)"
      by (auto simp: mru_add_def Let_def map_of_eq_None_iff)
    then show ?thesis by (simp add: delete_conv' fun_eq_iff)
  qed
  then show "map_of (fst (mru_add c xs k v)) =
    (case snd (mru_add c xs k v) of None \<Rightarrow> (map_of xs)(k \<mapsto> v)
     | Some (k', w) \<Rightarrow> (map_of xs)(k \<mapsto> v, k' := None))"
    and "snd (mru_add c xs k v) = Some (k', w) \<Longrightarrow>
      k' \<noteq> k \<and> map_of xs k = None \<and> map_of xs k' = Some w" by simp_all
qed

interpretation lruc: kv_cache lru_inv lru_contents Get Add Delete
proof
  fix c :: "'v lru" and k k' :: string and v w :: 'v
  assume "lru_inv c"
  then obtain xs where r: "repr c xs" by (auto simp: lru_inv_def)
  note G = repr_Get [OF r, of k] and A = repr_Add [OF r, of k v] and D = repr_Delete [OF r, of k]
  have d: "distinct (map fst xs)" and c1: "1 \<le> cap c"
    using repr_distinct [OF r] repr_Len [OF r] by auto
  show "fst (Get c k) = lru_contents c k"
    using G(1) by (auto simp: lru_contents_repr [OF r] split: option.split)
  show "lru_contents (snd (Get c k)) = lru_contents c"
    by (simp only: lru_contents_repr [OF r] lru_contents_repr [OF G(2)] mru_get_map_of)
  show "lru_inv (snd (Get c k))" "lru_inv (fst (Add c k v))" "lru_inv (fst (snd (Delete c k)))"
    unfolding lru_inv_def using G(2) A(1) D(2) by blast+
  show "lru_contents (fst (Add c k v)) =
      (case snd (Add c k v) of None \<Rightarrow> (lru_contents c)(k \<mapsto> v)
       | Some (k', w) \<Rightarrow> (lru_contents c)(k \<mapsto> v, k' := None))"
    unfolding lru_contents_repr [OF r] lru_contents_repr [OF A(1)] A(2)
    by (rule mru_add_map_of [OF d c1])
  show "k' \<noteq> k \<and> lru_contents c k = None \<and> lru_contents c k' = Some w"
    if "snd (Add c k v) = Some (k', w)"
    unfolding lru_contents_repr [OF r] by (rule mru_add_map_of(2) [OF d c1]) (use that A(2) in simp)
  show "lru_contents (fst (snd (Delete c k))) = (lru_contents c)(k := None)"
    unfolding lru_contents_repr [OF r] lru_contents_repr [OF D(2)]
    by (simp add: mru_delete_def delete_conv')
  show "snd (snd (Delete c k)) = map_option (Pair k) (lru_contents c k)"
    unfolding lru_contents_repr [OF r] D(3) by (simp add: mru_delete_def)
qed

subsection \<open>Runs of operations\<close>

datatype 'v lru_op = LGet string | LAdd string 'v | LGetOrAdd string 'v | LDelete string

text \<open>What a caller sees of one operation: the value returned, the flag returned, and the pair the
  eviction callback is called with.\<close>

type_synonym 'v lru_obs = "'v option \<times> bool \<times> (string \<times> 'v) option"

fun lru_step :: "'v lru \<Rightarrow> 'v lru_op \<Rightarrow> 'v lru_obs \<times> 'v lru" where
  "lru_step l (LGet k) = (case Get l k of (r, l') \<Rightarrow> ((r, r \<noteq> None, None), l'))"
| "lru_step l (LAdd k v) = (case Add l k v of (l', ev) \<Rightarrow> ((None, False, ev), l'))"
| "lru_step l (LGetOrAdd k v) = (case GetOrAdd l k v of ((r, b), l', ev) \<Rightarrow> ((Some r, b, ev), l'))"
| "lru_step l (LDelete k) = (case Delete l k of (b, l', ev) \<Rightarrow> ((None, b, ev), l'))"

fun mru_step :: "int \<Rightarrow> (string \<times> 'v) list \<Rightarrow> 'v lru_op \<Rightarrow> 'v lru_obs \<times> (string \<times> 'v) list" where
  "mru_step c xs (LGet k) = (case mru_get xs k of (r, ys) \<Rightarrow> ((r, r \<noteq> None, None), ys))"
| "mru_step c xs (LAdd k v) = (case mru_add c xs k v of (ys, ev) \<Rightarrow> ((None, False, ev), ys))"
| "mru_step c xs (LGetOrAdd k v) =
     (case map_of xs k of
        Some w \<Rightarrow> ((Some w, True, None), snd (mru_get xs k))
      | None \<Rightarrow> (case mru_add c xs k v of (ys, ev) \<Rightarrow> ((Some v, False, ev), ys)))"
| "mru_step c xs (LDelete k) =
     (case mru_delete xs k of (ys, ev) \<Rightarrow> ((None, map_of xs k \<noteq> None, ev), ys))"

fun run_ops :: "('s \<Rightarrow> 'o \<Rightarrow> 'b \<times> 's) \<Rightarrow> 's \<Rightarrow> 'o list \<Rightarrow> 'b list \<times> 's" where
  "run_ops f s [] = ([], s)"
| "run_ops f s (x # xs) =
     (case f s x of (b, s') \<Rightarrow> case run_ops f s' xs of (bs, t) \<Rightarrow> (b # bs, t))"

lemma cap_ops [simp]:
  "cap (snd (Get l k)) = cap l" "cap (fst (Add l k v)) = cap l"
  "cap (fst (snd (Delete l k))) = cap l" "cap (fst (snd (GetOrAdd l k v))) = cap l"
  "cap (fst (insertNew l k v)) = cap l"
  by (auto simp: Get_def Add_def Delete_def GetOrAdd_def insertNew_def evictOverflow_def Let_def
      split: option.split)

lemma lru_step_refines:
  assumes "repr l xs"
  shows "fst (lru_step l op) = fst (mru_step (cap l) xs op) \<and>
    repr (snd (lru_step l op)) (snd (mru_step (cap l) xs op)) \<and> cap (snd (lru_step l op)) = cap l"
proof (cases op)
  case (LGet k)
  then show ?thesis using repr_Get [OF assms, of k] by (simp add: case_prod_unfold del: mru_get.simps)
next
  case (LAdd k v)
  then show ?thesis using repr_Add [OF assms, of k v] by (simp add: case_prod_unfold)
next
  case (LGetOrAdd k v)
  then show ?thesis using repr_Get [OF assms, of k] repr_Add [OF assms, of k v]
    by (auto simp: repr_GetOrAdd [OF assms] case_prod_unfold simp del: mru_get.simps split: option.split)
next
  case (LDelete k)
  then show ?thesis using repr_Delete [OF assms, of k] by (simp add: case_prod_unfold mru_delete_def)
qed

lemma run_refines:
  "repr l xs \<Longrightarrow> fst (run_ops lru_step l ops) = fst (run_ops (mru_step (cap l)) xs ops) \<and>
    repr (snd (run_ops lru_step l ops)) (snd (run_ops (mru_step (cap l)) xs ops)) \<and>
    cap (snd (run_ops lru_step l ops)) = cap l"
proof (induction ops arbitrary: l xs)
  case (Cons op ops)
  from lru_step_refines [OF Cons.prems, of op]
    Cons.IH [of "snd (lru_step l op)" "snd (mru_step (cap l) xs op)"]
  show ?case by (simp add: case_prod_unfold)
qed simp

text \<open>C20: the linked structure of \<open>lru.go\<close> behaves as a most-recently-used list: for every capacity and
  every sequence of \<open>Get\<close>, \<open>Add\<close>, \<open>GetOrAdd\<close> and \<open>Delete\<close> on a fresh cache, the values and flags
  returned and the pairs handed to the eviction callback are those of the list, \<open>Len\<close> is the length
  of the list, and it never exceeds the capacity (a capacity below one counts as one).\<close>

theorem lru_refines_mru:
  "fst (run_ops lru_step (newLRU d c) ops) = fst (run_ops (mru_step (max 1 c)) [] ops) \<and>
   Len (snd (run_ops lru_step (newLRU d c) ops)) =
     int (length (snd (run_ops (mru_step (max 1 c)) [] ops))) \<and>
   Len (snd (run_ops lru_step (newLRU d c) ops)) \<le> max 1 c"
proof -
  have c: "cap (newLRU d c) = max 1 c" by (simp add: newLRU_def)
  from run_refines [OF repr_new [of d c], of ops] c
  have r: "fst (run_ops lru_step (newLRU d c) ops) = fst (run_ops (mru_step (max 1 c)) [] ops)"
    "repr (snd (run_ops lru_step (newLRU d c) ops)) (snd (run_ops (mru_step (max 1 c)) [] ops))"
    "cap (snd (run_ops lru_step (newLRU d c) ops)) = max 1 c"
    by simp_all
  from r(1,3) repr_Len [OF r(2)] show ?thesis by simp
qed

end
