(* ===== verification/Sha256.thy ===== *)
theory Sha256
  imports Go_Prelude "HOL-Library.Word"
begin

text \<open>
  The part of Go's \<open>crypto/sha256\<close> and \<open>encoding/hex\<close> that the cache uses: \<open>sha256.Sum256\<close> as
  FIPS 180-4 gives it, on 32-bit words with wrapping addition, and \<open>hex.Encode\<close>. Both are
  executable; the lemmas give the sizes and the alphabet that the cache keys inherit.
\<close>

unbundle bit_operations_syntax

definition sha_k :: "32 word list" where
  \<comment> \<open>the round constants: the first 32 bits of the fractional parts of the cube roots of the first 64 primes\<close>
  "sha_k =
    [1116352408, 1899447441, 3049323471, 3921009573, 961987163, 1508970993, 2453635748, 2870763221,
     3624381080, 310598401, 607225278, 1426881987, 1925078388, 2162078206, 2614888103, 3248222580,
     3835390401, 4022224774, 264347078, 604807628, 770255983, 1249150122, 1555081692, 1996064986,
     2554220882, 2821834349, 2952996808, 3210313671, 3336571891, 3584528711, 113926993, 338241895,
     666307205, 773529912, 1294757372, 1396182291, 1695183700, 1986661051, 2177026350, 2456956037,
     2730485921, 2820302411, 3259730800, 3345764771, 3516065817, 3600352804, 4094571909, 275423344,
     430227734, 506948616, 659060556, 883997877, 958139571, 1322822218, 1537002063, 1747873779,
     1955562222, 2024104815, 2227730452, 2361852424, 2428436474, 2756734187, 3204031479, 3329325298]"

record sha_state =
  sa :: "32 word" sb :: "32 word" sc :: "32 word" sd :: "32 word"
  se :: "32 word" sf :: "32 word" sg :: "32 word" sh :: "32 word"

definition sha_init :: sha_state where
  "sha_init = \<lparr>sa = 0x6a09e667, sb = 0xbb67ae85, sc = 0x3c6ef372, sd = 0xa54ff53a,
               se = 0x510e527f, sf = 0x9b05688c, sg = 0x1f83d9ab, sh = 0x5be0cd19\<rparr>"

definition small_sigma0 :: "32 word \<Rightarrow> 32 word" where
  "small_sigma0 x = word_rotr 7 x XOR word_rotr 18 x XOR drop_bit 3 x"

definition small_sigma1 :: "32 word \<Rightarrow> 32 word" where
  "small_sigma1 x = word_rotr 17 x XOR word_rotr 19 x XOR drop_bit 10 x"

definition big_sigma0 :: "32 word \<Rightarrow> 32 word" where
  "big_sigma0 x = word_rotr 2 x XOR word_rotr 13 x XOR word_rotr 22 x"

definition big_sigma1 :: "32 word \<Rightarrow> 32 word" where
  "big_sigma1 x = word_rotr 6 x XOR word_rotr 11 x XOR word_rotr 25 x"

definition sha_schedule :: "32 word list \<Rightarrow> 32 word list" where
  "sha_schedule blk =
     foldl (\<lambda>w t. w @ [small_sigma1 (w ! (t - 2)) + w ! (t - 7) + small_sigma0 (w ! (t - 15)) + w ! (t - 16)])
       blk [16..<64]"

definition sha_round :: "sha_state \<Rightarrow> 32 word \<times> 32 word \<Rightarrow> sha_state" where
  "sha_round s kw =
     (let t1 = sh s + big_sigma1 (se s) + ((se s AND sf s) XOR (NOT (se s) AND sg s)) + fst kw + snd kw;
          t2 = big_sigma0 (sa s) + ((sa s AND sb s) XOR (sa s AND sc s) XOR (sb s AND sc s))
      in \<lparr>sa = t1 + t2, sb = sa s, sc = sb s, sd = sc s, se = sd s + t1, sf = se s, sg = sf s, sh = sg s\<rparr>)"

definition sha_block :: "sha_state \<Rightarrow> 32 word list \<Rightarrow> sha_state" where
  "sha_block s blk =
     (let r = foldl sha_round s (zip sha_k (sha_schedule blk))
      in \<lparr>sa = sa s + sa r, sb = sb s + sb r, sc = sc s + sc r, sd = sd s + sd r,
          se = se s + se r, sf = sf s + sf r, sg = sg s + sg r, sh = sh s + sh r\<rparr>)"

fun be_words :: "int list \<Rightarrow> 32 word list" where
  \<comment> \<open>big-endian 32-bit words of a byte list\<close>
  "be_words (a # b # c # d # bs) =
     word_of_int (a * 16777216 + b * 65536 + c * 256 + d) # be_words bs"
| "be_words _ = []"

definition be_bytes :: "nat \<Rightarrow> int \<Rightarrow> int list" where
  \<comment> \<open>the \<open>n\<close> low bytes of a number, most significant first\<close>
  "be_bytes n x = map (\<lambda>i. x div 256 ^ i mod 256) (rev [0..<n])"

definition sha_pad :: "int list \<Rightarrow> int list" where
  "sha_pad bs = bs @ [128] @ replicate ((119 - length bs mod 64) mod 64) 0 @ be_bytes 8 (8 * int (length bs))"

fun sha_blocks :: "sha_state \<Rightarrow> 32 word list \<Rightarrow> sha_state" where
  "sha_blocks s ws = (if ws = [] then s else sha_blocks (sha_block s (take 16 ws)) (drop 16 ws))"

declare sha_blocks.simps [simp del]

definition Sum256 :: "string \<Rightarrow> string" where
  "Sum256 bs =
     (let r = sha_blocks sha_init (be_words (sha_pad (map of_char bs)))
      in map char_of (concat (map (\<lambda>w. be_bytes 4 (uint w)) [sa r, sb r, sc r, sd r, se r, sf r, sg r, sh r])))"

definition hex_digit :: "nat \<Rightarrow> char" where
  "hex_digit n = ''0123456789abcdef'' ! (n mod 16)"

definition hex_encode :: "string \<Rightarrow> string" where
  "hex_encode bs = concat (map (\<lambda>c. [hex_digit (byte c div 16), hex_digit (byte c)]) bs)"

definition is_hex :: "char \<Rightarrow> bool" where
  "is_hex c \<longleftrightarrow> c \<in> set ''0123456789abcdef''"

subsection \<open>Sizes and alphabet\<close>

lemma length_be_bytes [simp]: "length (be_bytes n x) = n"
  by (simp add: be_bytes_def)

lemma length_Sum256 [simp]: "length (Sum256 bs) = 32"
  by (simp add: Sum256_def Let_def)

lemma length_hex_encode [simp]: "length (hex_encode bs) = 2 * length bs"
  by (induction bs) (auto simp: hex_encode_def)

lemma is_hex_digit: "is_hex (hex_digit n)"
proof -
  have "n mod 16 < length ''0123456789abcdef''" by simp
  then show ?thesis unfolding is_hex_def hex_digit_def by (rule nth_mem)
qed

lemma hex_encode_is_hex: "c \<in> set (hex_encode bs) \<Longrightarrow> is_hex c"
  by (auto simp: hex_encode_def is_hex_digit)

lemma is_hex_not_bar: "is_hex c \<Longrightarrow> c \<noteq> CHR ''|''"
  by (auto simp: is_hex_def)

lemma is_hex_digit_inj: "m < 16 \<Longrightarrow> n < 16 \<Longrightarrow> hex_digit m = hex_digit n \<Longrightarrow> m = n"
proof -
  assume mn: "m < 16" "n < 16" and eq: "hex_digit m = hex_digit n"
  have "distinct ''0123456789abcdef''" by simp
  from nth_eq_iff_index_eq [OF this, of m n] mn eq show ?thesis
    by (simp only: hex_digit_def mod_less) simp
qed

lemma hex_encode_inj: "hex_encode xs = hex_encode ys \<Longrightarrow> xs = ys"
proof (induction xs arbitrary: ys)
  case Nil
  then show ?case by (cases ys) (auto simp: hex_encode_def)
next
  case (Cons x xs)
  then obtain y ys' where ys: "ys = y # ys'" by (cases ys) (auto simp: hex_encode_def)
  from Cons.prems have hd: "hex_digit (byte x div 16) = hex_digit (byte y div 16)"
    "hex_digit (byte x) = hex_digit (byte y)" and tl: "hex_encode xs = hex_encode ys'"
    by (auto simp: ys hex_encode_def)
  have b: "byte x < 256" "byte y < 256"
    by (rule nat_of_char_less_256)+
  have "byte x div 16 = byte y div 16"
    using hd(1) b by (intro is_hex_digit_inj) (simp_all add: div_less_iff_less_mult del: nat_of_char_less_256)
  moreover have "byte x mod 16 = byte y mod 16"
    using hd(2) by (intro is_hex_digit_inj) (auto simp: hex_digit_def)
  ultimately have "byte x = byte y" by (metis div_mult_mod_eq)
  then have "x = y" using of_char_eq_iff by blast
  with Cons.IH [OF tl] show ?case by (simp add: ys)
qed

end
