(* ===== verification/Cache_Key.thy ===== *)
theory Cache_Key
  imports Sha256 "HOL-Library.AList"
begin

text \<open>
  Cache keys: \<open>IsContentAddressedHost\<close>, \<open>KeyHex\<close>, \<open>appendAuthBucket\<close> and \<open>HashAuth\<close> of
  \<open>internal/cache/key.go\<close>, and the memo table \<open>KeyHexCache\<close> of \<open>internal/cache/keyhex_cache.go\<close>.
  The buffer pool of \<open>KeyHex\<close> only recycles memory and is not part of the model. The eviction of a
  random entry of the memo table takes the position of the victim as an argument.
\<close>

subsection \<open>Keys\<close>

definition contentAddressedHosts :: "string list" where
  "contentAddressedHosts =
     [''cas-bridge.xethub.hf.co'', ''cas-server.xethub.hf.co'', ''cdn-lfs.huggingface.co'',
      ''cdn-lfs-us-1.hf.co'', ''cdn-lfs-us-2.hf.co'', ''cdn-lfs-eu-1.hf.co'', ''lfs.huggingface.co'',
      ''us.aws.cdn.hf.co'', ''eu.aws.cdn.hf.co'', ''ap.aws.cdn.hf.co'']"

definition IsContentAddressedHost :: "string \<Rightarrow> bool" where
  "IsContentAddressedHost host \<longleftrightarrow> to_lower (trim_space host) \<in> set contentAddressedHosts"

definition appendAuthBucket :: "string \<Rightarrow> string \<Rightarrow> string" where
  "appendAuthBucket buf auth =
     (let a = trim_space auth
      in if a = [] then buf @ ''anon'' else buf @ hex_encode (take 8 (Sum256 a)))"

definition key_material :: "string \<Rightarrow> string \<Rightarrow> string \<Rightarrow> string \<Rightarrow> string \<Rightarrow> string" where
  \<comment> \<open>the buffer that \<open>KeyHex\<close> hashes\<close>
  "key_material meth upstreamHost path rawQuery authHeader =
     (let m = to_upper (trim_space meth);
          h = to_lower (trim_space upstreamHost);
          p0 = trim_space path;
          p = (if p0 = [] then ''/'' else p0)
      in appendAuthBucket (m @ ''|'' @ h @ ''|'' @ p @ ''|'' @ rawQuery @ ''|'') authHeader)"

definition KeyHex :: "string \<Rightarrow> string \<Rightarrow> string \<Rightarrow> string \<Rightarrow> string \<Rightarrow> string" where
  "KeyHex meth upstreamHost path rawQuery authHeader =
     hex_encode (Sum256 (key_material meth upstreamHost path rawQuery authHeader))"

definition HashAuth :: "string \<Rightarrow> string" where
  "HashAuth token = hex_encode (take 8 (Sum256 (trim_space token)))"

subsection \<open>The memo table\<close>

type_synonym khc = "(string \<times> string) list"

definition keyHexStackBufSize :: nat where
  "keyHexStackBufSize = 768"

definition lookup_key :: "string \<Rightarrow> string \<Rightarrow> string \<Rightarrow> string \<Rightarrow> string \<Rightarrow> string" where
  \<comment> \<open>the composite string built in the stack buffer\<close>
  "lookup_key meth host path rawQuery auth =
     meth @ ''|'' @ host @ ''|'' @ path @ ''|'' @ rawQuery @ ''|'' @ auth"

definition khc_publish :: "int \<Rightarrow> nat \<Rightarrow> string \<Rightarrow> string \<Rightarrow> khc \<Rightarrow> khc" where
  \<comment> \<open>the critical section of a miss; the second argument is the position of the entry that the
      first step of the map iteration happens to yield\<close>
  "khc_publish maxEntries pick keyCopy hex m =
     (let m1 = (if maxEntries > 0 \<and> int (length m) \<ge> maxEntries
                then (if m = [] then m else AList.delete (fst (m ! (pick mod length m))) m) else m)
      in AList.update keyCopy hex m1)"

definition khc_Get ::
  "int \<Rightarrow> nat \<Rightarrow> khc \<Rightarrow> string \<Rightarrow> string \<Rightarrow> string \<Rightarrow> string \<Rightarrow> string \<Rightarrow> string \<times> khc" where
  "khc_Get maxEntries pick m meth host path rawQuery auth =
     (if length meth + 1 + length host + 1 + length path + 1 + length rawQuery + 1 + length auth
         > keyHexStackBufSize
      then (KeyHex meth host path rawQuery auth, m)
      else let lookup = lookup_key meth host path rawQuery auth
           in case map_of m lookup of
                Some v \<Rightarrow> (v, m)
              | None \<Rightarrow> let hex = KeyHex meth host path rawQuery auth
                        in (hex, khc_publish maxEntries pick lookup hex m))"

subsection \<open>Shape and separation of keys\<close>

lemma set_appendAuthBucket:
  "\<exists>b. appendAuthBucket buf auth = buf @ b \<and> CHR ''|'' \<notin> set b"
  by (auto simp: appendAuthBucket_def Let_def dest!: hex_encode_is_hex is_hex_not_bar)

definition auth_bucket :: "string \<Rightarrow> string" where
  "auth_bucket auth = appendAuthBucket [] auth"

lemma appendAuthBucket_bucket: "appendAuthBucket buf auth = buf @ auth_bucket auth"
  by (simp add: auth_bucket_def appendAuthBucket_def Let_def)

lemma auth_bucket_bar [simp]: "CHR ''|'' \<notin> set (auth_bucket auth)"
  using set_appendAuthBucket [of "[]" auth] by (auto simp: auth_bucket_def)

lemma auth_bucket_HashAuth: "trim_space a \<noteq> [] \<Longrightarrow> auth_bucket a = HashAuth a"
  by (simp add: auth_bucket_def appendAuthBucket_def HashAuth_def Let_def)

lemma auth_bucket_length: "length (auth_bucket a) = (if trim_space a = [] then 4 else 16)"
  by (simp add: auth_bucket_def appendAuthBucket_def Let_def)

lemma bar_split:
  assumes "CHR ''|'' \<notin> set a" "CHR ''|'' \<notin> set b" "a @ CHR ''|'' # x = b @ CHR ''|'' # y"
  shows "a = b \<and> x = y"
  using assms by (rule sep_split)

lemma bar_split_last:
  assumes "CHR ''|'' \<notin> set a" "CHR ''|'' \<notin> set b" "x @ CHR ''|'' # a = y @ CHR ''|'' # b"
  shows "x = y \<and> a = b"
proof -
  have "rev a @ CHR ''|'' # rev x = rev b @ CHR ''|'' # rev y"
    using arg_cong [OF assms(3), of rev] by simp
  then have "rev a = rev b \<and> rev x = rev y" using assms(1,2) by (intro bar_split) simp_all
  then show ?thesis by simp
qed

lemma bar_normal [simp]:
  "CHR ''|'' \<in> set (to_upper s) \<longleftrightarrow> CHR ''|'' \<in> set s"
  "CHR ''|'' \<in> set (to_lower s) \<longleftrightarrow> CHR ''|'' \<in> set s"
  by (auto simp: in_set_to_upper in_set_to_lower)

lemma bar_trim: "CHR ''|'' \<notin> set s \<Longrightarrow> CHR ''|'' \<notin> set (trim_space s)"
  using set_trim_space [of s] by blast

definition norm_path :: "string \<Rightarrow> string" where
  "norm_path p = (if trim_space p = [] then ''/'' else trim_space p)"

lemma key_material_eq:
  "key_material m h p q a = to_upper (trim_space m) @ CHR ''|'' # to_lower (trim_space h) @
     CHR ''|'' # norm_path p @ CHR ''|'' # q @ CHR ''|'' # auth_bucket a"
  by (simp add: key_material_def Let_def appendAuthBucket_bucket norm_path_def)

definition bar_free :: "string \<Rightarrow> bool" where
  "bar_free s \<longleftrightarrow> CHR ''|'' \<notin> set s"

lemma bar_free_norm_path: "bar_free p \<Longrightarrow> CHR ''|'' \<notin> set (norm_path p)"
  by (auto simp: bar_free_def norm_path_def dest: bar_trim)

lemma bar_fields:
  assumes "CHR ''|'' \<notin> set m" "CHR ''|'' \<notin> set m'" "CHR ''|'' \<notin> set h" "CHR ''|'' \<notin> set h'"
    "CHR ''|'' \<notin> set p" "CHR ''|'' \<notin> set p'" "CHR ''|'' \<notin> set a" "CHR ''|'' \<notin> set a'"
    and eq: "m @ CHR ''|'' # h @ CHR ''|'' # p @ CHR ''|'' # q @ CHR ''|'' # a =
             m' @ CHR ''|'' # h' @ CHR ''|'' # p' @ CHR ''|'' # q' @ CHR ''|'' # a'"
  shows "m = m' \<and> h = h' \<and> p = p' \<and> q = q' \<and> a = a'"
proof -
  from bar_split [OF assms(1,2) eq]
  have 1: "m = m'" "h @ CHR ''|'' # p @ CHR ''|'' # q @ CHR ''|'' # a =
             h' @ CHR ''|'' # p' @ CHR ''|'' # q' @ CHR ''|'' # a'" by auto
  from bar_split [OF assms(3,4) 1(2)]
  have 2: "h = h'" "p @ CHR ''|'' # q @ CHR ''|'' # a = p' @ CHR ''|'' # q' @ CHR ''|'' # a'" by auto
  from bar_split [OF assms(5,6) 2(2)]
  have 3: "p = p'" "q @ CHR ''|'' # a = q' @ CHR ''|'' # a'" by auto
  from 1(1) 2(1) 3(1) bar_split_last [OF assms(7,8) 3(2)] show ?thesis by simp
qed

subsection \<open>The memo table agrees with \<open>KeyHex\<close>\<close>

type_synonym key_args = "string \<times> string \<times> string \<times> string \<times> string"

fun args_ok :: "key_args \<Rightarrow> bool" where
  "args_ok (m, h, p, q, a) \<longleftrightarrow> bar_free m \<and> bar_free h \<and> bar_free p \<and> bar_free a"

fun args_key :: "key_args \<Rightarrow> string" where
  "args_key (m, h, p, q, a) = lookup_key m h p q a"

fun args_hex :: "key_args \<Rightarrow> string" where
  "args_hex (m, h, p, q, a) = KeyHex m h p q a"

lemma args_key_inj:
  assumes "args_ok x" "args_ok y" "args_key x = args_key y"
  shows "x = y"
proof -
  obtain m h p q a where x: "x = (m, h, p, q, a)" by (cases x)
  obtain m' h' p' q' a' where y: "y = (m', h', p', q', a')" by (cases y)
  have "m = m' \<and> h = h' \<and> p = p' \<and> q = q' \<and> a = a'"
    by (rule bar_fields) (use assms in \<open>auto simp: x y bar_free_def lookup_key_def\<close>)
  then show ?thesis by (simp add: x y)
qed

text \<open>The states of a table shared by any number of callers. A miss is published after the lookup
  and outside its critical section, so the publication of one caller may follow that of another.\<close>

inductive khc_reach :: "int \<Rightarrow> khc \<Rightarrow> bool" for maxEntries where
  khc_empty: "khc_reach maxEntries []"
| khc_miss: "khc_reach maxEntries m \<Longrightarrow> args_ok x \<Longrightarrow>
    khc_reach maxEntries (khc_publish maxEntries pick (args_key x) (args_hex x) m)"

definition khc_inv :: "int \<Rightarrow> khc \<Rightarrow> bool" where
  "khc_inv maxEntries m \<longleftrightarrow> distinct (map fst m) \<and>
     (\<forall>k v. map_of m k = Some v \<longrightarrow> (\<exists>x. args_ok x \<and> k = args_key x \<and> v = args_hex x)) \<and>
     (maxEntries > 0 \<longrightarrow> int (length m) \<le> maxEntries)"

lemma length_update_le: "length (AList.update k v m) \<le> Suc (length m)"
  by (induction m) auto

lemma length_delete_mem: "p \<in> set m \<Longrightarrow> length (AList.delete (fst p) m) < length m"
  unfolding AList.delete_eq by (rule length_filter_less [of p]) auto

lemma khc_inv_publish:
  assumes "khc_inv n m" "args_ok x"
  shows "khc_inv n (khc_publish n pick (args_key x) (args_hex x) m)"
proof -
  define m1 where "m1 = (if n > 0 \<and> int (length m) \<ge> n
      then (if m = [] then m else AList.delete (fst (m ! (pick mod length m))) m) else m)"
  have pub: "khc_publish n pick (args_key x) (args_hex x) m = AList.update (args_key x) (args_hex x) m1"
    by (simp add: khc_publish_def m1_def)
  have d: "distinct (map fst m1)"
    using assms(1) by (auto simp: m1_def khc_inv_def distinct_delete)
  have sub: "map_of m k = Some v" if "map_of m1 k = Some v" for k v
    using that by (auto simp: m1_def delete_conv' split: if_splits)
  have len: "n > 0 \<longrightarrow> int (length m1) < n"
  proof (cases "n > 0 \<and> int (length m) \<ge> n")
    case True
    then have "m \<noteq> []" by auto
    then have "m ! (pick mod length m) \<in> set m" by simp
    from length_delete_mem [OF this] True \<open>m \<noteq> []\<close> assms(1) show ?thesis
      by (simp add: m1_def khc_inv_def)
  qed (auto simp: m1_def)
  have "n > 0 \<longrightarrow> int (length (AList.update (args_key x) (args_hex x) m1)) \<le> n"
    using len length_update_le [of "args_key x" "args_hex x" m1] by linarith
  moreover have "\<exists>y. args_ok y \<and> k = args_key y \<and> v = args_hex y"
    if "map_of (AList.update (args_key x) (args_hex x) m1) k = Some v" for k v
  proof (cases "k = args_key x")
    case True
    with that assms(2) show ?thesis by (intro exI [of _ x]) (simp add: update_conv')
  next
    case False
    with that have "map_of m k = Some v" by (intro sub) (simp add: update_conv')
    with assms(1) show ?thesis unfolding khc_inv_def by blast
  qed
  ultimately show ?thesis
    unfolding khc_inv_def pub using d by (simp add: distinct_update)
qed

lemma khc_reach_inv: "khc_reach n m \<Longrightarrow> khc_inv n m"
  by (induction rule: khc_reach.induct) (simp_all add: khc_inv_publish khc_inv_def [of n "[]"])

subsection \<open>Properties\<close>

text \<open>C28: a cache key is 64 lower-case hexadecimal digits, and two requests hash the same text only if
  they agree after normalisation: for methods, hosts and paths without the separator, equal key
  material means equal upper-cased method, lower-cased host, trimmed path, query and auth bucket.
  The query itself may contain the separator.\<close>

theorem KeyHex_separates:
  "length (KeyHex m h p q a) = 64 \<and> (\<forall>c \<in> set (KeyHex m h p q a). is_hex c) \<and>
   (bar_free m \<and> bar_free h \<and> bar_free p \<and> bar_free m' \<and> bar_free h' \<and> bar_free p' \<longrightarrow>
    key_material m h p q a = key_material m' h' p' q' a' \<longrightarrow>
    to_upper (trim_space m) = to_upper (trim_space m') \<and>
    to_lower (trim_space h) = to_lower (trim_space h') \<and> norm_path p = norm_path p' \<and>
    q = q' \<and> auth_bucket a = auth_bucket a')"
proof (intro conjI impI)
  assume "bar_free m \<and> bar_free h \<and> bar_free p \<and> bar_free m' \<and> bar_free h' \<and> bar_free p'"
    and eq: "key_material m h p q a = key_material m' h' p' q' a'"
  then have "to_upper (trim_space m) = to_upper (trim_space m') \<and>
    to_lower (trim_space h) = to_lower (trim_space h') \<and> norm_path p = norm_path p' \<and>
    q = q' \<and> auth_bucket a = auth_bucket a'"
    by (intro bar_fields) (auto simp: key_material_eq bar_free_norm_path bar_free_def dest: bar_trim)
  then show "to_upper (trim_space m) = to_upper (trim_space m')"
    "to_lower (trim_space h) = to_lower (trim_space h')" "norm_path p = norm_path p'"
    "q = q'" "auth_bucket a = auth_bucket a'" by auto
qed (auto simp: KeyHex_def dest: hex_encode_is_hex)

theorem KeyHex_separates_witness:
  "key_material ''get'' ''HF.co'' ''/a'' ''x=1|2'' [] = ''GET|hf.co|/a|x=1|2|anon'' \<and>
   key_material ''get'' ''HF.co'' ''/a'' ''x=1|2'' [] \<noteq> key_material ''GET'' ''hf.co'' ''/b'' ''x=1|2'' []"
proof -
  have "norm_path ''/a'' \<noteq> norm_path ''/b''" by code_simp
  moreover have "bar_free ''get'' \<and> bar_free ''HF.co'' \<and> bar_free ''/a'' \<and>
      bar_free ''GET'' \<and> bar_free ''hf.co'' \<and> bar_free ''/b''" by (simp add: bar_free_def)
  moreover have "key_material ''get'' ''HF.co'' ''/a'' ''x=1|2'' [] = ''GET|hf.co|/a|x=1|2|anon''"
    by code_simp
  ultimately show ?thesis
    using KeyHex_separates [of "''get''" "''HF.co''" "''/a''" "''x=1|2''" "[]"
        "''GET''" "''hf.co''" "''/b''" "''x=1|2''" "[]"]
    by blast
qed

text \<open>The separator is not escaped: a path that contains it shares its key with another request.\<close>

lemma KeyHex_collision:
  "KeyHex ''GET'' ''hf.co'' ''/a|b'' ''c'' [] = KeyHex ''GET'' ''hf.co'' ''/a'' ''b|c'' []"
proof -
  have "key_material ''GET'' ''hf.co'' ''/a|b'' ''c'' [] = key_material ''GET'' ''hf.co'' ''/a'' ''b|c'' []"
    by code_simp
  then show ?thesis by (simp only: KeyHex_def)
qed

text \<open>The memo table never changes a key: in every state reached by publications of any callers,
  \<open>Get\<close> returns \<open>KeyHex\<close> of its arguments (methods, hosts, paths and auth values without the
  separator), and the table stays within its bound.\<close>

theorem khc_Get_correct:
  "khc_reach n m \<Longrightarrow> bar_free meth \<Longrightarrow> bar_free host \<Longrightarrow> bar_free path \<Longrightarrow> bar_free auth \<Longrightarrow>
   fst (khc_Get n pick m meth host path q auth) = KeyHex meth host path q auth \<and>
   (n > 0 \<longrightarrow> int (length (snd (khc_Get n pick m meth host path q auth))) \<le> n)"
proof -
  assume r: "khc_reach n m" and ok: "bar_free meth" "bar_free host" "bar_free path" "bar_free auth"
  let ?x = "(meth, host, path, q, auth)"
  have okx: "args_ok ?x" using ok by simp
  have inv: "khc_inv n m" by (rule khc_reach_inv [OF r])
  have hit: "v = KeyHex meth host path q auth" if "map_of m (lookup_key meth host path q auth) = Some v" for v
  proof -
    from inv that obtain y where "args_ok y" "lookup_key meth host path q auth = args_key y" "v = args_hex y"
      unfolding khc_inv_def by blast
    with args_key_inj [OF okx, of y] show ?thesis by auto
  qed
  have "khc_inv n (snd (khc_Get n pick m meth host path q auth))"
    using inv khc_inv_publish [OF inv okx]
    by (auto simp: khc_Get_def Let_def split: option.split)
  with hit show ?thesis
    by (auto simp: khc_Get_def Let_def khc_inv_def split: option.split)
qed

theorem khc_Get_correct_witness:
  "fst (khc_Get 1 0 [(lookup_key ''GET'' ''h'' ''/'' [] [], KeyHex ''GET'' ''h'' ''/'' [] [])]
      ''GET'' ''h'' ''/a'' [] []) = KeyHex ''GET'' ''h'' ''/a'' [] []"
proof -
  have "khc_reach 1 (khc_publish 1 0 (args_key (''GET'', ''h'', ''/'', [], []))
      (args_hex (''GET'', ''h'', ''/'', [], [])) [])"
    by (intro khc_reach.intros) (simp add: bar_free_def)
  then have "khc_reach 1 [(lookup_key ''GET'' ''h'' ''/'' [] [], KeyHex ''GET'' ''h'' ''/'' [] [])]"
    by (simp add: khc_publish_def)
  from khc_Get_correct [OF this, of "''GET''" "''h''" "''/a''" "[]" 0 "[]"]
  show ?thesis by (simp add: bar_free_def)
qed

text \<open>On other inputs the memo table is not byte-for-byte \<open>KeyHex\<close>: two argument lists with one
  composite key but different keys (the first path is trimmed only in the second reading).\<close>

lemma khc_lookup_ambiguous:
  "lookup_key ''GET'' ''h'' ''/a |b'' ''c'' [] = lookup_key ''GET'' ''h'' ''/a '' ''b|c'' [] \<and>
   key_material ''GET'' ''h'' ''/a |b'' ''c'' [] \<noteq> key_material ''GET'' ''h'' ''/a '' ''b|c'' []"
  by code_simp

end
