(* ===== verification/Sha256_Vectors.thy ===== *)
theory Sha256_Vectors
  imports Sha256
begin

text \<open>A test vector of the digest, evaluated inside the logic.\<close>

text \<open>The first test vector of FIPS 180-4.\<close>

lemma Sum256_abc:
  "hex_encode (Sum256 ''abc'') = ''ba7816bf8f01cfea414140de5dae2223b00361a396177a9cb410ff61f20015ad''"
  by code_simp

end
