(* ===== verification/Inflight.thy ===== *)
theory Inflight
  imports Spans "HOL-Library.Multiset"
begin

text \<open>
  Coordination of upstream fetches, \<open>internal/cache/inflight.go\<close>: \<open>acquire\<close>, \<open>acquireCtx\<close>,
  \<open>release\<close> and \<open>spansOverlap\<close>. Every pass of a waiter through its critical section is one call of
  \<open>acquire_check\<close>; the callers of one cache key are the threads of the step relation \<open>ifl_step\<close>,
  in which a purge of the key (\<open>PurgeOrTrim\<close> deletes the key's set from \<open>Store.inflight\<close>) replaces
  the current set. Condition variables may wake a waiter at any moment, so a wake-up step is always
  enabled.
\<close>

definition spansOverlap :: "span list \<Rightarrow> int \<Rightarrow> int \<Rightarrow> bool" where
  "spansOverlap sps start end = list_ex (\<lambda>sp. Start sp < end \<and> start < End sp) sps"

datatype acq = Acquired "span list" | GaveUp | Blocked

definition acquire_check :: "int \<Rightarrow> bool \<Rightarrow> bool \<Rightarrow> span list \<Rightarrow> int \<Rightarrow> int \<Rightarrow> acq" where
  \<comment> \<open>one iteration of the wait loop of \<open>acquireCtx\<close>: \<open>ctxErr\<close> is \<open>ctx != nil && ctx.Err() != nil\<close>,
      \<open>late\<close> is \<open>!time.Now().Before(deadline)\<close>\<close>
  "acquire_check maxWait ctxErr late sps start end =
     (if spansOverlap sps start end
      then (if ctxErr then GaveUp else if maxWait > 0 \<and> late then GaveUp else Blocked)
      else Acquired (sps @ [Span start end]))"

fun acquireCtx :: "int \<Rightarrow> (span list \<times> bool \<times> bool) list \<Rightarrow> int \<Rightarrow> int \<Rightarrow> acq" where
  \<comment> \<open>a whole call: the list holds what the caller observes each time it has the mutex\<close>
  "acquireCtx maxWait [] start end = Blocked"
| "acquireCtx maxWait ((sps, ctxErr, late) # obs) start end =
     (case acquire_check maxWait ctxErr late sps start end of
        Blocked \<Rightarrow> acquireCtx maxWait obs start end
      | r \<Rightarrow> r)"

definition release :: "span list \<Rightarrow> int \<Rightarrow> int \<Rightarrow> span list" where
  "release sps start end = remove1 (Span start end) sps"

subsection \<open>Callers of one key\<close>

datatype tstate = Idle | Waiting nat int int int | Holding nat int int

record ifl =
  cur :: nat                          \<comment> \<open>the set that \<open>Store.inflight\<close> maps the key to\<close>
  nsets :: nat                        \<comment> \<open>sets created so far\<close>
  sets :: "nat \<Rightarrow> span list"
  thr :: "nat \<Rightarrow> tstate"

definition ifl_init :: ifl where
  "ifl_init = \<lparr>cur = 0, nsets = 1, sets = (\<lambda>_. []), thr = (\<lambda>_. Idle)\<rparr>"

definition settle :: "ifl \<Rightarrow> nat \<Rightarrow> nat \<Rightarrow> int \<Rightarrow> int \<Rightarrow> int \<Rightarrow> acq \<Rightarrow> ifl" where
  \<comment> \<open>the effect of one pass through the critical section by thread \<open>t\<close>\<close>
  "settle s t i a b mw r =
     (case r of
        Acquired sps \<Rightarrow> s\<lparr>sets := (sets s)(i := sps), thr := (thr s)(t := Holding i a b)\<rparr>
      | GaveUp \<Rightarrow> s\<lparr>thr := (thr s)(t := Idle)\<rparr>
      | Blocked \<Rightarrow> s\<lparr>thr := (thr s)(t := Waiting i a b mw)\<rparr>)"

inductive ifl_step :: "ifl \<Rightarrow> ifl \<Rightarrow> bool" where
  ifl_call: "thr s t = Idle \<Longrightarrow>
    \<comment> \<open>the first check looks at neither the context nor the clock\<close>
    ifl_step s (settle s t (cur s) a b mw (acquire_check 0 False False (sets s (cur s)) a b))"
| ifl_wake: "thr s t = Waiting i a b mw \<Longrightarrow>
    ifl_step s (settle s t i a b mw (acquire_check mw ctxErr late (sets s i) a b))"
| ifl_release: "thr s t = Holding i a b \<Longrightarrow>
    ifl_step s (s\<lparr>sets := (sets s)(i := release (sets s i) a b), thr := (thr s)(t := Idle)\<rparr>)"

inductive ifl_purge :: "ifl \<Rightarrow> ifl \<Rightarrow> bool" where
  "ifl_purge s (s\<lparr>cur := nsets s, nsets := Suc (nsets s)\<rparr>)"

inductive ifl_reach :: "ifl \<Rightarrow> bool" where
  ifl_start: "ifl_reach ifl_init"
| ifl_next: "ifl_reach s \<Longrightarrow> ifl_step s s' \<Longrightarrow> ifl_reach s'"
| ifl_drop: "ifl_reach s \<Longrightarrow> ifl_purge s s' \<Longrightarrow> ifl_reach s'"

subsection \<open>The invariant\<close>

definition holders :: "ifl \<Rightarrow> nat \<Rightarrow> nat set" where
  "holders s i = {t. \<exists>a b. thr s t = Holding i a b}"

fun held :: "tstate \<Rightarrow> span" where
  "held (Holding i a b) = Span a b"
| "held _ = Span 0 0"

definition apart :: "span \<Rightarrow> span \<Rightarrow> bool" where
  "apart x y \<longleftrightarrow> \<not> (Start x < End y \<and> Start y < End x)"

definition ifl_inv :: "ifl \<Rightarrow> bool" where
  "ifl_inv s \<longleftrightarrow>
     (\<forall>i. finite (holders s i) \<and> mset (sets s i) = image_mset (\<lambda>t. held (thr s t)) (mset_set (holders s i))) \<and>
     (\<forall>i t u. t \<in> holders s i \<longrightarrow> u \<in> holders s i \<longrightarrow> t \<noteq> u \<longrightarrow> apart (held (thr s t)) (held (thr s u)))"

lemma apart_sym: "apart x y = apart y x"
  by (auto simp: apart_def)

lemma spansOverlap_apart: "\<not> spansOverlap sps a b \<longleftrightarrow> (\<forall>x \<in> set sps. apart x (Span a b))"
  by (auto simp: spansOverlap_def apart_def list_ex_iff)

lemma apart_disjoint: "apart x y \<Longrightarrow> {Start x..<End x} \<inter> {Start y..<End y} = {}"
  by (auto simp: apart_def)

lemma holders_upd:
  "holders (s\<lparr>thr := (thr s)(t := x)\<rparr>) i =
     (if \<exists>a b. x = Holding i a b then insert t (holders s i) else holders s i - {t})"
  by (auto simp: holders_def)

lemma mset_held_cong:
  assumes "finite H" "t \<notin> H"
  shows "image_mset (\<lambda>u. held (if u = t then x else thr s u)) (mset_set H) =
    image_mset (\<lambda>u. held (thr s u)) (mset_set H)"
  by (rule image_mset_cong) (use assms in auto)

lemma inv_park:
  assumes "ifl_inv s" "\<And>i. t \<notin> holders s i" "\<And>i a b. x \<noteq> Holding i a b"
  shows "ifl_inv (s\<lparr>thr := (thr s)(t := x)\<rparr>)"
proof -
  have H: "holders (s\<lparr>thr := (thr s)(t := x)\<rparr>) i = holders s i" for i
    using assms(2,3) by (simp add: holders_upd)
  show ?thesis
    unfolding ifl_inv_def H
    using assms(1,2) by (auto simp: ifl_inv_def mset_held_cong)
qed

lemma inv_acquire:
  assumes inv: "ifl_inv s" and t: "\<And>i. t \<notin> holders s i" and free: "\<not> spansOverlap (sets s i) a b"
  shows "ifl_inv (s\<lparr>sets := (sets s)(i := sets s i @ [Span a b]), thr := (thr s)(t := Holding i a b)\<rparr>)"
    (is "ifl_inv ?s'")
proof -
  have H: "holders ?s' j = (if j = i then insert t (holders s i) else holders s j)" for j
    using t by (auto simp: holders_def)
  have fin: "finite (holders s j)" for j using inv by (simp add: ifl_inv_def)
  have ms: "mset (sets ?s' j) = image_mset (\<lambda>u. held (thr ?s' u)) (mset_set (holders ?s' j))" for j
    unfolding H using inv t fin by (simp add: ifl_inv_def mset_held_cong)
  have new: "apart (held (thr s u)) (Span a b)" if "u \<in> holders s i" for u
  proof -
    have "held (thr s u) \<in># mset (sets s i)" using inv that fin [of i] by (simp add: ifl_inv_def)
    with free show ?thesis by (simp add: spansOverlap_apart)
  qed
  have "apart (held (thr ?s' u)) (held (thr ?s' v))"
    if "u \<in> holders ?s' j" "v \<in> holders ?s' j" "u \<noteq> v" for u v j
    using that new inv t apart_sym [of "Span a b"]
    unfolding H by (auto simp: ifl_inv_def split: if_splits)
  with ms fin show ?thesis unfolding ifl_inv_def by (auto simp: H)
qed

lemma inv_release:
  assumes inv: "ifl_inv s" and t: "thr s t = Holding i a b"
  shows "ifl_inv (s\<lparr>sets := (sets s)(i := release (sets s i) a b), thr := (thr s)(t := Idle)\<rparr>)"
    (is "ifl_inv ?s'")
proof -
  have H: "holders ?s' j = holders s j - {t}" for j
    by (auto simp: holders_def)
  have ti: "t \<in> holders s i" and tj: "j \<noteq> i \<Longrightarrow> t \<notin> holders s j" for j
    using t by (auto simp: holders_def)
  have fin: "finite (holders s j)" for j using inv by (simp add: ifl_inv_def)
  have ms: "mset (sets ?s' j) = image_mset (\<lambda>u. held (thr ?s' u)) (mset_set (holders ?s' j))" for j
  proof (cases "j = i")
    case True
    have "mset_set (holders s i) = add_mset t (mset_set (holders s i - {t}))"
      using mset_set.remove [OF fin ti] .
    then have "mset (sets s i) = add_mset (Span a b) (image_mset (\<lambda>u. held (thr s u)) (mset_set (holders s i - {t})))"
      using inv t by (simp add: ifl_inv_def)
    then show ?thesis unfolding H using True fin [of i]
      by (simp add: release_def mset_held_cong)
  next
    case False
    then show ?thesis unfolding H using inv tj [OF False] fin [of j]
      by (simp add: ifl_inv_def mset_held_cong)
  qed
  then show ?thesis
    using inv fin unfolding ifl_inv_def H by auto
qed

lemma inv_settle:
  assumes "ifl_inv s" "\<And>i. t \<notin> holders s i"
  shows "ifl_inv (settle s t i a b mw (acquire_check w c l (sets s i) a b))"
  using inv_park [OF assms, of Idle] inv_park [OF assms, of "Waiting i a b mw"]
    inv_acquire [OF assms, of i a b]
  by (auto simp: settle_def acquire_check_def)

lemma inv_step: "ifl_step s s' \<Longrightarrow> ifl_inv s \<Longrightarrow> ifl_inv s'"
proof (induction rule: ifl_step.induct)
  case (ifl_call s t a b mw)
  then show ?case by (intro inv_settle) (auto simp: holders_def)
next
  case (ifl_wake s t i a b mw ctxErr late)
  then show ?case by (intro inv_settle) (auto simp: holders_def)
next
  case (ifl_release s t i a b)
  then show ?case by (intro inv_release)
qed

lemma inv_reach: "ifl_reach s \<Longrightarrow> ifl_inv s"
proof (induction rule: ifl_reach.induct)
  case ifl_start
  then show ?case by (simp add: ifl_inv_def ifl_init_def holders_def)
next
  case (ifl_next s s')
  then show ?case using inv_step by blast
next
  case (ifl_drop s s')
  from ifl_drop.hyps(2) have same: "sets s' = sets s" "thr s' = thr s"
    by (auto elim!: ifl_purge.cases)
  have "ifl_inv s' = ifl_inv s" unfolding ifl_inv_def holders_def same ..
  with ifl_drop.IH show ?case by simp
qed

subsection \<open>Properties\<close>

text \<open>C13: in every reachable state of any number of callers of one key, two callers that hold ranges of
  the same in-flight set hold disjoint byte ranges, and the set lists exactly the held ranges, so a
  waiter whose range no holder overlaps obtains it at its next wake-up, whatever the clock and the
  context say.\<close>

theorem inflight_exclusion:
  "ifl_reach s \<Longrightarrow>
   (\<forall>t u i a b c d. thr s t = Holding i a b \<longrightarrow> thr s u = Holding i c d \<longrightarrow> t \<noteq> u \<longrightarrow>
      {a..<b} \<inter> {c..<d} = {}) \<and>
   (\<forall>i sp. sp \<in> set (sets s i) \<longleftrightarrow> (\<exists>t. thr s t = Holding i (Start sp) (End sp))) \<and>
   (\<forall>t i a b mw ctxErr late. thr s t = Waiting i a b mw \<longrightarrow>
      (\<forall>u c d. thr s u = Holding i c d \<longrightarrow> \<not> (c < b \<and> a < d)) \<longrightarrow>
      acquire_check mw ctxErr late (sets s i) a b = Acquired (sets s i @ [Span a b]))"
proof -
  assume "ifl_reach s"
  then have inv: "ifl_inv s" by (rule inv_reach)
  have "{a..<b} \<inter> {c..<d} = {}"
    if "thr s t = Holding i a b" "thr s u = Holding i c d" "t \<noteq> u" for t u i a b c d
  proof -
    have "apart (held (thr s t)) (held (thr s u))"
      using inv that unfolding ifl_inv_def holders_def by blast
    from apart_disjoint [OF this] that show ?thesis by simp
  qed
  moreover have set: "sp \<in> set (sets s i) \<longleftrightarrow> (\<exists>t. thr s t = Holding i (Start sp) (End sp))" for i sp
  proof -
    have "set (sets s i) = (\<lambda>t. held (thr s t)) ` holders s i"
      using inv unfolding ifl_inv_def by (metis finite_set_mset_mset_set set_image_mset set_mset_mset)
    then show ?thesis by (auto simp: holders_def image_iff) (metis held.simps(1) span.collapse)
  qed
  moreover have "acquire_check mw ctxErr late (sets s i) a b = Acquired (sets s i @ [Span a b])"
    if "\<forall>u c d. thr s u = Holding i c d \<longrightarrow> \<not> (c < b \<and> a < d)" for i a b mw ctxErr late
    using that by (auto simp: acquire_check_def spansOverlap_def list_ex_iff set)
  ultimately show ?thesis by blast
qed

theorem inflight_exclusion_witness:
  "\<exists>s. ifl_reach s \<and> thr s 0 = Holding 0 0 5 \<and> thr s 1 = Holding 0 5 9 \<and> {0..<5::int} \<inter> {5..<9} = {}"
proof -
  let ?s1 = "settle ifl_init 0 0 0 5 0 (acquire_check 0 False False [] 0 5)"
  let ?s2 = "settle ?s1 1 0 5 9 0 (acquire_check 0 False False (sets ?s1 0) 5 9)"
  have 1: "ifl_reach ?s1"
    using ifl_next [OF ifl_start ifl_call [of ifl_init 0 0 5 0]] by (simp add: ifl_init_def)
  have c1: "cur ?s1 = 0" "thr ?s1 1 = Idle"
    by (simp_all add: settle_def acquire_check_def spansOverlap_def ifl_init_def)
  have 2: "ifl_reach ?s2" using ifl_next [OF 1 ifl_call [of ?s1 1 5 9 0]] c1 by simp
  have h: "thr ?s2 0 = Holding 0 0 5" "thr ?s2 1 = Holding 0 5 9"
    by (simp_all add: settle_def acquire_check_def spansOverlap_def ifl_init_def)
  have "{0..<5::int} \<inter> {5..<9} = {}"
    using inflight_exclusion [OF 2] h by (metis zero_neq_one)
  with 2 h show ?thesis by blast
qed

text \<open>A bounded acquire is decided by the first observation that is free or bails out: a free one
  yields the range, otherwise the call gives up without registering anything.\<close>

lemma acquireCtx_first:
  "acquireCtx mw obs a b =
     (case dropWhile (\<lambda>(x, c, l). spansOverlap x a b \<and> \<not> c \<and> \<not> (mw > 0 \<and> l)) obs of
        [] \<Rightarrow> Blocked
      | (x, c, l) # _ \<Rightarrow> if spansOverlap x a b then GaveUp else Acquired (x @ [Span a b]))"
  by (induction mw obs a b rule: acquireCtx.induct) (auto simp: acquire_check_def)

text \<open>A purge forgets who holds what: afterwards a second caller can hold an overlapping range.\<close>

lemma purge_breaks_exclusion:
  "\<exists>s. ifl_reach s \<and> thr s 0 = Holding 0 0 9 \<and> thr s 1 = Holding 1 0 9"
proof -
  let ?s1 = "settle ifl_init 0 0 0 9 0 (acquire_check 0 False False [] 0 9)"
  let ?s2 = "?s1\<lparr>cur := nsets ?s1, nsets := Suc (nsets ?s1)\<rparr>"
  let ?s3 = "settle ?s2 1 1 0 9 0 (acquire_check 0 False False (sets ?s2 1) 0 9)"
  have 1: "ifl_reach ?s1"
    using ifl_next [OF ifl_start ifl_call [of ifl_init 0 0 9 0]] by (simp add: ifl_init_def)
  have 2: "ifl_reach ?s2" by (rule ifl_drop [OF 1 ifl_purge.intros])
  have c: "cur ?s2 = 1" "thr ?s2 1 = Idle"
    by (simp_all add: settle_def acquire_check_def spansOverlap_def ifl_init_def)
  have 3: "ifl_reach ?s3" using ifl_next [OF 2 ifl_call [of ?s2 1 0 9 0]] c by simp
  then show ?thesis
    by (rule exI [of _ ?s3, OF conjI]) (simp add: settle_def acquire_check_def spansOverlap_def ifl_init_def)
qed

end
