(* ===== verification/Store_Model.thy ===== *)
theory Store_Model
  imports Spans Lru "HOL-Library.List_Lexorder" "HOL-Library.Char_ord"
begin

text \<open>
  The on-disk cache of \<open>internal/cache/store.go\<close>: metadata, quota counters, segment writers,
  redirects, aliases, purge and the usage scan. The state is the record \<open>store\<close>: the object
  directories (each with an optional \<open>meta.json\<close> and an optional body inode), the inodes, the
  metadata LRU and the counters. A body is an inode, so a writer that holds the file open keeps its
  bytes when the directory is removed. \<open>meta.json\<close> is the \<open>Meta\<close> value it encodes (JSON encoding of
  valid UTF-8 strings is the identity on it) or is corrupt. Every operation takes an \<open>io\<close> record that
  says which of its system calls fail. Atomic counters are 64-bit and wrap.
\<close>

subsection \<open>Files\<close>

definition pad_to :: "nat \<Rightarrow> string \<Rightarrow> string" where
  "pad_to n s = s @ replicate (n - length s) (CHR 0x00)"

definition truncate_to :: "nat \<Rightarrow> string \<Rightarrow> string" where
  \<comment> \<open>\<open>ftruncate\<close>: cuts or extends with zero bytes\<close>
  "truncate_to n s = take n (pad_to n s)"

definition pwrite :: "nat \<Rightarrow> string \<Rightarrow> string \<Rightarrow> string" where
  \<comment> \<open>a write of \<open>p\<close> at offset \<open>off\<close>, a gap is filled with zero bytes\<close>
  "pwrite off p s = (if p = [] then s else take off (pad_to off s) @ p @ drop (off + length p) s)"

datatype fs_op = MkdirAll | OpenBodyFile | TruncateBody | SeekBody | WriteBody | ReadMeta | MetaMkdir | MetaWriteFile
  | MetaRename | SyncBody | CloseBody | OpenDir | SyncDir | RemoveAll | ReadDir | StatBody

subsection \<open>Metadata\<close>

record Meta =
  Version :: int
  UpstreamHost :: string
  MPath :: string
  RawQuery :: string
  Spans :: "span list"
  Total :: "int option"
  ETag :: string
  ContentType :: string
  StatusCode :: int
  Location :: string
  ExtraHeaders :: "(string \<times> string) list"
  AliasOf :: string
  OriginPath :: string
  OriginPaths :: "string list"

definition zero_meta :: Meta where
  "zero_meta = \<lparr>Version = 0, UpstreamHost = [], MPath = [], RawQuery = [], Spans = [], Total = None,
     ETag = [], ContentType = [], StatusCode = 0, Location = [], ExtraHeaders = [], AliasOf = [],
     OriginPath = [], OriginPaths = []\<rparr>"

definition MaxOriginPaths :: nat where
  "MaxOriginPaths = 64"

definition searchStrings :: "string list \<Rightarrow> string \<Rightarrow> nat" where
  \<comment> \<open>\<open>sort.SearchStrings\<close>\<close>
  "searchStrings a x = sort_search (\<lambda>i. a ! i \<ge> x) 0 (length a)"

definition appendOwner :: "string list \<Rightarrow> string \<Rightarrow> string list" where
  "appendOwner owners owner =
     (if owner = [] then owners
      else let i = searchStrings owners owner
           in if i < length owners \<and> owners ! i = owner then owners
              else if length owners \<ge> MaxOriginPaths then owners
              else take i owners @ owner # drop i owners)"

definition IsCacheableRedirectStatus :: "int \<Rightarrow> bool" where
  "IsCacheableRedirectStatus status \<longleftrightarrow> status \<in> set [301, 302, 303, 307, 308]"

definition mergeExtraHeaders :: "Meta \<Rightarrow> (string \<times> string) list \<Rightarrow> Meta" where
  "mergeExtraHeaders meta extra =
     (if extra = [] then meta
      else meta\<lparr>ExtraHeaders :=
        foldl (\<lambda>hs (k, v). if v = [] then hs else AList.update k v hs) (ExtraHeaders meta) extra\<rparr>)"

definition metaTotal :: "Meta option \<Rightarrow> int" where
  "metaTotal m = (case m of None \<Rightarrow> 0
     | Some x \<Rightarrow> (case Total x of None \<Rightarrow> 0 | Some t \<Rightarrow> if t \<le> 0 then 0 else t))"

subsection \<open>The store\<close>

datatype metafile = MetaOK Meta | MetaCorrupt

record obj =
  metaf :: "metafile option"
  body :: "nat option"

record io =
  fails :: "fs_op \<Rightarrow> bool"
  rm_left :: "obj \<Rightarrow> obj option"    \<comment> \<open>what a failing \<open>RemoveAll\<close> leaves of a directory\<close>

record bodyHandle =
  hino :: nat                         \<comment> \<open>the file \<open>f\<close>\<close>
  hsize :: int
  refs :: int
  evicted :: bool
  fopen :: bool                       \<comment> \<open>\<open>f\<close> has not been closed\<close>

record store =
  fsyncPolicy :: string
  MaxBytes :: int
  checkpointInterval :: int           \<comment> \<open>the package variable \<open>CheckpointInterval\<close>\<close>
  disk :: "(string \<times> obj) list"
  inodes :: "nat \<Rightarrow> string"
  nextIno :: nat
  metaCache :: "Meta lru"
  bodyHandles :: "nat lru"            \<comment> \<open>key to address of a \<open>bodyHandle\<close>\<close>
  handles :: "nat \<Rightarrow> bodyHandle"
  nextHandle :: nat
  usedBytes :: int
  reservedBytes :: int
  entryCount :: int

datatype cache_err = EmptyKey | NegativeStart | BadLength | BadTotal | BadStatus | QuotaExceeded
  | NotRedirect | EmptyLocation | BadRange | NilTrimmed | CorruptMeta | IOErr fs_op

definition empty_obj :: obj where
  "empty_obj = \<lparr>metaf = None, body = None\<rparr>"

definition mkdirObj :: "string \<Rightarrow> store \<Rightarrow> store" where
  \<comment> \<open>a successful \<open>os.MkdirAll(s.objectDir(key))\<close>\<close>
  "mkdirObj key s =
     (case map_of (disk s) key of Some _ \<Rightarrow> s | None \<Rightarrow> s\<lparr>disk := AList.update key empty_obj (disk s)\<rparr>)"

definition readMeta :: "io \<Rightarrow> string \<Rightarrow> store \<Rightarrow> cache_err + Meta option" where
  \<comment> \<open>\<open>readMetaLocked\<close>; also the file access of \<open>LoadMeta\<close>, the scan and the purge\<close>
  "readMeta io key s =
     (if fails io ReadMeta then Inl (IOErr ReadMeta)
      else case map_of (disk s) key of
        None \<Rightarrow> Inr None
      | Some ob \<Rightarrow> (case metaf ob of
            None \<Rightarrow> Inr None
          | Some MetaCorrupt \<Rightarrow> Inl CorruptMeta
          | Some (MetaOK m) \<Rightarrow> Inr (Some m)))"

definition readMeta_ignoring :: "io \<Rightarrow> string \<Rightarrow> store \<Rightarrow> Meta option" where
  \<comment> \<open>\<open>meta, _ := readMetaLocked(key)\<close>\<close>
  "readMeta_ignoring io key s = (case readMeta io key s of Inl _ \<Rightarrow> None | Inr m \<Rightarrow> m)"

definition writeMetaLocked :: "io \<Rightarrow> string \<Rightarrow> Meta \<Rightarrow> store \<Rightarrow> cache_err option \<times> store" where
  "writeMetaLocked io key m s =
     (if fails io MetaMkdir then (Some (IOErr MetaMkdir), s)
      else let s1 = mkdirObj key s
           in if fails io MetaWriteFile then (Some (IOErr MetaWriteFile), s1)
              else if fails io MetaRename then (Some (IOErr MetaRename), s1)
              else (None, s1\<lparr>disk := AList.update key
                      ((the (map_of (disk s1) key))\<lparr>metaf := Some (MetaOK m)\<rparr>) (disk s1)\<rparr>))"

definition maybeFsyncDir :: "io \<Rightarrow> store \<Rightarrow> cache_err option" where
  "maybeFsyncDir io s =
     (if fsyncPolicy s \<noteq> ''dir'' then None
      else if fails io OpenDir then Some (IOErr OpenDir)
      else if fails io SyncDir then Some (IOErr SyncDir) else None)"

definition LoadMeta :: "io \<Rightarrow> string \<Rightarrow> store \<Rightarrow> (cache_err + Meta option) \<times> store" where
  "LoadMeta io key s =
     (case Get (metaCache s) key of
        (Some m, c) \<Rightarrow> (Inr (Some m), s\<lparr>metaCache := c\<rparr>)
      | (None, c) \<Rightarrow>
          let s1 = s\<lparr>metaCache := c\<rparr>
          in case readMeta io key s1 of
               Inl e \<Rightarrow> (Inl e, s1)
             | Inr None \<Rightarrow> (Inr None, s1)
             | Inr (Some m) \<Rightarrow> (Inr (Some m), s1\<lparr>metaCache := fst (Add (metaCache s1) key m)\<rparr>))"

subsection \<open>Quota\<close>

definition reserveQuota :: "int \<Rightarrow> store \<Rightarrow> bool \<times> store" where
  \<comment> \<open>\<open>True\<close> when admitted; without interference the compare-and-swap succeeds at once\<close>
  "reserveQuota n s =
     (if MaxBytes s \<le> 0 \<or> n \<le> 0 then (True, s)
      else if usedBytes s \<ge> MaxBytes s \<or> wrap64 (usedBytes s + reservedBytes s + n) > MaxBytes s
      then (False, s)
      else (True, s\<lparr>reservedBytes := wrap64 (reservedBytes s + n)\<rparr>))"

definition releaseReservation :: "int \<Rightarrow> store \<Rightarrow> store" where
  "releaseReservation n s = (if n \<le> 0 then s else s\<lparr>reservedBytes := wrap64 (reservedBytes s - n)\<rparr>)"

definition accountMetaTransition :: "int \<Rightarrow> bool \<Rightarrow> Meta option \<Rightarrow> store \<Rightarrow> int \<times> store" where
  "accountMetaTransition oldTotal oldExists newMeta s =
     (if MaxBytes s \<le> 0 then (0, s)
      else let newTotal = metaTotal newMeta;
               s1 = (if newTotal \<noteq> oldTotal
                     then s\<lparr>usedBytes := wrap64 (usedBytes s + (newTotal - oldTotal))\<rparr> else s);
               s2 = (if \<not> oldExists \<and> newMeta \<noteq> None
                     then s1\<lparr>entryCount := wrap64 (entryCount s1 + 1)\<rparr> else s1)
           in (if newTotal > oldTotal then newTotal - oldTotal else 0, s2))"

subsection \<open>Segment writers\<close>

record SegmentParams =
  pStatus :: int
  pUpstreamHost :: string
  pPath :: string
  pRawQuery :: string
  pETag :: string
  pContentType :: string
  pStart :: int
  pLength :: int
  pTotal :: int
  pExtraHeaders :: "(string \<times> string) list"
  pOriginPath :: string

record SegmentWriter =
  wkey :: string
  wino :: nat                        \<comment> \<open>the open body file\<close>
  params :: SegmentParams
  written :: int
  lastCheckpoint :: int
  closed :: bool
  reserved :: int
  dynamicQuota :: bool

definition quotaReservationFor :: "SegmentParams \<Rightarrow> int" where
  "quotaReservationFor p =
     (if pTotal p > 0 then pTotal p else if pLength p > 0 then pLength p else 0)"

definition validateSegmentParams :: "string \<Rightarrow> SegmentParams \<Rightarrow> cache_err option" where
  "validateSegmentParams key p =
     (if key = [] then Some EmptyKey
      else if pStart p < 0 then Some NegativeStart
      else if pLength p < -1 then Some BadLength
      else if pTotal p < -1 then Some BadTotal
      else if pStatus p = 200 \<or> pStatus p = 206 then None else Some BadStatus)"

definition openBody :: "string \<Rightarrow> store \<Rightarrow> nat \<times> store" where
  \<comment> \<open>\<open>os.OpenFile(bodyPath, O_CREATE|O_RDWR)\<close> in an existing directory\<close>
  "openBody key s =
     (case map_of (disk s) key of
        Some ob \<Rightarrow> (case body ob of
            Some i \<Rightarrow> (i, s)
          | None \<Rightarrow> (nextIno s, s\<lparr>disk := AList.update key (ob\<lparr>body := Some (nextIno s)\<rparr>) (disk s),
                              inodes := (inodes s)(nextIno s := []), nextIno := Suc (nextIno s)\<rparr>))
      | None \<Rightarrow> (nextIno s, s))"

definition BeginSegment :: "io \<Rightarrow> string \<Rightarrow> SegmentParams \<Rightarrow> store \<Rightarrow> (cache_err + SegmentWriter) \<times> store" where
  "BeginSegment io key p s =
     (case validateSegmentParams key p of
        Some e \<Rightarrow> (Inl e, s)
      | None \<Rightarrow>
          let res = quotaReservationFor p in
          case reserveQuota res s of
            (False, s1) \<Rightarrow> (Inl QuotaExceeded, s1)
          | (True, s1) \<Rightarrow>
              if fails io MkdirAll then (Inl (IOErr MkdirAll), releaseReservation res s1)
              else let s2 = mkdirObj key s1 in
              if fails io OpenBodyFile then (Inl (IOErr OpenBodyFile), releaseReservation res s2)
              else case openBody key s2 of (i, s3) \<Rightarrow>
              if pTotal p > 0 \<and> fails io TruncateBody
              then (Inl (IOErr TruncateBody), releaseReservation res s3)
              else let s4 = (if pTotal p > 0
                             then s3\<lparr>inodes := (inodes s3)(i := truncate_to (nat (pTotal p)) (inodes s3 i))\<rparr>
                             else s3) in
              if fails io SeekBody then (Inl (IOErr SeekBody), releaseReservation res s4)
              else (Inr \<lparr>wkey = key, wino = i, params = p, written = 0, lastCheckpoint = 0, closed = False,
                         reserved = res,
                         dynamicQuota = (res = 0 \<and> MaxBytes s4 > 0 \<and> pTotal p \<le> 0 \<and> pLength p \<le> 0)\<rparr>, s4))"

definition releaseReserved :: "int \<Rightarrow> SegmentWriter \<times> store \<Rightarrow> SegmentWriter \<times> store" where
  "releaseReserved n ws =
     (case ws of (w, s) \<Rightarrow>
        if n \<le> 0 \<or> reserved w \<le> 0 then (w, s)
        else let m = (if n > reserved w then reserved w else n)
             in (w\<lparr>reserved := reserved w - m\<rparr>, releaseReservation m s))"

definition fresh_meta :: "SegmentParams \<Rightarrow> Meta" where
  \<comment> \<open>the \<open>Meta\<close> that \<open>commit\<close> and \<open>checkpoint\<close> start from when none is on disk\<close>
  "fresh_meta p = zero_meta\<lparr>Version := 1, UpstreamHost := pUpstreamHost p, MPath := pPath p,
     RawQuery := pRawQuery p, ETag := pETag p, ContentType := pContentType p,
     StatusCode := pStatus p, OriginPath := pOriginPath p\<rparr>"

definition add_origin :: "SegmentParams \<Rightarrow> Meta \<Rightarrow> Meta" where
  "add_origin p m =
     (let m1 = (if OriginPath m = [] \<and> pOriginPath p \<noteq> [] then m\<lparr>OriginPath := pOriginPath p\<rparr> else m)
      in if pOriginPath p \<noteq> [] then m1\<lparr>OriginPaths := appendOwner (OriginPaths m1) (pOriginPath p)\<rparr> else m1)"

definition add_written_span :: "SegmentWriter \<Rightarrow> Meta \<Rightarrow> Meta" where
  "add_written_span w m =
     m\<lparr>Spans := record_span (Spans m) (pStart (params w)) (wrap64 (pStart (params w) + written w))\<rparr>"

definition checkpoint_meta :: "SegmentWriter \<Rightarrow> Meta option \<Rightarrow> Meta" where
  "checkpoint_meta w old =
     (let p = params w;
          m0 = (case old of None \<Rightarrow> fresh_meta p | Some m \<Rightarrow> m);
          m1 = add_written_span w (add_origin p m0);
          m2 = (if pTotal p > 0 then m1\<lparr>Total := Some (pTotal p)\<rparr> else m1)
      in mergeExtraHeaders m2 (pExtraHeaders p))"

definition checkpoint :: "io \<Rightarrow> SegmentWriter \<Rightarrow> store \<Rightarrow> cache_err option \<times> SegmentWriter \<times> store" where
  "checkpoint io w s =
     (if written w = lastCheckpoint w then (None, w, s)
      else let old = readMeta_ignoring io (wkey w) s; m = checkpoint_meta w old
           in case writeMetaLocked io (wkey w) m s of
                (Some e, s1) \<Rightarrow> (Some e, w, s1)
              | (None, s1) \<Rightarrow>
                  let s2 = s1\<lparr>metaCache := fst (Add (metaCache s1) (wkey w) m)\<rparr>
                  in case accountMetaTransition (metaTotal old) (old \<noteq> None) (Some m) s2 of
                       (accounted, s3) \<Rightarrow>
                         (case releaseReserved accounted (w, s3) of
                            (w1, s4) \<Rightarrow> (None, w1\<lparr>lastCheckpoint := written w1\<rparr>, s4)))"

definition write_body ::
  "nat option \<Rightarrow> SegmentWriter \<Rightarrow> string \<Rightarrow> store \<Rightarrow> (nat \<times> cache_err option) \<times> SegmentWriter \<times> store" where
  \<comment> \<open>\<open>Write\<close> up to its checkpoint: dynamic reservation, file write, return of the unused
      reservation. The first argument is the outcome of the file write: \<open>None\<close> when it takes all of
      \<open>p\<close>, \<open>Some k\<close> when it fails after \<open>k\<close> bytes; writing to a closed file takes nothing\<close>
  "write_body short w p s =
     (case (if dynamicQuota w then reserveQuota (int (length p)) s else (True, s)) of
        (False, s1) \<Rightarrow> ((0, Some QuotaExceeded), w, s1)
      | (True, s1) \<Rightarrow>
          let w1 = (if dynamicQuota w then w\<lparr>reserved := reserved w + int (length p)\<rparr> else w);
              n = (if closed w then 0
                   else case short of None \<Rightarrow> length p | Some k \<Rightarrow> min k (length p - 1));
              err = (if n < length p then Some (IOErr WriteBody) else None);
              off = nat (pStart (params w) + written w);
              s2 = s1\<lparr>inodes := (inodes s1)(wino w := pwrite off (take n p) (inodes s1 (wino w)))\<rparr>
          in case (if dynamicQuota w1 \<and> n < length p
                   then releaseReserved (int (length p - n)) (w1, s2) else (w1, s2)) of
               (w2, s3) \<Rightarrow> ((n, err), (if n > 0 then w2\<lparr>written := written w2 + int n\<rparr> else w2), s3))"

definition Write ::
  "io \<Rightarrow> nat option \<Rightarrow> SegmentWriter \<Rightarrow> string \<Rightarrow> store \<Rightarrow> (nat \<times> cache_err option) \<times> SegmentWriter \<times> store" where
  "Write io short w p s =
     (if p = [] then ((0, None), w, s)
      else case write_body short w p s of
        ((n, err), w1, s1) \<Rightarrow>
          if err = None \<and> checkpointInterval s1 > 0 \<and>
             written w1 - lastCheckpoint w1 \<ge> checkpointInterval s1
          then (case checkpoint io w1 s1 of (_, w2, s2) \<Rightarrow> ((n, err), w2, s2))
          else ((n, err), w1, s1))"

definition commit_meta :: "SegmentWriter \<Rightarrow> Meta option \<Rightarrow> Meta" where
  "commit_meta w old =
     (let p = params w;
          m0 = (case old of None \<Rightarrow> fresh_meta p | Some m \<Rightarrow> m);
          m1 = add_origin p m0;
          m2 = (if written w > 0 then add_written_span w m1 else m1);
          m3 = (if pTotal p > 0 then m2\<lparr>Total := Some (pTotal p)\<rparr>
                else if pStatus p = 200 \<and> pStart p = 0 \<and> pLength p < 0 \<and> written w > 0
                then m2\<lparr>Total := Some (written w)\<rparr> else m2);
          m4 = (if pStatus p \<noteq> 0
                then (if StatusCode m3 = 0 \<or> (pStatus p = 200 \<and> StatusCode m3 = 206)
                      then m3\<lparr>StatusCode := pStatus p\<rparr> else m3)
                else m3);
          m5 = (if pETag p \<noteq> [] then m4\<lparr>ETag := pETag p\<rparr> else m4);
          m6 = (if pContentType p \<noteq> [] then m5\<lparr>ContentType := pContentType p\<rparr> else m5);
          m7 = (if UpstreamHost m6 = [] then m6\<lparr>UpstreamHost := pUpstreamHost p\<rparr> else m6);
          m8 = (if MPath m7 = [] then m7\<lparr>MPath := pPath p\<rparr> else m7);
          m9 = (if RawQuery m8 = [] then m8\<lparr>RawQuery := pRawQuery p\<rparr> else m8)
      in mergeExtraHeaders m9 (pExtraHeaders p))"

definition publish ::
  "io \<Rightarrow> string \<Rightarrow> Meta option \<Rightarrow> Meta \<Rightarrow> store \<Rightarrow> (cache_err + int) \<times> store" where
  \<comment> \<open>the tail shared by \<open>commit\<close>, \<open>StoreAlias\<close> and \<open>StoreRedirect\<close>: write \<open>meta.json\<close>, sync the
      directory, refresh the LRU, account\<close>
  "publish io key old m s =
     (case writeMetaLocked io key m s of
        (Some e, s1) \<Rightarrow> (Inl e, s1)
      | (None, s1) \<Rightarrow>
          (case maybeFsyncDir io s1 of
             Some e \<Rightarrow> (Inl e, s1)
           | None \<Rightarrow>
               let s2 = s1\<lparr>metaCache := fst (Add (metaCache s1) key m)\<rparr>
               in case accountMetaTransition (metaTotal old) (old \<noteq> None) (Some m) s2 of
                    (accounted, s3) \<Rightarrow> (Inr accounted, s3)))"

definition commit :: "io \<Rightarrow> SegmentWriter \<Rightarrow> store \<Rightarrow> cache_err option \<times> SegmentWriter \<times> store" where
  "commit io w s =
     (let old = readMeta_ignoring io (wkey w) s; m = commit_meta w old
      in case publish io (wkey w) old m s of
           (Inl e, s1) \<Rightarrow> (Some e, w, s1)
         | (Inr accounted, s1) \<Rightarrow> (None, releaseReserved accounted (w, s1)))"

definition maybeFsync :: "io \<Rightarrow> store \<Rightarrow> cache_err option" where
  "maybeFsync io s =
     (if fsyncPolicy s = ''per-file'' \<and> fails io SyncBody then Some (IOErr SyncBody) else None)"

definition CloseSegment :: "io \<Rightarrow> SegmentWriter \<Rightarrow> store \<Rightarrow> cache_err option \<times> SegmentWriter \<times> store" where
  \<comment> \<open>\<open>SegmentWriter.Close\<close>; the deferred release has its argument fixed before the commit\<close>
  "CloseSegment io w s =
     (if closed w then (None, w, s)
      else let w1 = w\<lparr>closed := True\<rparr>;
               syncErr = maybeFsync io s;
               closeErr = (if fails io CloseBody then Some (IOErr CloseBody) else None)
           in case commit io w1 s of (e, w2, s2) \<Rightarrow>
                let syncErr1 = (if e \<noteq> None \<and> syncErr = None then e else syncErr)
                in (if closeErr \<noteq> None then closeErr else syncErr1, releaseReserved (reserved w1) (w2, s2)))"

subsection \<open>Redirects and aliases\<close>

definition StoreAlias ::
  "io \<Rightarrow> string \<Rightarrow> string \<Rightarrow> string \<Rightarrow> string \<Rightarrow> string \<Rightarrow> store \<Rightarrow> cache_err option \<times> store" where
  "StoreAlias io aliasKey canonicalKey host path rawQuery s =
     (if aliasKey = [] \<or> canonicalKey = [] then (Some EmptyKey, s)
      else if aliasKey = canonicalKey then (None, s)
      else if fails io MkdirAll then (Some (IOErr MkdirAll), s)
      else let s1 = mkdirObj aliasKey s; existing = readMeta_ignoring io aliasKey s1
           in if existing \<noteq> None \<and> AliasOf (the existing) = [] then (None, s1)
              else let meta = zero_meta\<lparr>Version := 1, UpstreamHost := host, MPath := path,
                                RawQuery := rawQuery, AliasOf := canonicalKey\<rparr>
                   in case publish io aliasKey existing meta s1 of
                        (Inl e, s2) \<Rightarrow> (Some e, s2)
                      | (Inr _, s2) \<Rightarrow> (None, s2))"

definition redirect_meta ::
  "Meta option \<Rightarrow> int \<Rightarrow> string \<Rightarrow> string \<Rightarrow> string \<Rightarrow> string \<Rightarrow> string \<Rightarrow> string \<Rightarrow> (string \<times> string) list \<Rightarrow> Meta" where
  "redirect_meta old status host path rawQuery location contentType etag extraHeaders =
     (let m0 = (case old of None \<Rightarrow> zero_meta\<lparr>Version := 1\<rparr> | Some m \<Rightarrow> m);
          m1 = m0\<lparr>UpstreamHost := host, MPath := path, RawQuery := rawQuery, StatusCode := status,
                   Location := location\<rparr>;
          m2 = (if contentType \<noteq> [] then m1\<lparr>ContentType := contentType\<rparr> else m1);
          m3 = (if etag \<noteq> [] then m2\<lparr>ETag := etag\<rparr> else m2)
      in mergeExtraHeaders m3 extraHeaders)"

definition StoreRedirect ::
  "io \<Rightarrow> string \<Rightarrow> int \<Rightarrow> string \<Rightarrow> string \<Rightarrow> string \<Rightarrow> string \<Rightarrow> string \<Rightarrow> string \<Rightarrow> (string \<times> string) list \<Rightarrow>
   store \<Rightarrow> cache_err option \<times> store" where
  "StoreRedirect io key status host path rawQuery location contentType etag extraHeaders s =
     (if \<not> IsCacheableRedirectStatus status then (Some NotRedirect, s)
      else if location = [] then (Some EmptyLocation, s)
      else if fails io MkdirAll then (Some (IOErr MkdirAll), s)
      else let s1 = mkdirObj key s; old = readMeta_ignoring io key s1;
               m = redirect_meta old status host path rawQuery location contentType etag extraHeaders
           in case publish io key old m s1 of
                (Inl e, s2) \<Rightarrow> (Some e, s2)
              | (Inr _, s2) \<Rightarrow> (None, s2))"

subsection \<open>Whole streams\<close>

fun copy_stream ::
  "io \<Rightarrow> (nat \<Rightarrow> nat option) \<Rightarrow> nat \<Rightarrow> string list \<Rightarrow> SegmentWriter \<Rightarrow> store \<Rightarrow> cache_err option \<times> SegmentWriter \<times> store" where
  \<comment> \<open>\<open>io.Copy(w, body)\<close> for the chunks that \<open>body\<close> yields\<close>
  "copy_stream io short i [] w s = (None, w, s)"
| "copy_stream io short i (c # cs) w s =
     (case Write io (short i) w c s of
        ((n, Some e), w1, s1) \<Rightarrow> (Some e, w1, s1)
      | ((n, None), w1, s1) \<Rightarrow> copy_stream io short (Suc i) cs w1 s1)"

definition finish_stream ::
  "io \<Rightarrow> (nat \<Rightarrow> nat option) \<Rightarrow> string list \<Rightarrow> cache_err option \<Rightarrow> SegmentWriter \<Rightarrow> store \<Rightarrow> (cache_err + Meta option) \<times> store" where
  \<comment> \<open>copy, close, load; the fourth argument is the error that ends the source, if any\<close>
  "finish_stream io short chunks srcErr w s =
     (case copy_stream io short 0 chunks w s of (e, w1, s1) \<Rightarrow>
        let copyErr = (if e = None then srcErr else e)
        in case CloseSegment io w1 s1 of (ce, w2, s2) \<Rightarrow>
             (case copyErr of
                Some x \<Rightarrow> (Inl x, s2)
              | None \<Rightarrow> (case ce of Some x \<Rightarrow> (Inl x, s2) | None \<Rightarrow> LoadMeta io (wkey w) s2)))"

definition WriteFullFromStream ::
  "io \<Rightarrow> (nat \<Rightarrow> nat option) \<Rightarrow> string \<Rightarrow> int \<Rightarrow> string \<Rightarrow> string \<Rightarrow> string \<Rightarrow> string \<Rightarrow> string \<Rightarrow> string list \<Rightarrow>
   cache_err option \<Rightarrow> int \<Rightarrow> store \<Rightarrow> (cache_err + Meta option) \<times> store" where
  "WriteFullFromStream io short key status host path rawQuery etag ct chunks srcErr totalHint s =
     (let hint = (if totalHint < 0 then -1 else totalHint)
      in case BeginSegment io key \<lparr>pStatus = status, pUpstreamHost = host, pPath = path, pRawQuery = rawQuery,
               pETag = etag, pContentType = ct, pStart = 0, pLength = hint, pTotal = hint,
               pExtraHeaders = [], pOriginPath = []\<rparr> s of
           (Inl e, s1) \<Rightarrow> (Inl e, s1)
         | (Inr w, s1) \<Rightarrow> finish_stream io short chunks srcErr w s1)"

definition WriteRangeFromStream ::
  "io \<Rightarrow> (nat \<Rightarrow> nat option) \<Rightarrow> string \<Rightarrow> int \<Rightarrow> int \<Rightarrow> int option \<Rightarrow> string \<Rightarrow> string \<Rightarrow> string \<Rightarrow> string \<Rightarrow> string \<Rightarrow>
   string list \<Rightarrow> cache_err option \<Rightarrow> store \<Rightarrow> (cache_err + Meta option) \<times> store" where
  "WriteRangeFromStream io short key start end tot host path rawQuery etag ct chunks srcErr s =
     (if start < 0 \<or> end \<le> start then (Inl BadRange, s)
      else case BeginSegment io key \<lparr>pStatus = 206, pUpstreamHost = host, pPath = path, pRawQuery = rawQuery,
               pETag = etag, pContentType = ct, pStart = start, pLength = end - start,
               pTotal = (case tot of None \<Rightarrow> -1 | Some t \<Rightarrow> t), pExtraHeaders = [], pOriginPath = []\<rparr> s of
           (Inl e, s1) \<Rightarrow> (Inl e, s1)
         | (Inr w, s1) \<Rightarrow> finish_stream io short chunks srcErr w s1)"

subsection \<open>Purge, scan, construction\<close>

datatype PurgeDecision = DecisionKeep | DecisionTrim | DecisionRemove

record PurgeResult =
  Purged :: int
  Trimmed :: int
  BytesFreed :: int

definition evictBodyHandle :: "(string \<times> nat) option \<Rightarrow> store \<Rightarrow> store" where
  \<comment> \<open>the eviction callback of the handle LRU\<close>
  "evictBodyHandle ev s =
     (case ev of None \<Rightarrow> s
      | Some (_, a) \<Rightarrow> s\<lparr>handles := (handles s)(a := (handles s a)\<lparr>evicted := True\<rparr>)\<rparr>)"

definition removeObject :: "io \<Rightarrow> string \<Rightarrow> Meta \<Rightarrow> PurgeResult \<Rightarrow> store \<Rightarrow> cache_err option \<times> PurgeResult \<times> store" where
  \<comment> \<open>the \<open>DecisionRemove\<close> case; the key's in-flight set and lock are forgotten too\<close>
  "removeObject io key m res s =
     (let freed = (case Total m of None \<Rightarrow> 0 | Some t \<Rightarrow> t);
          res1 = res\<lparr>BytesFreed := wrap64 (BytesFreed res + freed)\<rparr>
      in if fails io RemoveAll
         then (Some (IOErr RemoveAll), res1,
               s\<lparr>disk := (case map_of (disk s) key of None \<Rightarrow> disk s
                          | Some ob \<Rightarrow> (case rm_left io ob of
                              None \<Rightarrow> AList.delete key (disk s) | Some ob' \<Rightarrow> AList.update key ob' (disk s)))\<rparr>)
         else let s1 = s\<lparr>disk := AList.delete key (disk s)\<rparr>;
                  s2 = (if MaxBytes s1 > 0 \<and> freed > 0
                        then s1\<lparr>usedBytes := wrap64 (usedBytes s1 - freed)\<rparr> else s1);
                  s3 = (if MaxBytes s2 > 0 then s2\<lparr>entryCount := wrap64 (entryCount s2 - 1)\<rparr> else s2);
                  s4 = s3\<lparr>metaCache := fst (snd (Delete (metaCache s3) key))\<rparr>;
                  (_, hs, ev) = Delete (bodyHandles s4) key;
                  s5 = evictBodyHandle ev (s4\<lparr>bodyHandles := hs\<rparr>)
              in (None, res1\<lparr>Purged := Purged res1 + 1\<rparr>, s5))"

definition trimObject :: "io \<Rightarrow> string \<Rightarrow> Meta option \<Rightarrow> PurgeResult \<Rightarrow> store \<Rightarrow> cache_err option \<times> PurgeResult \<times> store" where
  "trimObject io key trimmed res s =
     (case trimmed of
        None \<Rightarrow> (Some NilTrimmed, res, s)
      | Some m \<Rightarrow> (case writeMetaLocked io key m s of
            (Some e, s1) \<Rightarrow> (Some e, res, s1)
          | (None, s1) \<Rightarrow> (None, res\<lparr>Trimmed := Trimmed res + 1\<rparr>,
                          s1\<lparr>metaCache := fst (Add (metaCache s1) key m)\<rparr>)))"

fun purge_loop ::
  "io \<Rightarrow> (string \<Rightarrow> Meta \<Rightarrow> PurgeDecision \<times> Meta option) \<Rightarrow> string list \<Rightarrow> PurgeResult \<Rightarrow> store \<Rightarrow>
   cache_err option \<times> PurgeResult \<times> store" where
  "purge_loop io decide [] res s = (None, res, s)"
| "purge_loop io decide (key # ks) res s =
     (case readMeta io key s of
        Inr (Some m) \<Rightarrow>
          (case (case decide key m of
                   (DecisionKeep, _) \<Rightarrow> (None, res, s)
                 | (DecisionTrim, trimmed) \<Rightarrow> trimObject io key trimmed res s
                 | (DecisionRemove, _) \<Rightarrow> removeObject io key m res s) of
             (Some e, res1, s1) \<Rightarrow> (Some e, res1, s1)
           | (None, res1, s1) \<Rightarrow> purge_loop io decide ks res1 s1)
      | _ \<Rightarrow> purge_loop io decide ks res s)"

definition PurgeOrTrim ::
  "io \<Rightarrow> (string \<Rightarrow> Meta \<Rightarrow> PurgeDecision \<times> Meta option) \<Rightarrow> store \<Rightarrow> cache_err option \<times> PurgeResult \<times> store" where
  \<comment> \<open>\<open>os.ReadDir\<close> lists the object directories in the order of their names\<close>
  "PurgeOrTrim io decide s =
     (let zero = \<lparr>Purged = 0, Trimmed = 0, BytesFreed = 0\<rparr>
      in if fails io ReadDir then (Some (IOErr ReadDir), zero, s)
         else purge_loop io decide (sort (map fst (disk s))) zero s)"

definition PurgeKeys ::
  "io \<Rightarrow> (string \<Rightarrow> Meta \<Rightarrow> bool) \<Rightarrow> store \<Rightarrow> (int \<times> int \<times> cache_err option) \<times> store" where
  "PurgeKeys io pred s =
     (case PurgeOrTrim io (\<lambda>key m. if pred key m then (DecisionRemove, None) else (DecisionKeep, None)) s of
        (e, res, s1) \<Rightarrow> ((Purged res, BytesFreed res, e), s1))"

fun scan_loop :: "io \<Rightarrow> string list \<Rightarrow> store \<Rightarrow> int \<Rightarrow> int \<Rightarrow> int \<times> int" where
  "scan_loop io [] s used count = (used, count)"
| "scan_loop io (key # ks) s used count =
     (case readMeta io key s of
        Inr (Some m) \<Rightarrow> scan_loop io ks s (wrap64 (used + metaTotal (Some m))) (wrap64 (count + 1))
      | _ \<Rightarrow> scan_loop io ks s used count)"

definition scanUsageCounters :: "io \<Rightarrow> store \<Rightarrow> cache_err + int \<times> int" where
  "scanUsageCounters io s =
     (if fails io ReadDir then Inl (IOErr ReadDir)
      else Inr (scan_loop io (sort (map fst (disk s))) s 0 0))"

definition NewStoreWithOptions ::
  "io \<Rightarrow> string \<Rightarrow> int \<Rightarrow> int \<Rightarrow> int \<Rightarrow> int \<Rightarrow> (string \<times> obj) list \<Rightarrow> (nat \<Rightarrow> string) \<Rightarrow> nat \<Rightarrow> cache_err + store" where
  \<comment> \<open>the last three arguments are the contents of the cache root; the package variables
      \<open>CheckpointInterval\<close>, \<open>MaxMetaCacheEntries\<close> and \<open>MaxBodyHandleEntries\<close> come before them\<close>
  "NewStoreWithOptions io policy maxBytes ckpt maxMeta maxHandles dsk inos nxi =
     (if fails io MkdirAll then Inl (IOErr MkdirAll)
      else let s = \<lparr>fsyncPolicy = policy, MaxBytes = maxBytes, checkpointInterval = ckpt, disk = dsk,
                    inodes = inos, nextIno = nxi, metaCache = newLRU zero_meta maxMeta,
                    bodyHandles = newLRU 0 maxHandles,
                    handles = (\<lambda>_. \<lparr>hino = 0, hsize = 0, refs = 0, evicted = False, fopen = False\<rparr>),
                    nextHandle = 0, usedBytes = 0, reservedBytes = 0, entryCount = 0\<rparr>
           in if MaxBytes s > 0
              then (case scanUsageCounters io s of
                      Inl e \<Rightarrow> Inl e
                    | Inr (used, count) \<Rightarrow> Inr (s\<lparr>usedBytes := used, entryCount := count\<rparr>))
              else Inr s)"

record Stats =
  UsedBytes :: int
  QuotaBytes :: int
  FreeDiskBytes :: int
  EntryCount :: int

definition StoreStats :: "io \<Rightarrow> int \<Rightarrow> store \<Rightarrow> Stats" where
  \<comment> \<open>the second argument is the answer of \<open>statfs\<close>\<close>
  "StoreStats io free s =
     (if MaxBytes s \<le> 0
      then (case scanUsageCounters io s of
              Inl _ \<Rightarrow> \<lparr>UsedBytes = 0, QuotaBytes = 0, FreeDiskBytes = free, EntryCount = 0\<rparr>
            | Inr (used, count) \<Rightarrow>
                \<lparr>UsedBytes = used, QuotaBytes = 0, FreeDiskBytes = free, EntryCount = count\<rparr>)
      else \<lparr>UsedBytes = usedBytes s, QuotaBytes = MaxBytes s, FreeDiskBytes = free,
            EntryCount = entryCount s\<rparr>)"

subsection \<open>Range headers\<close>

definition split2 :: "char \<Rightarrow> string \<Rightarrow> (string \<times> string) option" where
  \<comment> \<open>\<open>strings.SplitN(v, sep, 2)\<close> when it yields two parts\<close>
  "split2 c v = (case index_byte v c of None \<Rightarrow> None | Some i \<Rightarrow> Some (take i v, drop (Suc i) v))"

definition ParseSingleRange :: "string \<Rightarrow> int \<Rightarrow> (int \<times> int) option" where
  "ParseSingleRange v tot =
     (let v1 = trim_space v
      in if \<not> has_prefix (to_lower v1) ''bytes='' then None
         else case split2 (CHR ''-'') (drop 6 v1) of
           None \<Rightarrow> None
         | Some (a, b) \<Rightarrow>
             (case parse_int (trim_space a) of
                None \<Rightarrow> None
              | Some start \<Rightarrow>
                  let endStr = trim_space b
                  in if endStr = [] then (if tot \<le> 0 then Some (start, -1) else Some (start, tot))
                     else case parse_int endStr of
                       None \<Rightarrow> None
                     | Some end \<Rightarrow> Some (start, wrap64 (end + 1))))"

end
