(* ===== verification/Store_Inv.thy ===== *)
theory Store_Inv
  imports Store_Model
begin

text \<open>
  Invariants of the store: the counters account for what is on disk (\<open>acct\<close>), the metadata LRU agrees
  with the disk (\<open>coh\<close>), reservations move with the writer that owns them (\<open>moved\<close>); and what the
  metadata writes and the segment writers do to them.
\<close>

subsection \<open>Views of the disk\<close>

definition obj_meta :: "obj \<Rightarrow> Meta option" where
  "obj_meta ob = (case metaf ob of Some (MetaOK m) \<Rightarrow> Some m | _ \<Rightarrow> None)"

definition disk_meta :: "store \<Rightarrow> string \<Rightarrow> Meta option" where
  "disk_meta s k = Option.bind (map_of (disk s) k) obj_meta"

definition disk_body :: "store \<Rightarrow> string \<Rightarrow> nat option" where
  "disk_body s k = Option.bind (map_of (disk s) k) body"

definition sum_objs :: "(obj \<Rightarrow> int) \<Rightarrow> (string \<times> obj) list \<Rightarrow> int" where
  "sum_objs f d = sum_list (map (f \<circ> snd) d)"

definition obj_total :: "obj \<Rightarrow> int" where
  "obj_total ob = metaTotal (obj_meta ob)"

definition obj_count :: "obj \<Rightarrow> int" where
  "obj_count ob = (if obj_meta ob = None then 0 else 1)"

lemma sum_objs_update:
  "distinct (map fst d) \<Longrightarrow> sum_objs f (AList.update k v d) =
     sum_objs f d + f v - (case map_of d k of None \<Rightarrow> 0 | Some ob \<Rightarrow> f ob)"
proof (induction d)
  case (Cons p d)
  then show ?case
    by (cases p) (auto simp: sum_objs_def split: option.splits dest: map_of_SomeD)
qed (simp add: sum_objs_def)

lemma sum_objs_delete:
  "distinct (map fst d) \<Longrightarrow> sum_objs f (AList.delete k d) =
     sum_objs f d - (case map_of d k of None \<Rightarrow> 0 | Some ob \<Rightarrow> f ob)"
proof (induction d)
  case (Cons p d)
  show ?case
  proof (cases "fst p = k")
    case True
    with Cons.prems have "AList.delete k d = d" by auto
    with True show ?thesis by (cases p) (simp add: sum_objs_def)
  next
    case False
    with Cons show ?thesis by (cases p) (auto simp: sum_objs_def split: option.splits)
  qed
qed (simp add: sum_objs_def)

lemma obj_empty [simp]: "obj_meta empty_obj = None" "body empty_obj = None"
  "obj_total empty_obj = 0" "obj_count empty_obj = 0"
  by (simp_all add: obj_meta_def empty_obj_def obj_total_def obj_count_def metaTotal_def)

lemma obj_set_meta [simp]:
  "obj_meta (ob\<lparr>metaf := Some (MetaOK m)\<rparr>) = Some m"
  "obj_total (ob\<lparr>metaf := Some (MetaOK m)\<rparr>) = metaTotal (Some m)"
  "obj_count (ob\<lparr>metaf := Some (MetaOK m)\<rparr>) = 1"
  "obj_meta (ob\<lparr>body := b\<rparr>) = obj_meta ob" "obj_total (ob\<lparr>body := b\<rparr>) = obj_total ob"
  "obj_count (ob\<lparr>body := b\<rparr>) = obj_count ob"
  by (simp_all add: obj_meta_def obj_total_def obj_count_def)

definition disk_used :: "store \<Rightarrow> int" where
  "disk_used s = sum_objs obj_total (disk s)"

definition disk_entries :: "store \<Rightarrow> int" where
  "disk_entries s = sum_objs obj_count (disk s)"

definition keys_ok :: "store \<Rightarrow> bool" where
  "keys_ok s \<longleftrightarrow> distinct (map fst (disk s))"

lemma disk_views_map:
  "(case map_of (disk s) k of None \<Rightarrow> 0 | Some ob \<Rightarrow> obj_total ob) = metaTotal (disk_meta s k)"
  "(case map_of (disk s) k of None \<Rightarrow> 0 | Some ob \<Rightarrow> obj_count ob) = (if disk_meta s k = None then 0 else 1)"
  by (auto simp: disk_meta_def obj_total_def obj_count_def metaTotal_def split: option.split)

subsection \<open>Effects of the file operations\<close>

text \<open>\<open>same_counters s s'\<close>: the counters and the configuration are untouched.\<close>

definition same_counters :: "store \<Rightarrow> store \<Rightarrow> bool" where
  "same_counters s s' \<longleftrightarrow> usedBytes s' = usedBytes s \<and> reservedBytes s' = reservedBytes s \<and>
     entryCount s' = entryCount s \<and> MaxBytes s' = MaxBytes s \<and> fsyncPolicy s' = fsyncPolicy s \<and>
     checkpointInterval s' = checkpointInterval s"

lemma mkdirObj_effect:
  "disk_meta (mkdirObj k s) = disk_meta s" "disk_body (mkdirObj k s) = disk_body s"
  "keys_ok s \<Longrightarrow> keys_ok (mkdirObj k s)" "map_of (disk (mkdirObj k s)) k \<noteq> None"
  "keys_ok s \<Longrightarrow> disk_used (mkdirObj k s) = disk_used s"
  "keys_ok s \<Longrightarrow> disk_entries (mkdirObj k s) = disk_entries s"
  "same_counters s (mkdirObj k s)" "metaCache (mkdirObj k s) = metaCache s"
  "inodes (mkdirObj k s) = inodes s" "nextIno (mkdirObj k s) = nextIno s"
  by (auto simp: mkdirObj_def disk_meta_def disk_body_def keys_ok_def disk_used_def disk_entries_def
      sum_objs_update update_conv' distinct_update same_counters_def fun_eq_iff split: option.split)

lemma readMeta_disk: "\<not> fails io ReadMeta \<Longrightarrow> readMeta_ignoring io k s = disk_meta s k"
  by (auto simp: readMeta_ignoring_def readMeta_def disk_meta_def obj_meta_def
      split: option.split metafile.split)

lemma readMeta_Some: "readMeta io k s = Inr (Some m) \<Longrightarrow> disk_meta s k = Some m"
  by (auto simp: readMeta_def disk_meta_def obj_meta_def split: option.splits metafile.splits if_splits)

lemma readMeta_ignoring_Some: "readMeta_ignoring io k s = Some m \<Longrightarrow> disk_meta s k = Some m"
  by (auto simp: readMeta_ignoring_def split: sum.splits dest: readMeta_Some)

definition setMeta :: "string \<Rightarrow> Meta \<Rightarrow> store \<Rightarrow> store" where
  "setMeta k m s = s\<lparr>disk := AList.update k ((the (map_of (disk s) k))\<lparr>metaf := Some (MetaOK m)\<rparr>) (disk s)\<rparr>"

lemma writeMetaLocked_cases:
  obtains (failed) e where "writeMetaLocked io k m s = (Some e, s)"
  | (failed_mkdir) e where "writeMetaLocked io k m s = (Some e, mkdirObj k s)"
  | (ok) "writeMetaLocked io k m s = (None, setMeta k m (mkdirObj k s))"
  by (cases "fails io MetaMkdir"; cases "fails io MetaWriteFile"; cases "fails io MetaRename")
    (simp_all add: writeMetaLocked_def setMeta_def Let_def)

lemma setMeta_effect:
  assumes "map_of (disk s) k \<noteq> None"
  shows "disk_meta (setMeta k m s) = (disk_meta s)(k \<mapsto> m)" "disk_body (setMeta k m s) = disk_body s"
    "keys_ok s \<Longrightarrow> keys_ok (setMeta k m s)"
    "keys_ok s \<Longrightarrow> disk_used (setMeta k m s) = disk_used s + metaTotal (Some m) - metaTotal (disk_meta s k)"
    "keys_ok s \<Longrightarrow> disk_entries (setMeta k m s) = disk_entries s + (if disk_meta s k = None then 1 else 0)"
    "same_counters s (setMeta k m s)" "metaCache (setMeta k m s) = metaCache s"
    "inodes (setMeta k m s) = inodes s" "nextIno (setMeta k m s) = nextIno s"
proof -
  obtain ob where ob: "map_of (disk s) k = Some ob" using assms by auto
  show "disk_meta (setMeta k m s) = (disk_meta s)(k \<mapsto> m)" "disk_body (setMeta k m s) = disk_body s"
    using ob by (auto simp: setMeta_def disk_meta_def disk_body_def update_conv' fun_eq_iff)
  show "keys_ok s \<Longrightarrow> keys_ok (setMeta k m s)" by (simp add: setMeta_def keys_ok_def distinct_update)
  show "keys_ok s \<Longrightarrow> disk_used (setMeta k m s) = disk_used s + metaTotal (Some m) - metaTotal (disk_meta s k)"
    using ob disk_views_map(1) [of s k] by (simp add: setMeta_def keys_ok_def disk_used_def sum_objs_update)
  show "keys_ok s \<Longrightarrow> disk_entries (setMeta k m s) = disk_entries s + (if disk_meta s k = None then 1 else 0)"
    using ob disk_views_map(2) [of s k]
    by (simp add: setMeta_def keys_ok_def disk_entries_def sum_objs_update split: if_splits)
  show "same_counters s (setMeta k m s)" "metaCache (setMeta k m s) = metaCache s"
    "inodes (setMeta k m s) = inodes s" "nextIno (setMeta k m s) = nextIno s"
    by (simp_all add: setMeta_def same_counters_def)
qed

subsection \<open>Accounting and coherence\<close>

definition acct :: "store \<Rightarrow> bool" where
  "acct s \<longleftrightarrow> keys_ok s \<and>
     (MaxBytes s > 0 \<longrightarrow> usedBytes s = wrap64 (disk_used s) \<and> entryCount s = wrap64 (disk_entries s))"

definition coh :: "store \<Rightarrow> bool" where
  "coh s \<longleftrightarrow> lruc.coherent (disk_meta s) (metaCache s)"

definition quiet :: "io \<Rightarrow> bool" where
  \<comment> \<open>no read of an existing \<open>meta.json\<close>, no directory sync and no removal fails\<close>
  "quiet io \<longleftrightarrow> \<not> fails io ReadMeta \<and> \<not> fails io OpenDir \<and> \<not> fails io SyncDir \<and> \<not> fails io RemoveAll"

lemma acct_cong:
  "acct s \<Longrightarrow> disk s' = disk s \<Longrightarrow> usedBytes s' = usedBytes s \<Longrightarrow> entryCount s' = entryCount s \<Longrightarrow>
   MaxBytes s' = MaxBytes s \<Longrightarrow> acct s'"
  by (simp add: acct_def keys_ok_def disk_used_def disk_entries_def)

lemma coh_cong: "coh s \<Longrightarrow> disk_meta s' = disk_meta s \<Longrightarrow> metaCache s' = metaCache s \<Longrightarrow> coh s'"
  by (simp add: coh_def)

lemma acct_mkdirObj: "acct s \<Longrightarrow> acct (mkdirObj k s)"
  using mkdirObj_effect [where k = k and s = s] by (auto simp: acct_def same_counters_def)

lemma coh_mkdirObj: "coh s \<Longrightarrow> coh (mkdirObj k s)"
  using mkdirObj_effect [where k = k and s = s] by (auto intro: coh_cong)

lemma account_effect:
  assumes "accountMetaTransition oldT oldE (Some m) s = (a, s')"
  shows "disk s' = disk s" "metaCache s' = metaCache s" "reservedBytes s' = reservedBytes s"
    "MaxBytes s' = MaxBytes s" "inodes s' = inodes s" "nextIno s' = nextIno s"
    "fsyncPolicy s' = fsyncPolicy s" "checkpointInterval s' = checkpointInterval s"
    "MaxBytes s > 0 \<Longrightarrow> a = max 0 (metaTotal (Some m) - oldT)"
    "MaxBytes s \<le> 0 \<Longrightarrow> a = 0"
    "MaxBytes s > 0 \<Longrightarrow> int64 (usedBytes s) \<Longrightarrow> usedBytes s' = wrap64 (usedBytes s + (metaTotal (Some m) - oldT))"
    "MaxBytes s > 0 \<Longrightarrow> int64 (entryCount s) \<Longrightarrow> entryCount s' = wrap64 (entryCount s + (if oldE then 0 else 1))"
    "MaxBytes s \<le> 0 \<Longrightarrow> s' = s"
  using assms by (auto simp: accountMetaTransition_def Let_def wrap64_id split: if_splits)

lemma setMeta_publish:
  assumes "acct s" "coh s" "map_of (disk s) k \<noteq> None"
    "accountMetaTransition (metaTotal (disk_meta s k)) (disk_meta s k \<noteq> None) (Some m)
       ((setMeta k m s)\<lparr>metaCache := fst (Add (metaCache s) k m)\<rparr>) = (a, s')"
  shows "acct s'" "coh s'" "disk_meta s' = (disk_meta s)(k \<mapsto> m)" "disk_body s' = disk_body s"
    "reservedBytes s' = reservedBytes s" "MaxBytes s' = MaxBytes s" "inodes s' = inodes s"
    "checkpointInterval s' = checkpointInterval s" "fsyncPolicy s' = fsyncPolicy s" "nextIno s' = nextIno s"
    "usedBytes s' = (if MaxBytes s > 0
       then wrap64 (usedBytes s + (metaTotal (Some m) - metaTotal (disk_meta s k))) else usedBytes s)"
    "a = (if MaxBytes s > 0 then max 0 (metaTotal (Some m) - metaTotal (disk_meta s k)) else 0)"
proof -
  let ?s1 = "(setMeta k m s)\<lparr>metaCache := fst (Add (metaCache s) k m)\<rparr>"
  note E = account_effect [OF assms(4)] and S = setMeta_effect [OF assms(3), of m]
  have v: "disk_meta ?s1 = disk_meta (setMeta k m s)" "disk_body ?s1 = disk_body (setMeta k m s)"
    by (simp_all add: disk_meta_def disk_body_def fun_eq_iff)
  have v': "disk_meta s' = disk_meta ?s1" "disk_body s' = disk_body ?s1"
    using E(1) by (simp_all add: disk_meta_def disk_body_def fun_eq_iff)
  show dm: "disk_meta s' = (disk_meta s)(k \<mapsto> m)" and "disk_body s' = disk_body s"
    using v v' S by simp_all
  show "reservedBytes s' = reservedBytes s" "MaxBytes s' = MaxBytes s" "inodes s' = inodes s"
    "checkpointInterval s' = checkpointInterval s" "fsyncPolicy s' = fsyncPolicy s" "nextIno s' = nextIno s"
    using E S by (simp_all add: same_counters_def)
  show "coh s'"
    using lruc.coherent_add [of "disk_meta s" "metaCache s" k m] assms(2) E(2) dm by (simp add: coh_def)
  have sc: "usedBytes ?s1 = usedBytes s" "entryCount ?s1 = entryCount s" "MaxBytes ?s1 = MaxBytes s"
    using S(6) by (simp_all add: same_counters_def)
  have i64: "MaxBytes s > 0 \<Longrightarrow> int64 (usedBytes s) \<and> int64 (entryCount s)"
    using assms(1) by (simp add: acct_def int64_wrap64)
  show u: "usedBytes s' = (if MaxBytes s > 0
       then wrap64 (usedBytes s + (metaTotal (Some m) - metaTotal (disk_meta s k))) else usedBytes s)"
    using E(11,13) i64 sc by (cases "MaxBytes s > 0") auto
  have e: "MaxBytes s > 0 \<Longrightarrow> entryCount s' = wrap64 (entryCount s + (if disk_meta s k \<noteq> None then 0 else 1))"
    using E(12) i64 sc by auto
  show "a = (if MaxBytes s > 0 then max 0 (metaTotal (Some m) - metaTotal (disk_meta s k)) else 0)"
    using E(9,10) sc by auto
  have d: "disk_used s' = disk_used (setMeta k m s)" "disk_entries s' = disk_entries (setMeta k m s)"
    "keys_ok s' = keys_ok (setMeta k m s)"
    using E(1) by (simp_all add: disk_used_def disk_entries_def keys_ok_def)
  show "acct s'"
    using assms(1) S(3,4,5) u e \<open>MaxBytes s' = MaxBytes s\<close> d by (auto simp: acct_def add_diff_eq)
qed

subsection \<open>Publishing metadata\<close>

definition pub_effect :: "string \<Rightarrow> Meta \<Rightarrow> store \<Rightarrow> int option \<Rightarrow> store \<Rightarrow> bool" where
  \<comment> \<open>the effect of an attempt to publish \<open>m\<close> under \<open>k\<close>: nothing visible changes, or the disk, the LRU
      and the counters move together and the growth of the total is reported\<close>
  "pub_effect k m s r s' \<longleftrightarrow> acct s' \<and> coh s' \<and> disk_body s' = disk_body s \<and>
     reservedBytes s' = reservedBytes s \<and> MaxBytes s' = MaxBytes s \<and> inodes s' = inodes s \<and>
     checkpointInterval s' = checkpointInterval s \<and> fsyncPolicy s' = fsyncPolicy s \<and> nextIno s' = nextIno s \<and>
     (case r of None \<Rightarrow> disk_meta s' = disk_meta s \<and> usedBytes s' = usedBytes s
      | Some a \<Rightarrow> disk_meta s' = (disk_meta s)(k \<mapsto> m) \<and>
          usedBytes s' = (if MaxBytes s > 0
            then wrap64 (usedBytes s + (metaTotal (Some m) - metaTotal (disk_meta s k))) else usedBytes s) \<and>
          a = (if MaxBytes s > 0 then max 0 (metaTotal (Some m) - metaTotal (disk_meta s k)) else 0))"

lemma pub_effect_refl: "acct s \<Longrightarrow> coh s \<Longrightarrow> pub_effect k m s None s"
  by (simp add: pub_effect_def)

lemma pub_effect_mkdir: "acct s \<Longrightarrow> coh s \<Longrightarrow> pub_effect k m s None (mkdirObj k s)"
  using mkdirObj_effect [where k = k and s = s] acct_mkdirObj [of s k] coh_mkdirObj [of s k]
  by (simp add: pub_effect_def same_counters_def)

lemma pub_effect_set:
  assumes "acct s" "coh s"
    "accountMetaTransition (metaTotal (disk_meta s k)) (disk_meta s k \<noteq> None) (Some m)
       ((setMeta k m (mkdirObj k s))\<lparr>metaCache := fst (Add (metaCache s) k m)\<rparr>) = (a, s')"
  shows "pub_effect k m s (Some a) s'"
proof -
  note M = mkdirObj_effect [where k = k and s = s]
  have "accountMetaTransition (metaTotal (disk_meta (mkdirObj k s) k)) (disk_meta (mkdirObj k s) k \<noteq> None) (Some m)
       ((setMeta k m (mkdirObj k s))\<lparr>metaCache := fst (Add (metaCache (mkdirObj k s)) k m)\<rparr>) = (a, s')"
    using assms(3) M(1,8) by simp
  from setMeta_publish [OF acct_mkdirObj [OF assms(1)] coh_mkdirObj [OF assms(2)] M(4) this] M
  show ?thesis by (simp add: pub_effect_def same_counters_def)
qed

lemma publish_effect:
  assumes "acct s" "coh s" "quiet io" "publish io k (disk_meta s k) m s = (r, s')"
  shows "pub_effect k m s (case r of Inl _ \<Rightarrow> None | Inr a \<Rightarrow> Some a) s'"
proof (cases rule: writeMetaLocked_cases [of io k m s])
  case (failed e)
  with assms show ?thesis by (auto simp: publish_def pub_effect_refl)
next
  case (failed_mkdir e)
  with assms show ?thesis by (auto simp: publish_def pub_effect_mkdir)
next
  case ok
  have fs: "maybeFsyncDir io (setMeta k m (mkdirObj k s)) = None"
    using assms(3) by (simp add: maybeFsyncDir_def quiet_def)
  have mc: "metaCache (setMeta k m (mkdirObj k s)) = metaCache s"
    by (simp add: setMeta_def mkdirObj_effect)
  obtain a s3 where a: "accountMetaTransition (metaTotal (disk_meta s k)) (disk_meta s k \<noteq> None) (Some m)
      ((setMeta k m (mkdirObj k s))\<lparr>metaCache := fst (Add (metaCache s) k m)\<rparr>) = (a, s3)"
    by fastforce
  with assms(4) ok fs mc have "r = Inr a" "s' = s3" by (auto simp: publish_def Let_def)
  with pub_effect_set [OF assms(1,2) a] show ?thesis by simp
qed

subsection \<open>Writers\<close>

definition writer_ok :: "SegmentWriter \<Rightarrow> bool" where
  "writer_ok w \<longleftrightarrow> reserved w \<ge> 0 \<and> (closed w \<longrightarrow> reserved w = 0) \<and> written w \<ge> 0"

definition same_writer :: "SegmentWriter \<Rightarrow> SegmentWriter \<Rightarrow> bool" where
  "same_writer w w' \<longleftrightarrow> wkey w' = wkey w \<and> wino w' = wino w \<and> params w' = params w \<and>
     dynamicQuota w' = dynamicQuota w"

definition moved :: "SegmentWriter \<Rightarrow> store \<Rightarrow> SegmentWriter \<Rightarrow> store \<Rightarrow> bool" where
  \<comment> \<open>reservations move with the writer that owns them\<close>
  "moved w s w' s' \<longleftrightarrow> MaxBytes s' = MaxBytes s \<and>
     (int64 (reservedBytes s) \<longrightarrow> reservedBytes s' = wrap64 (reservedBytes s + (reserved w' - reserved w)))"

lemma moved_refl: "moved w s w s"
  by (simp add: moved_def)

lemma moved_trans: "moved w s w1 s1 \<Longrightarrow> moved w1 s1 w2 s2 \<Longrightarrow> moved w s w2 s2"
  by (auto simp: moved_def)

lemma releaseReserved_effect:
  assumes "releaseReserved n (w, s) = (w', s')"
  shows "same_writer w w'" "moved w s w' s'" "writer_ok w \<Longrightarrow> writer_ok w'"
    "s' = s\<lparr>reservedBytes := reservedBytes s'\<rparr>" "written w' = written w" "closed w' = closed w"
    "lastCheckpoint w' = lastCheckpoint w"
    "reserved w' = (if n \<le> 0 \<or> reserved w \<le> 0 then reserved w else reserved w - min n (reserved w))"
  using assms
  by (auto simp: releaseReserved_def releaseReservation_def Let_def same_writer_def moved_def
      writer_ok_def split: if_splits)

definition wstep :: "SegmentWriter \<Rightarrow> store \<Rightarrow> SegmentWriter \<Rightarrow> store \<Rightarrow> bool" where
  "wstep w s w' s' \<longleftrightarrow> same_writer w w' \<and> moved w s w' s' \<and> (writer_ok w \<longrightarrow> writer_ok w') \<and> acct s' \<and> coh s' \<and>
     disk_body s' = disk_body s \<and> nextIno s' = nextIno s \<and>
     checkpointInterval s' = checkpointInterval s \<and> fsyncPolicy s' = fsyncPolicy s"

definition growth :: "SegmentWriter \<Rightarrow> Meta \<Rightarrow> store \<Rightarrow> SegmentWriter \<Rightarrow> store \<Rightarrow> bool" where
  \<comment> \<open>the entry of the writer's key is kept, or becomes \<open>m\<close>; what the total grows by is counted as
      used and released from the writer's reservation\<close>
  "growth w m s w' s' \<longleftrightarrow>
     disk_meta s' = disk_meta s \<and> usedBytes s' = usedBytes s \<and> reserved w' = reserved w \<or>
     disk_meta s' = (disk_meta s)(wkey w \<mapsto> m) \<and>
     (let d = metaTotal (Some m) - metaTotal (disk_meta s (wkey w))
      in usedBytes s' = (if MaxBytes s > 0 then wrap64 (usedBytes s + d) else usedBytes s) \<and>
         (reserved w \<ge> 0 \<longrightarrow>
            reserved w' = reserved w - (if MaxBytes s > 0 then min (max 0 d) (reserved w) else 0)))"

lemma growth_cong: "reserved w0 = reserved w \<Longrightarrow> wkey w0 = wkey w \<Longrightarrow> growth w0 = growth w"
  by (simp add: growth_def fun_eq_iff)

lemma wstep_refl: "acct s \<Longrightarrow> coh s \<Longrightarrow> wstep w s w s"
  by (simp add: wstep_def same_writer_def moved_refl)

lemma wstep_trans: "wstep w s w1 s1 \<Longrightarrow> wstep w1 s1 w2 s2 \<Longrightarrow> wstep w s w2 s2"
  by (auto simp: wstep_def same_writer_def intro: moved_trans)

lemma disk_views_cong:
  "disk s' = disk s \<Longrightarrow> disk_meta s' = disk_meta s \<and> disk_body s' = disk_body s"
  by (simp add: disk_meta_def disk_body_def fun_eq_iff)

lemma release_wstep:
  assumes "acct s" "coh s" "releaseReserved n (w, s) = (w', s')"
  shows "wstep w s w' s'" "disk_meta s' = disk_meta s" "usedBytes s' = usedBytes s" "inodes s' = inodes s"
proof -
  note R = releaseReserved_effect [OF assms(3)]
  obtain r where s': "s' = s\<lparr>reservedBytes := r\<rparr>" using R(4) by blast
  have v: "disk_meta s' = disk_meta s \<and> disk_body s' = disk_body s" by (rule disk_views_cong) (simp add: s')
  have "acct s'" by (rule acct_cong [OF assms(1)]) (simp_all add: s')
  moreover have "coh s'" by (rule coh_cong [OF assms(2)]) (use v in \<open>simp_all add: s'\<close>)
  ultimately show "wstep w s w' s'" using R(1,2,3) v by (simp add: wstep_def s')
  show "disk_meta s' = disk_meta s" "usedBytes s' = usedBytes s" "inodes s' = inodes s"
    using v by (simp_all add: s')
qed

lemma pub_release:
  assumes "pub_effect (wkey w) m s (Some a) s1" "releaseReserved a (w, s1) = (w', s')"
  shows "wstep w s w' s'" "growth w m s w' s'" "inodes s' = inodes s"
proof -
  have ac: "acct s1" "coh s1" using assms(1) by (simp_all add: pub_effect_def)
  note R = release_wstep [OF ac assms(2)] and E = releaseReserved_effect [OF assms(2)]
  have P: "reservedBytes s1 = reservedBytes s" "MaxBytes s1 = MaxBytes s"
    "disk_meta s1 = (disk_meta s)(wkey w \<mapsto> m)"
    using assms(1) by (simp_all add: pub_effect_def)
  show "wstep w s w' s'"
    using R(1) assms(1) P by (simp add: wstep_def pub_effect_def moved_def)
  show "growth w m s w' s'"
    using R(2,3) assms(1) E(8) by (auto simp: growth_def pub_effect_def Let_def)
  show "inodes s' = inodes s" using R(4) assms(1) by (simp add: pub_effect_def)
qed

lemma pub_none:
  assumes "pub_effect (wkey w) m s None s1"
  shows "wstep w s w s1" "growth w m s w s1" "inodes s1 = inodes s"
  using assms by (auto simp: pub_effect_def wstep_def growth_def same_writer_def moved_def)

lemma checkpoint_effect:
  assumes "acct s" "coh s" "quiet io" "checkpoint io w s = (e, w', s')"
  shows "wstep w s w' s'" "growth w (checkpoint_meta w (disk_meta s (wkey w))) s w' s'"
    "inodes s' = inodes s" "written w' = written w" "closed w' = closed w"
proof -
  let ?k = "wkey w" and ?m = "checkpoint_meta w (disk_meta s (wkey w))"
  have old: "readMeta_ignoring io ?k s = disk_meta s ?k"
    using assms(3) by (simp add: readMeta_disk quiet_def)
  have "wstep w s w' s' \<and> growth w ?m s w' s' \<and> inodes s' = inodes s \<and> written w' = written w \<and> closed w' = closed w"
  proof (cases "written w = lastCheckpoint w")
    case True
    with assms show ?thesis by (auto simp: checkpoint_def wstep_refl growth_def)
  next
    case False
    show ?thesis
    proof (cases rule: writeMetaLocked_cases [of io ?k ?m s])
      case (failed x)
      with assms False old pub_none [of w ?m s s] pub_effect_refl [OF assms(1,2)] show ?thesis
        by (auto simp: checkpoint_def Let_def)
    next
      case (failed_mkdir x)
      with assms False old pub_none [of w ?m s "mkdirObj ?k s"] pub_effect_mkdir [OF assms(1,2)] show ?thesis
        by (auto simp: checkpoint_def Let_def)
    next
      case ok
      have mc: "metaCache (setMeta ?k ?m (mkdirObj ?k s)) = metaCache s"
        by (simp add: setMeta_def mkdirObj_effect)
      obtain a s3 where a: "accountMetaTransition (metaTotal (disk_meta s ?k)) (disk_meta s ?k \<noteq> None) (Some ?m)
          ((setMeta ?k ?m (mkdirObj ?k s))\<lparr>metaCache := fst (Add (metaCache s) ?k ?m)\<rparr>) = (a, s3)"
        by fastforce
      obtain w1 s4 where r: "releaseReserved a (w, s3) = (w1, s4)" by fastforce
      have "w' = w1\<lparr>lastCheckpoint := written w1\<rparr>" "s' = s4"
        using assms(4) False old ok mc a r by (auto simp: checkpoint_def Let_def)
      with pub_release [OF pub_effect_set [OF assms(1,2) a] r] releaseReserved_effect(5,6) [OF r]
      show ?thesis by (auto simp: wstep_def same_writer_def moved_def writer_ok_def growth_def)
    qed
  qed
  then show "wstep w s w' s'" "growth w ?m s w' s'" "inodes s' = inodes s" "written w' = written w"
    "closed w' = closed w" by blast+
qed

lemma commit_effect:
  assumes "acct s" "coh s" "quiet io" "commit io w s = (e, w', s')"
  shows "wstep w s w' s'" "growth w (commit_meta w (disk_meta s (wkey w))) s w' s'"
    "inodes s' = inodes s" "written w' = written w" "closed w' = closed w"
proof -
  let ?k = "wkey w" and ?m = "commit_meta w (disk_meta s (wkey w))"
  have old: "readMeta_ignoring io ?k s = disk_meta s ?k"
    using assms(3) by (simp add: readMeta_disk quiet_def)
  obtain r s1 where p: "publish io ?k (disk_meta s ?k) ?m s = (r, s1)" by fastforce
  note P = publish_effect [OF assms(1,2,3) p]
  have "wstep w s w' s' \<and> growth w ?m s w' s' \<and> inodes s' = inodes s \<and> written w' = written w \<and> closed w' = closed w"
  proof (cases r)
    case (Inl x)
    with assms(4) old p have "w' = w" "s' = s1" by (auto simp: commit_def Let_def)
    with pub_none [of w ?m s s1] P Inl show ?thesis by simp
  next
    case (Inr a)
    with assms(4) old p have r: "releaseReserved a (w, s1) = (w', s')" by (auto simp: commit_def Let_def)
    from pub_release [OF _ r, of ?m s] P Inr releaseReserved_effect(5,6) [OF r] show ?thesis by simp
  qed
  then show "wstep w s w' s'" "growth w ?m s w' s'" "inodes s' = inodes s" "written w' = written w"
    "closed w' = closed w" by blast+
qed

lemma reserveQuota_effect:
  assumes "reserveQuota n s = (ok, s')"
  shows "s' = s\<lparr>reservedBytes := reservedBytes s'\<rparr>"
    "MaxBytes s > 0 \<Longrightarrow> n > 0 \<Longrightarrow> ok \<Longrightarrow> reservedBytes s' = wrap64 (reservedBytes s + n) \<and>
       usedBytes s < MaxBytes s \<and> wrap64 (usedBytes s + reservedBytes s + n) \<le> MaxBytes s"
    "MaxBytes s \<le> 0 \<or> n \<le> 0 \<Longrightarrow> ok \<and> s' = s" "\<not> ok \<Longrightarrow> s' = s"
  using assms by (auto simp: reserveQuota_def split: if_splits)

lemma inodes_inv:
  "acct s \<Longrightarrow> acct (s\<lparr>inodes := f\<rparr>)" "coh s \<Longrightarrow> coh (s\<lparr>inodes := f\<rparr>)"
  "acct s \<Longrightarrow> acct (s\<lparr>reservedBytes := r\<rparr>)" "coh s \<Longrightarrow> coh (s\<lparr>reservedBytes := r\<rparr>)"
  using disk_views_cong [of "s\<lparr>inodes := f\<rparr>" s] disk_views_cong [of "s\<lparr>reservedBytes := r\<rparr>" s]
  by (auto intro: acct_cong coh_cong)

lemma write_body_effect:
  assumes "acct s" "coh s" "dynamicQuota w \<Longrightarrow> MaxBytes s > 0" "p \<noteq> []"
    "write_body short w p s = ((n, err), w', s')"
  shows "wstep w s w' s'" "disk_meta s' = disk_meta s" "usedBytes s' = usedBytes s"
    "n \<le> length p" "written w' = written w + int n" "closed w' = closed w" "closed w \<Longrightarrow> n = 0"
    "inodes s' = (inodes s)(wino w := pwrite (nat (pStart (params w) + written w)) (take n p) (inodes s (wino w)))"
proof -
  let ?off = "nat (pStart (params w) + written w)"
  obtain ok s1 where q: "(if dynamicQuota w then reserveQuota (int (length p)) s else (True, s)) = (ok, s1)"
    by fastforce
  have s1: "s1 = s\<lparr>reservedBytes := reservedBytes s1\<rparr>"
    using q reserveQuota_effect(1) by (auto split: if_splits)
  have "wstep w s w' s' \<and> disk_meta s' = disk_meta s \<and> usedBytes s' = usedBytes s \<and>
    n \<le> length p \<and> written w' = written w + int n \<and> closed w' = closed w \<and> (closed w \<longrightarrow> n = 0) \<and>
    inodes s' = (inodes s)(wino w := pwrite ?off (take n p) (inodes s (wino w)))"
  proof (cases ok)
    case False
    with q have "s1 = s" using reserveQuota_effect(4) by (auto split: if_splits)
    with assms q False show ?thesis by (auto simp: write_body_def wstep_refl pwrite_def)
  next
    case True
    define w1 where "w1 = (if dynamicQuota w then w\<lparr>reserved := reserved w + int (length p)\<rparr> else w)"
    define m where "m = (if closed w then 0
        else case short of None \<Rightarrow> length p | Some k \<Rightarrow> min k (length p - 1))"
    define s2 where "s2 = s1\<lparr>inodes := (inodes s1)(wino w := pwrite ?off (take m p) (inodes s1 (wino w)))\<rparr>"
    obtain w2 s3 where r: "(if dynamicQuota w1 \<and> m < length p
        then releaseReserved (int (length p - m)) (w1, s2) else (w1, s2)) = (w2, s3)" by fastforce
    have res: "n = m" "w' = (if m > 0 then w2\<lparr>written := written w2 + int m\<rparr> else w2)" "s' = s3"
    proof -
      have "write_body short w p s =
          (case (if dynamicQuota w1 \<and> m < length p
                 then releaseReserved (int (length p - m)) (w1, s2) else (w1, s2)) of
             (w2, s3) \<Rightarrow> ((m, if m < length p then Some (IOErr WriteBody) else None),
                          (if m > 0 then w2\<lparr>written := written w2 + int m\<rparr> else w2), s3))"
      proof -
        have q': "(if dynamicQuota w then reserveQuota (int (length p)) s else (True, s)) = (True, s1)"
          using q True by simp
        show ?thesis
          unfolding write_body_def q' Let_def w1_def m_def s2_def prod.case bool.case ..
      qed
      with assms(5) r show "n = m" "w' = (if m > 0 then w2\<lparr>written := written w2 + int m\<rparr> else w2)" "s' = s3"
        by auto
    qed
    have m: "m \<le> length p" by (auto simp: m_def split: option.split)
    have ac2: "acct s2" "coh s2"
      unfolding s2_def using assms(1,2) by (subst s1, intro inodes_inv, simp)+
    have mv: "moved w s w1 s2"
    proof (cases "dynamicQuota w")
      case dq: True
      with q True assms(3,4) reserveQuota_effect(2) [of "int (length p)" s ok s1]
      have "reservedBytes s1 = wrap64 (reservedBytes s + int (length p))" by simp
      moreover have "MaxBytes s1 = MaxBytes s" by (subst s1) simp
      ultimately show ?thesis using dq by (simp add: moved_def w1_def s2_def)
    qed (use q True in \<open>simp add: moved_def w1_def s2_def\<close>)
    have v2: "disk_meta s2 = disk_meta s" "disk_body s2 = disk_body s" "usedBytes s2 = usedBytes s"
      "nextIno s2 = nextIno s" "checkpointInterval s2 = checkpointInterval s" "fsyncPolicy s2 = fsyncPolicy s"
      "inodes s2 = (inodes s)(wino w := pwrite ?off (take m p) (inodes s (wino w)))"
      unfolding s2_def by (subst s1, simp add: disk_meta_def disk_body_def fun_eq_iff)+
    have fin: "same_writer w1 w2 \<and> moved w1 s2 w2 s3 \<and> acct s3 \<and> coh s3 \<and> disk_meta s3 = disk_meta s2 \<and>
        disk_body s3 = disk_body s2 \<and> usedBytes s3 = usedBytes s2 \<and> inodes s3 = inodes s2 \<and> nextIno s3 = nextIno s2 \<and>
        checkpointInterval s3 = checkpointInterval s2 \<and> fsyncPolicy s3 = fsyncPolicy s2 \<and>
        written w2 = written w \<and> closed w2 = closed w \<and> (writer_ok w \<longrightarrow> writer_ok w2)"
    proof (cases "dynamicQuota w1 \<and> m < length p")
      case True
      with r have r': "releaseReserved (int (length p - m)) (w1, s2) = (w2, s3)" by simp
      have "reserved w1 = reserved w + int (length p)" using True by (auto simp: w1_def split: if_splits)
      moreover have "int (length p - m) > 0" using True by simp
      ultimately have "writer_ok w2" if "writer_ok w"
        using that True releaseReserved_effect(5,6,8) [OF r']
        by (auto simp: writer_ok_def w1_def m_def split: if_splits)
      with release_wstep [OF ac2 r'] releaseReserved_effect(1,2,5,6) [OF r'] show ?thesis
        by (auto simp: wstep_def w1_def)
    next
      case False
      with r have "w2 = w1" "s3 = s2" by auto
      moreover have "writer_ok w1" if "writer_ok w"
        using that False assms(4) by (auto simp: writer_ok_def w1_def m_def split: if_splits)
      ultimately show ?thesis using ac2 by (auto simp: same_writer_def moved_refl w1_def)
    qed
    have "same_writer w w2" using fin by (auto simp: same_writer_def w1_def)
    moreover have "moved w s w2 s3" using mv fin moved_trans by blast
    ultimately show ?thesis using fin v2 m
      by (auto simp: res wstep_def same_writer_def writer_ok_def moved_def m_def)
  qed
  then show "wstep w s w' s'" "disk_meta s' = disk_meta s" "usedBytes s' = usedBytes s"
    "n \<le> length p" "written w' = written w + int n" "closed w' = closed w" "closed w \<Longrightarrow> n = 0"
    "inodes s' = (inodes s)(wino w := pwrite ?off (take n p) (inodes s (wino w)))"
    by blast+
qed

lemma checkpoint_meta_cong:
  "params w' = params w \<Longrightarrow> written w' = written w \<Longrightarrow> checkpoint_meta w' = checkpoint_meta w"
  by (rule ext) (simp only: checkpoint_meta_def add_written_span_def)

lemma commit_meta_cong:
  "params w' = params w \<Longrightarrow> written w' = written w \<Longrightarrow> commit_meta w' = commit_meta w"
  by (rule ext) (simp only: commit_meta_def add_written_span_def)

lemma Write_effect:
  assumes "acct s" "coh s" "quiet io" "dynamicQuota w \<Longrightarrow> MaxBytes s > 0"
    "Write io short w p s = ((n, err), w', s')"
  obtains w1 s1 where "wstep w s w1 s1" "disk_meta s1 = disk_meta s" "usedBytes s1 = usedBytes s"
    "n \<le> length p" "written w1 = written w + int n" "closed w1 = closed w" "closed w \<Longrightarrow> n = 0"
    "inodes s1 = (inodes s)(wino w := pwrite (nat (pStart (params w) + written w)) (take n p) (inodes s (wino w)))"
    "wstep w1 s1 w' s'" "growth w1 (checkpoint_meta w1 (disk_meta s (wkey w))) s1 w' s'"
    "inodes s' = inodes s1" "written w' = written w1" "closed w' = closed w1"
    "w1 = w \<and> s1 = s \<or> (\<exists>e. write_body short w p s = ((n, e), w1, s1))"
proof (cases "p = []")
  case True
  with assms have "n = 0" "w' = w" "s' = s" by (auto simp: Write_def)
  with assms(1,2) show ?thesis
    by (intro that [of w s]) (auto simp: wstep_refl growth_def pwrite_def)
next
  case False
  obtain e w1 s1 where b: "write_body short w p s = ((n, e), w1, s1)"
    using assms(5) False by (auto simp: Write_def split: prod.splits if_splits)
  note B = write_body_effect [OF assms(1,2,4) False b]
  have ac: "acct s1" "coh s1" using B(1) by (simp_all add: wstep_def)
  have "wstep w1 s1 w' s' \<and> growth w1 (checkpoint_meta w1 (disk_meta s (wkey w))) s1 w' s' \<and>
      inodes s' = inodes s1 \<and> written w' = written w1 \<and> closed w' = closed w1"
  proof (cases "e = None \<and> checkpointInterval s1 > 0 \<and> written w1 - lastCheckpoint w1 \<ge> checkpointInterval s1")
    case True
    then obtain x where c: "checkpoint io w1 s1 = (x, w', s')"
      using assms(5) False b by (auto simp: Write_def split: prod.splits)
    have "wkey w1 = wkey w" using B(1) by (simp add: wstep_def same_writer_def)
    with checkpoint_effect [OF ac assms(3) c] B(2) show ?thesis by simp
  next
    case nc: False
    then have "w' = w1" "s' = s1" using assms(5) False b by (auto simp: Write_def split: prod.splits if_splits)
    then show ?thesis using ac by (simp add: wstep_refl growth_def)
  qed
  with B b show ?thesis by (intro that [of w1 s1]) auto
qed

lemma CloseSegment_effect:
  assumes "acct s" "coh s" "quiet io" "writer_ok w" "\<not> closed w" "CloseSegment io w s = (e, w', s')"
  obtains w1 s1 where "wstep w s w' s'" "written w' = written w" "closed w'" "reserved w' = 0"
    "inodes s' = inodes s" "disk_meta s' = disk_meta s1" "usedBytes s' = usedBytes s1"
    "growth w (commit_meta w (disk_meta s (wkey w))) s w1 s1"
proof -
  let ?w0 = "w\<lparr>closed := True\<rparr>"
  obtain e1 w1 s1 where c: "commit io ?w0 s = (e1, w1, s1)" by (cases "commit io ?w0 s") auto
  obtain r: "releaseReserved (reserved w) (w1, s1) = (w', s')"
    using assms(5,6) c by (auto simp: CloseSegment_def Let_def)
  note C = commit_effect [OF assms(1,2,3) c]
  have ac1: "acct s1" "coh s1" using C(1) by (simp_all add: wstep_def)
  note R = release_wstep [OF ac1 r] and E = releaseReserved_effect [OF r]
  have le: "0 \<le> reserved w1" "reserved w1 \<le> reserved w"
    using C(2) assms(4) by (auto simp: growth_def Let_def writer_ok_def split: if_splits)
  have res0: "reserved w' = 0"
    using E(8) le by (auto split: if_splits)
  have "wstep w s w' s'"
    using C(1,4,5) R(1) E(5,6) assms(4) res0
    by (auto simp: wstep_def same_writer_def writer_ok_def moved_def)
  moreover have "growth w (commit_meta w (disk_meta s (wkey w))) s w1 s1"
    using C(2) commit_meta_cong [of ?w0 w] growth_cong [of ?w0 w] by simp
  ultimately show ?thesis
    using res0 C(3,4,5) R E(5,6) by (intro that [of s1 w1]) simp_all
qed

subsection \<open>Opening a segment\<close>

lemma openBody_effect:
  assumes "openBody k s = (i, s')" "map_of (disk s) k \<noteq> None"
  shows "disk_meta s' = disk_meta s" "disk_body s' = (disk_body s)(k \<mapsto> i)"
    "disk_body s k = Some i \<and> s' = s \<or>
     disk_body s k = None \<and> i = nextIno s \<and> inodes s' = (inodes s)(i := []) \<and> nextIno s' = Suc (nextIno s)"
    "acct s \<Longrightarrow> acct s'" "coh s \<Longrightarrow> coh s'" "same_counters s s'"
proof -
  obtain ob where ob: "map_of (disk s) k = Some ob" using assms(2) by auto
  have "disk_meta s' = disk_meta s \<and> disk_body s' = (disk_body s)(k \<mapsto> i) \<and>
    (disk_body s k = Some i \<and> s' = s \<or>
     disk_body s k = None \<and> i = nextIno s \<and> inodes s' = (inodes s)(i := []) \<and> nextIno s' = Suc (nextIno s)) \<and>
    (acct s \<longrightarrow> acct s') \<and> same_counters s s' \<and> metaCache s' = metaCache s"
  proof (cases "body ob")
    case (Some j)
    with assms(1) ob have "i = j" "s' = s" by (auto simp: openBody_def)
    with Some ob show ?thesis by (auto simp: disk_body_def fun_eq_iff same_counters_def)
  next
    case None
    with assms(1) ob have r: "i = nextIno s"
      "s' = s\<lparr>disk := AList.update k (ob\<lparr>body := Some (nextIno s)\<rparr>) (disk s),
              inodes := (inodes s)(nextIno s := []), nextIno := Suc (nextIno s)\<rparr>"
      by (auto simp: openBody_def)
    have v: "disk_meta s' = disk_meta s \<and> disk_body s' = (disk_body s)(k \<mapsto> i)"
      using ob by (auto simp: r disk_meta_def disk_body_def update_conv' fun_eq_iff)
    have "acct s'" if "acct s"
      using that ob by (auto simp: r acct_def keys_ok_def disk_used_def disk_entries_def sum_objs_update distinct_update)
    with v None ob show ?thesis by (simp add: r same_counters_def disk_body_def)
  qed
  then show "disk_meta s' = disk_meta s" "disk_body s' = (disk_body s)(k \<mapsto> i)"
    "disk_body s k = Some i \<and> s' = s \<or>
     disk_body s k = None \<and> i = nextIno s \<and> inodes s' = (inodes s)(i := []) \<and> nextIno s' = Suc (nextIno s)"
    "acct s \<Longrightarrow> acct s'" "coh s \<Longrightarrow> coh s'" "same_counters s s'"
    by (auto simp: coh_def)
qed

definition begin_fail :: "store \<Rightarrow> store \<Rightarrow> bool" where
  \<comment> \<open>a segment that could not be opened leaves no trace in metadata, counters or reservations; an
      empty directory, an empty body file or a body file of the announced size may have appeared\<close>
  "begin_fail s s' \<longleftrightarrow> acct s' \<and> coh s' \<and> disk_meta s' = disk_meta s \<and> usedBytes s' = usedBytes s \<and>
     MaxBytes s' = MaxBytes s \<and> checkpointInterval s' = checkpointInterval s \<and>
     (MaxBytes s > 0 \<longrightarrow> int64 (reservedBytes s) \<longrightarrow> reservedBytes s' = reservedBytes s)"

lemma releaseReservation_inv:
  "acct s \<Longrightarrow> acct (releaseReservation n s)" "coh s \<Longrightarrow> coh (releaseReservation n s)"
  "disk_meta (releaseReservation n s) = disk_meta s" "disk_body (releaseReservation n s) = disk_body s"
  "usedBytes (releaseReservation n s) = usedBytes s" "MaxBytes (releaseReservation n s) = MaxBytes s"
  "checkpointInterval (releaseReservation n s) = checkpointInterval s"
  "inodes (releaseReservation n s) = inodes s" "nextIno (releaseReservation n s) = nextIno s"
  "reservedBytes (releaseReservation n s) = (if n \<le> 0 then reservedBytes s else wrap64 (reservedBytes s - n))"
  by (auto simp: releaseReservation_def inodes_inv disk_meta_def disk_body_def fun_eq_iff)

definition truncated :: "SegmentParams \<Rightarrow> nat \<Rightarrow> store \<Rightarrow> store" where
  "truncated p i s =
     (if pTotal p > 0 then s\<lparr>inodes := (inodes s)(i := truncate_to (nat (pTotal p)) (inodes s i))\<rparr> else s)"

lemma truncated_inv:
  "acct s \<Longrightarrow> acct (truncated p i s)" "coh s \<Longrightarrow> coh (truncated p i s)"
  "disk_meta (truncated p i s) = disk_meta s" "disk_body (truncated p i s) = disk_body s"
  "same_counters s (truncated p i s)" "nextIno (truncated p i s) = nextIno s"
  "inodes (truncated p i s) =
     (if pTotal p > 0 then (inodes s)(i := truncate_to (nat (pTotal p)) (inodes s i)) else inodes s)"
  by (auto simp: truncated_def inodes_inv disk_meta_def disk_body_def fun_eq_iff same_counters_def)

definition new_writer :: "string \<Rightarrow> nat \<Rightarrow> SegmentParams \<Rightarrow> int \<Rightarrow> SegmentWriter" where
  "new_writer k i p mx = \<lparr>wkey = k, wino = i, params = p, written = 0, lastCheckpoint = 0, closed = False,
     reserved = quotaReservationFor p,
     dynamicQuota = (quotaReservationFor p = 0 \<and> mx > 0 \<and> pTotal p \<le> 0 \<and> pLength p \<le> 0)\<rparr>"

definition begun :: "string \<Rightarrow> SegmentParams \<Rightarrow> store \<Rightarrow> SegmentWriter \<Rightarrow> store \<Rightarrow> bool" where
  \<comment> \<open>a segment that was opened\<close>
  "begun k p s w s' \<longleftrightarrow> acct s' \<and> coh s' \<and> disk_meta s' = disk_meta s \<and> usedBytes s' = usedBytes s \<and>
     MaxBytes s' = MaxBytes s \<and> checkpointInterval s' = checkpointInterval s \<and>
     validateSegmentParams k p = None \<and>
     w = new_writer k (wino w) p (MaxBytes s) \<and>
     disk_body s' = (disk_body s)(k \<mapsto> wino w) \<and>
     (let base = (case disk_body s k of Some _ \<Rightarrow> inodes s (wino w) | None \<Rightarrow> [])
      in inodes s' = (inodes s)(wino w := (if pTotal p > 0 then truncate_to (nat (pTotal p)) base else base))) \<and>
     (disk_body s k = Some (wino w) \<and> nextIno s' = nextIno s \<or>
      disk_body s k = None \<and> wino w = nextIno s \<and> nextIno s' = Suc (nextIno s)) \<and>
     (MaxBytes s > 0 \<longrightarrow> int64 (reservedBytes s) \<longrightarrow> reservedBytes s' = wrap64 (reservedBytes s + reserved w)) \<and>
     (MaxBytes s > 0 \<longrightarrow> reserved w > 0 \<longrightarrow>
        wrap64 (usedBytes s + reservedBytes s + reserved w) \<le> MaxBytes s)"

end
