(* ===== verification/Store_Ops.thy ===== *)
theory Store_Ops
  imports Store_Inv
begin

text \<open>
  What each remaining operation of the store does to the invariants of \<open>Store_Inv\<close>: opening a segment,
  loading metadata, aliases, redirects and the purge walk.
\<close>

subsection \<open>Opening a segment, continued\<close>

lemma BeginSegment_effect:
  assumes "acct s" "coh s" "BeginSegment io k p s = (r, s')"
  shows "case r of Inl _ \<Rightarrow> begin_fail s s' | Inr w \<Rightarrow> begun k p s w s'"
proof (cases "validateSegmentParams k p")
  case (Some e)
  with assms show ?thesis by (auto simp: BeginSegment_def begin_fail_def)
next
  case None
  let ?q = "quotaReservationFor p"
  obtain ok s1 where q: "reserveQuota ?q s = (ok, s1)" by fastforce
  have s1: "s1 = s\<lparr>reservedBytes := reservedBytes s1\<rparr>" by (rule reserveQuota_effect(1) [OF q])
  show ?thesis
  proof (cases ok)
    case False
    with q reserveQuota_effect(4) [OF q] have "s1 = s" by simp
    with assms None q False show ?thesis by (auto simp: BeginSegment_def begin_fail_def Let_def)
  next
    case True
    note Q = reserveQuota_effect [OF q]
    have res: "MaxBytes s > 0 \<longrightarrow> int64 (reservedBytes s) \<longrightarrow>
        reservedBytes s1 = wrap64 (reservedBytes s + max 0 ?q)"
      using Q(2,3) True by (cases "?q > 0") auto
    have q0: "0 \<le> ?q" by (simp add: quotaReservationFor_def)
    have ac1: "acct s1" "coh s1" using inodes_inv(3,4) assms(1,2) s1 by metis+
    have v1: "disk_meta s1 = disk_meta s" "disk_body s1 = disk_body s" "usedBytes s1 = usedBytes s"
      "MaxBytes s1 = MaxBytes s" "checkpointInterval s1 = checkpointInterval s" "inodes s1 = inodes s"
      "nextIno s1 = nextIno s"
      by (subst s1, simp add: disk_meta_def disk_body_def fun_eq_iff)+
    have rel: "begin_fail s (releaseReservation ?q t)"
      if "acct t" "coh t" "disk_meta t = disk_meta s1" "same_counters s1 t" for t
      using that v1 res q0 by (auto simp: begin_fail_def releaseReservation_inv same_counters_def)
    let ?s2 = "mkdirObj k s1"
    note M = mkdirObj_effect [where k = k and s = s1]
    have ac2: "acct ?s2" "coh ?s2" using ac1 by (simp_all add: acct_mkdirObj coh_mkdirObj)
    obtain i s3 where o: "openBody k ?s2 = (i, s3)" by fastforce
    note O = openBody_effect [OF o M(4)]
    have ac3: "acct s3" "coh s3" using O(4,5) ac2 by auto
    have c3: "same_counters s1 s3" using M(7) O(6) by (simp add: same_counters_def)
    let ?s4 = "truncated p i s3"
    have ac4: "acct ?s4" "coh ?s4" using ac3 by (simp_all add: truncated_inv)
    have c4: "same_counters s1 ?s4" using c3 truncated_inv(5) [of s3 p i] by (simp add: same_counters_def)
    have r: "(r, s') =
       (if fails io MkdirAll then (Inl (IOErr MkdirAll), releaseReservation ?q s1)
        else if fails io OpenBodyFile then (Inl (IOErr OpenBodyFile), releaseReservation ?q ?s2)
        else if pTotal p > 0 \<and> fails io TruncateBody then (Inl (IOErr TruncateBody), releaseReservation ?q s3)
        else if fails io SeekBody then (Inl (IOErr SeekBody), releaseReservation ?q ?s4)
        else (Inr (new_writer k i p (MaxBytes ?s4)), ?s4))"
      using assms(3) None q True o
      by (auto simp: BeginSegment_def Let_def truncated_def new_writer_def split: if_splits)
    have ok: "begun k p s (new_writer k i p (MaxBytes ?s4)) ?s4"
    proof -
      have mx: "MaxBytes ?s4 = MaxBytes s" "reservedBytes ?s4 = reservedBytes s1"
        "usedBytes ?s4 = usedBytes s" "checkpointInterval ?s4 = checkpointInterval s"
        using c4 v1 by (simp_all add: same_counters_def)
      have nw: "wino (new_writer k i p n) = i" "reserved (new_writer k i p n) = ?q" for n
        by (simp_all add: new_writer_def)
      have ino: "inodes ?s4 = (inodes s)(i := (if pTotal p > 0
          then truncate_to (nat (pTotal p)) (case disk_body s k of Some _ \<Rightarrow> inodes s i | None \<Rightarrow> [])
          else (case disk_body s k of Some _ \<Rightarrow> inodes s i | None \<Rightarrow> [])))"
        using O(3) M(2,9) v1 by (auto simp: truncated_inv fun_eq_iff)
      have nx: "disk_body s k = Some i \<and> nextIno ?s4 = nextIno s \<or>
          disk_body s k = None \<and> i = nextIno s \<and> nextIno ?s4 = Suc (nextIno s)"
        using O(3) M(2,10) v1 by (auto simp: truncated_inv)
      have bd: "wrap64 (usedBytes s + reservedBytes s + ?q) \<le> MaxBytes s" if "MaxBytes s > 0" "?q > 0"
        using Q(2) that True by simp
      show ?thesis
        unfolding begun_def Let_def nw mx
        using ac4 None nx bd res q0 O(1,2) M(1,2) v1
        by (simp add: truncated_inv(3,4) ino)
    qed
    show ?thesis
      using r rel [OF ac1] rel [OF ac2] rel [OF ac3] rel [OF ac4] M(1,7) O(1) c3 c4 truncated_inv(3) ok
      by (auto simp: same_counters_def split: if_splits)
  qed
qed

subsection \<open>Loading, aliases, redirects\<close>

lemma LoadMeta_effect:
  assumes "acct s" "coh s" "LoadMeta io k s = (r, s')"
  shows "acct s'" "coh s'" "disk s' = disk s" "inodes s' = inodes s" "reservedBytes s' = reservedBytes s"
    "usedBytes s' = usedBytes s" "MaxBytes s' = MaxBytes s" "nextIno s' = nextIno s"
    "checkpointInterval s' = checkpointInterval s"
    "r = Inr (Some m) \<Longrightarrow> disk_meta s k = Some m"
    "\<not> fails io ReadMeta \<Longrightarrow> r = Inr (disk_meta s k) \<or> disk_meta s k = None \<and> (\<exists>e. r = Inl e)"
proof -
  have C: "lruc.coherent (disk_meta s) (metaCache s)" using assms(2) by (simp add: coh_def)
  obtain v c where g: "Get (metaCache s) k = (v, c)" by fastforce
  let ?s1 = "s\<lparr>metaCache := c\<rparr>"
  have C1: "lruc.coherent (disk_meta s) c" and hit: "v = Some m \<Longrightarrow> disk_meta s k = Some m" for m
    using lruc.coherent_get [OF C, of k] g by auto
  have dm: "disk_meta (s\<lparr>metaCache := x\<rparr>) = disk_meta s" for x by (simp add: disk_meta_def fun_eq_iff)
  have rd: "readMeta io k ?s1 = readMeta io k s" by (simp add: readMeta_def)
  obtain c' where s': "s' = s\<lparr>metaCache := c'\<rparr>" and C': "lruc.coherent (disk_meta s) c'"
    and r: "(\<exists>m. v = Some m \<and> r = Inr (Some m)) \<or> v = None \<and> r = readMeta io k s"
  proof (cases v)
    case (Some m)
    with assms(3) g have "r = Inr (Some m)" "s' = ?s1" by (auto simp: LoadMeta_def)
    with C1 Some show ?thesis by (intro that [of c]) auto
  next
    case None
    show ?thesis
    proof (cases "\<exists>m. readMeta io k s = Inr (Some m)")
      case True
      then obtain m where m: "readMeta io k s = Inr (Some m)" by blast
      with assms(3) g None rd have "r = Inr (Some m)" "s' = s\<lparr>metaCache := fst (Add c k m)\<rparr>"
        by (auto simp: LoadMeta_def Let_def)
      with lruc.coherent_fill [OF C1 readMeta_Some [OF m]] m None show ?thesis
        by (intro that [of "fst (Add c k m)"]) auto
    next
      case False
      with assms(3) g None rd have "r = readMeta io k s" "s' = ?s1"
        by (auto simp: LoadMeta_def Let_def split: sum.splits option.splits)
      with C1 None show ?thesis by (intro that [of c]) auto
    qed
  qed
  show "acct s'" by (rule acct_cong [OF assms(1)]) (simp_all add: s')
  show "coh s'" using C' by (simp add: coh_def s' dm)
  show "disk s' = disk s" "inodes s' = inodes s" "reservedBytes s' = reservedBytes s"
    "usedBytes s' = usedBytes s" "MaxBytes s' = MaxBytes s" "nextIno s' = nextIno s"
    "checkpointInterval s' = checkpointInterval s" by (simp_all add: s')
  show "r = Inr (Some m) \<Longrightarrow> disk_meta s k = Some m" using r hit readMeta_Some by auto
  show "\<not> fails io ReadMeta \<Longrightarrow> r = Inr (disk_meta s k) \<or> disk_meta s k = None \<and> (\<exists>e. r = Inl e)"
    using r hit by (auto simp: readMeta_def disk_meta_def obj_meta_def split: option.splits metafile.splits)
qed

definition alias_meta :: "string \<Rightarrow> string \<Rightarrow> string \<Rightarrow> string \<Rightarrow> Meta" where
  "alias_meta canonicalKey host path rawQuery = zero_meta\<lparr>Version := 1, UpstreamHost := host, MPath := path,
     RawQuery := rawQuery, AliasOf := canonicalKey\<rparr>"

definition sstep :: "string \<Rightarrow> Meta \<Rightarrow> store \<Rightarrow> store \<Rightarrow> bool" where
  \<comment> \<open>an operation that may publish \<open>m\<close> under \<open>k\<close> and owns no reservation\<close>
  "sstep k m s s' \<longleftrightarrow> acct s' \<and> coh s' \<and> disk_body s' = disk_body s \<and> reservedBytes s' = reservedBytes s \<and>
     MaxBytes s' = MaxBytes s \<and> inodes s' = inodes s \<and> checkpointInterval s' = checkpointInterval s \<and>
     nextIno s' = nextIno s \<and>
     (disk_meta s' = disk_meta s \<and> usedBytes s' = usedBytes s \<or>
      disk_meta s' = (disk_meta s)(k \<mapsto> m) \<and>
      usedBytes s' = (if MaxBytes s > 0
        then wrap64 (usedBytes s + (metaTotal (Some m) - metaTotal (disk_meta s k))) else usedBytes s))"

lemma pub_sstep: "pub_effect k m s r s' \<Longrightarrow> sstep k m s s'"
  by (auto simp: pub_effect_def sstep_def split: option.splits)

lemma mkdir_sstep:
  assumes "acct s" "coh s" "sstep k m (mkdirObj k s) s'"
  shows "sstep k m s s'"
  using assms(3) mkdirObj_effect(1,2,7,9,10) [where k = k and s = s]
  by (auto simp: sstep_def same_counters_def split: if_splits)

lemma sstep_refl: "acct s \<Longrightarrow> coh s \<Longrightarrow> sstep k m s s"
  by (simp add: sstep_def)

lemma StoreAlias_effect:
  assumes "acct s" "coh s" "quiet io" "StoreAlias io a c host path q s = (e, s')"
  shows "sstep a (alias_meta c host path q) s s'"
    "\<exists>m. disk_meta s a = Some m \<and> AliasOf m = [] \<Longrightarrow> disk_meta s' = disk_meta s"
proof -
  have "sstep a (alias_meta c host path q) s s' \<and>
    ((\<exists>m. disk_meta s a = Some m \<and> AliasOf m = []) \<longrightarrow> disk_meta s' = disk_meta s)"
  proof (cases "a = [] \<or> c = [] \<or> a = c \<or> fails io MkdirAll")
    case True
    with assms(4) have "s' = s" by (auto simp: StoreAlias_def split: if_splits)
    with assms(1,2) show ?thesis by (simp add: sstep_refl)
  next
    case False
    let ?s1 = "mkdirObj a s"
    note M = mkdirObj_effect [where k = a and s = s]
    have ac: "acct ?s1" "coh ?s1" using assms(1,2) by (simp_all add: acct_mkdirObj coh_mkdirObj)
    have ex: "readMeta_ignoring io a ?s1 = disk_meta ?s1 a"
      using assms(3) by (simp add: readMeta_disk quiet_def)
    show ?thesis
    proof (cases "disk_meta ?s1 a \<noteq> None \<and> AliasOf (the (disk_meta ?s1 a)) = []")
      case True
      with False assms(4) ex have "s' = ?s1" by (auto simp: StoreAlias_def Let_def)
      with mkdir_sstep [OF assms(1,2), of a] sstep_refl [OF ac] M(1) show ?thesis by simp
    next
      case new: False
      obtain r t where p: "publish io a (disk_meta ?s1 a) (alias_meta c host path q) ?s1 = (r, t)" by fastforce
      with False new assms(4) ex have "s' = t"
        by (auto simp: StoreAlias_def Let_def alias_meta_def split: sum.splits)
      with publish_effect [OF ac assms(3) p] have "sstep a (alias_meta c host path q) ?s1 s'"
        by (auto intro: pub_sstep)
      with mkdir_sstep [OF assms(1,2)] new M(1) show ?thesis by auto
    qed
  qed
  then show "sstep a (alias_meta c host path q) s s'"
    "\<exists>m. disk_meta s a = Some m \<and> AliasOf m = [] \<Longrightarrow> disk_meta s' = disk_meta s" by blast+
qed

lemma StoreRedirect_effect:
  assumes "acct s" "coh s" "quiet io" "StoreRedirect io k st host path q loc ct et hs s = (e, s')"
  shows "sstep k (redirect_meta (disk_meta s k) st host path q loc ct et hs) s s'"
proof (cases "\<not> IsCacheableRedirectStatus st \<or> loc = [] \<or> fails io MkdirAll")
  case True
  with assms(4) have "s' = s" by (auto simp: StoreRedirect_def split: if_splits)
  with assms(1,2) show ?thesis by (simp add: sstep_refl)
next
  case False
  let ?s1 = "mkdirObj k s"
  note M = mkdirObj_effect [where k = k and s = s]
  let ?m = "redirect_meta (disk_meta ?s1 k) st host path q loc ct et hs"
  have ac: "acct ?s1" "coh ?s1" using assms(1,2) by (simp_all add: acct_mkdirObj coh_mkdirObj)
  have ex: "readMeta_ignoring io k ?s1 = disk_meta ?s1 k"
    using assms(3) by (simp add: readMeta_disk quiet_def)
  obtain r t where p: "publish io k (disk_meta ?s1 k) ?m ?s1 = (r, t)" by fastforce
  with False assms(4) ex have "s' = t" by (auto simp: StoreRedirect_def Let_def split: sum.splits)
  with publish_effect [OF ac assms(3) p] have "sstep k ?m ?s1 s'" by (auto intro: pub_sstep)
  with mkdir_sstep [OF assms(1,2)] M(1) show ?thesis by simp
qed

subsection \<open>Purging\<close>

definition same_entry :: "Meta \<Rightarrow> Meta \<Rightarrow> bool" where
  "same_entry m t \<longleftrightarrow> metaTotal (Some t) = metaTotal (Some m) \<and> Spans t = Spans m"

definition purged :: "string set \<Rightarrow> store \<Rightarrow> store \<Rightarrow> bool" where
  \<comment> \<open>some objects under \<open>K\<close> are gone, with their metadata, body and accounting; other bodies stay, other
      metadata may have been rewritten for the same bytes\<close>
  "purged K s s' \<longleftrightarrow> acct s' \<and> coh s' \<and> reservedBytes s' = reservedBytes s \<and> MaxBytes s' = MaxBytes s \<and>
     inodes s' = inodes s \<and> nextIno s' = nextIno s \<and> checkpointInterval s' = checkpointInterval s \<and>
     (\<forall>k. disk_body s' k = disk_body s k \<or> k \<in> K \<and> disk_body s' k = None \<and> disk_meta s' k = None) \<and>
     (\<forall>k. disk_meta s' k = None \<longrightarrow> disk_meta s k = None \<or> k \<in> K) \<and>
     (\<forall>k t. disk_meta s' k = Some t \<longrightarrow> (\<exists>m. disk_meta s k = Some m \<and> same_entry m t))"

definition trims_ok :: "(string \<Rightarrow> Meta \<Rightarrow> PurgeDecision \<times> Meta option) \<Rightarrow> bool" where
  \<comment> \<open>a trim rewrites an entry without touching its size or spans\<close>
  "trims_ok decide \<longleftrightarrow> (\<forall>k m t. decide k m = (DecisionTrim, Some t) \<longrightarrow> same_entry m t)"

definition removable :: "(string \<Rightarrow> Meta \<Rightarrow> PurgeDecision \<times> Meta option) \<Rightarrow> string set" where
  "removable decide = {k. \<exists>m. fst (decide k m) = DecisionRemove}"

lemma purged_refl: "acct s \<Longrightarrow> coh s \<Longrightarrow> purged K s s"
  by (auto simp: purged_def same_entry_def)

lemma purged_trans:
  assumes "purged K s s1" "purged K s1 s2"
  shows "purged K s s2"
proof -
  have "disk_body s2 k = disk_body s k \<or> k \<in> K \<and> disk_body s2 k = None \<and> disk_meta s2 k = None" for k
    using assms unfolding purged_def by (metis option.exhaust option.distinct(1))
  moreover have "\<exists>m. disk_meta s k = Some m \<and> same_entry m t" if "disk_meta s2 k = Some t" for k t
    using assms that unfolding purged_def same_entry_def by metis
  moreover have "disk_meta s2 k = None \<longrightarrow> disk_meta s k = None \<or> k \<in> K" for k
    using assms unfolding purged_def by metis
  ultimately show ?thesis using assms by (simp add: purged_def)
qed

lemma disk_meta_delete:
  "disk_meta (s\<lparr>disk := AList.delete k (disk s)\<rparr>) = (disk_meta s)(k := None)"
  "disk_body (s\<lparr>disk := AList.delete k (disk s)\<rparr>) = (disk_body s)(k := None)"
  by (auto simp: disk_meta_def disk_body_def fun_eq_iff delete_conv')

lemma evict_frame [simp]:
  "disk (evictBodyHandle ev s) = disk s" "metaCache (evictBodyHandle ev s) = metaCache s"
  "reservedBytes (evictBodyHandle ev s) = reservedBytes s" "usedBytes (evictBodyHandle ev s) = usedBytes s"
  "entryCount (evictBodyHandle ev s) = entryCount s" "MaxBytes (evictBodyHandle ev s) = MaxBytes s"
  "inodes (evictBodyHandle ev s) = inodes s" "nextIno (evictBodyHandle ev s) = nextIno s"
  "checkpointInterval (evictBodyHandle ev s) = checkpointInterval s"
  by (auto simp: evictBodyHandle_def split: option.split)

lemma removeObject_effect:
  assumes "acct s" "coh s" "quiet io" "disk_meta s k = Some m" "removeObject io k m res s = (e, res', s')"
  shows "e = None" "acct s'" "coh s'" "disk_meta s' = (disk_meta s)(k := None)"
    "disk_body s' = (disk_body s)(k := None)" "reservedBytes s' = reservedBytes s" "MaxBytes s' = MaxBytes s"
    "inodes s' = inodes s" "nextIno s' = nextIno s" "checkpointInterval s' = checkpointInterval s"
    "Purged res' = Purged res + 1" "Trimmed res' = Trimmed res"
    "BytesFreed res' = wrap64 (BytesFreed res + (case Total m of None \<Rightarrow> 0 | Some t \<Rightarrow> t))"
proof -
  define freed where "freed = (case Total m of None \<Rightarrow> 0 | Some t \<Rightarrow> t)"
  have fr: "metaTotal (Some m) = max 0 freed" by (auto simp: metaTotal_def freed_def split: option.split)
  obtain b hs ev where d: "Delete (bodyHandles s) k = (b, hs, ev)" by (cases "Delete (bodyHandles s) k") auto
  have r: "e = None \<and> res' = res\<lparr>BytesFreed := wrap64 (BytesFreed res + freed), Purged := Purged res + 1\<rparr> \<and>
      disk s' = AList.delete k (disk s) \<and> metaCache s' = fst (snd (Delete (metaCache s) k)) \<and>
      usedBytes s' = (if MaxBytes s > 0 \<and> freed > 0 then wrap64 (usedBytes s - freed) else usedBytes s) \<and>
      entryCount s' = (if MaxBytes s > 0 then wrap64 (entryCount s - 1) else entryCount s) \<and>
      reservedBytes s' = reservedBytes s \<and> MaxBytes s' = MaxBytes s \<and> inodes s' = inodes s \<and>
      nextIno s' = nextIno s \<and> checkpointInterval s' = checkpointInterval s"
    using assms(3,5) d by (auto simp: removeObject_def Let_def quiet_def freed_def [symmetric])
  have v: "disk_meta s' = (disk_meta s)(k := None)" "disk_body s' = (disk_body s)(k := None)"
    using r disk_views_cong [of s' "s\<lparr>disk := AList.delete k (disk s)\<rparr>"] by (simp_all add: disk_meta_delete)
  have sums: "disk_used s' = disk_used s - metaTotal (Some m)" "disk_entries s' = disk_entries s - 1" "keys_ok s'"
    using assms(1,4) r disk_views_map [of s k]
    by (simp_all add: disk_used_def disk_entries_def keys_ok_def acct_def sum_objs_delete distinct_delete)
  show "acct s'"
    using assms(1) r sums fr by (auto simp: acct_def)
  show "coh s'" using r v(1) lruc.coherent_del [of "disk_meta s" "metaCache s" k None] assms(2)
    by (simp add: coh_def)
  show "e = None" "disk_meta s' = (disk_meta s)(k := None)"
    "disk_body s' = (disk_body s)(k := None)" "reservedBytes s' = reservedBytes s" "MaxBytes s' = MaxBytes s"
    "inodes s' = inodes s" "nextIno s' = nextIno s" "checkpointInterval s' = checkpointInterval s"
    "Purged res' = Purged res + 1" "Trimmed res' = Trimmed res"
    "BytesFreed res' = wrap64 (BytesFreed res + (case Total m of None \<Rightarrow> 0 | Some t \<Rightarrow> t))"
    using r v by (simp_all add: freed_def)
qed

lemma trimObject_effect:
  assumes "acct s" "coh s" "disk_meta s k = Some m" "same_entry m t"
    "trimObject io k (Some t) res s = (e, res', s')"
  shows "acct s'" "coh s'" "disk_body s' = disk_body s" "reservedBytes s' = reservedBytes s"
    "MaxBytes s' = MaxBytes s" "inodes s' = inodes s" "nextIno s' = nextIno s"
    "checkpointInterval s' = checkpointInterval s"
    "disk_meta s' = (if e = None then (disk_meta s)(k \<mapsto> t) else disk_meta s)"
proof -
  note M = mkdirObj_effect [where k = k and s = s]
  have "acct s' \<and> coh s' \<and> disk_body s' = disk_body s \<and> reservedBytes s' = reservedBytes s \<and>
    MaxBytes s' = MaxBytes s \<and> inodes s' = inodes s \<and> nextIno s' = nextIno s \<and>
    checkpointInterval s' = checkpointInterval s \<and>
    disk_meta s' = (if e = None then (disk_meta s)(k \<mapsto> t) else disk_meta s)"
  proof (cases rule: writeMetaLocked_cases [of io k t s])
    case (failed x)
    with assms show ?thesis by (auto simp: trimObject_def)
  next
    case (failed_mkdir x)
    with assms have "s' = mkdirObj k s" "e \<noteq> None" by (auto simp: trimObject_def)
    with assms(1,2) M show ?thesis by (auto simp: acct_mkdirObj coh_mkdirObj same_counters_def)
  next
    case ok
    let ?s1 = "setMeta k t (mkdirObj k s)"
    note S = setMeta_effect [OF M(4), of t]
    from ok assms(5) have r: "e = None" "s' = ?s1\<lparr>metaCache := fst (Add (metaCache ?s1) k t)\<rparr>"
      by (auto simp: trimObject_def)
    have v: "disk_meta s' = disk_meta ?s1" "disk_body s' = disk_body ?s1"
      by (simp_all add: r disk_meta_def disk_body_def fun_eq_iff)
    have "acct ?s1"
      using acct_mkdirObj [OF assms(1), of k] S(3,4,5,6) M(1) assms(3,4)
      by (auto simp: acct_def same_counters_def same_entry_def)
    then have "acct s'" by (rule acct_cong) (simp_all add: r)
    moreover have "coh s'"
      using lruc.coherent_add [of "disk_meta s" "metaCache s" k t] assms(2) v S(1,7) M(1,8) by (simp add: coh_def r)
    ultimately show ?thesis using v S M r by (simp add: same_counters_def)
  qed
  then show "acct s'" "coh s'" "disk_body s' = disk_body s" "reservedBytes s' = reservedBytes s"
    "MaxBytes s' = MaxBytes s" "inodes s' = inodes s" "nextIno s' = nextIno s"
    "checkpointInterval s' = checkpointInterval s"
    "disk_meta s' = (if e = None then (disk_meta s)(k \<mapsto> t) else disk_meta s)" by blast+
qed

lemma removeObject_purged:
  assumes "acct s" "coh s" "quiet io" "disk_meta s k = Some m" "removeObject io k m res s = (e, res', s')" "k \<in> K"
  shows "purged K s s'"
  using removeObject_effect [OF assms(1-5)] assms(6) by (auto simp: purged_def same_entry_def)

lemma trimObject_purged:
  assumes "acct s" "coh s" "disk_meta s k = Some m" "same_entry m t" "trimObject io k (Some t) res s = (e, res', s')"
  shows "purged K s s'"
  using trimObject_effect [OF assms] assms(3,4) by (auto simp: purged_def same_entry_def)

lemma purge_loop_purged:
  assumes "quiet io" "trims_ok decide"
  shows "acct s \<Longrightarrow> coh s \<Longrightarrow> purge_loop io decide ks res s = (e, res', s') \<Longrightarrow> purged (removable decide) s s'"
proof (induction ks arbitrary: res s)
  case Nil
  then show ?case by (simp add: purged_refl)
next
  case (Cons k ks)
  show ?case
  proof (cases "\<exists>m. readMeta io k s = Inr (Some m)")
    case False
    then have "purge_loop io decide ks res s = (e, res', s')"
      using Cons.prems(3) by (auto split: sum.splits option.splits)
    with Cons show ?thesis by blast
  next
    case True
    then obtain m where m: "readMeta io k s = Inr (Some m)" by blast
    have dm: "disk_meta s k = Some m" by (rule readMeta_Some [OF m])
    obtain d tm where dec: "decide k m = (d, tm)" by fastforce
    let ?act = "case decide k m of (DecisionKeep, _) \<Rightarrow> (None, res, s)
        | (DecisionTrim, trimmed) \<Rightarrow> trimObject io k trimmed res s
        | (DecisionRemove, _) \<Rightarrow> removeObject io k m res s"
    obtain e1 r1 s1 where act: "?act = (e1, r1, s1)" by (cases ?act) auto
    have p1: "purged (removable decide) s s1"
    proof (cases d)
      case DecisionKeep
      with act dec Cons.prems show ?thesis by (simp add: purged_refl)
    next
      case DecisionTrim
      show ?thesis
      proof (cases tm)
        case None
        with act dec DecisionTrim Cons.prems show ?thesis by (simp add: trimObject_def purged_refl)
      next
        case (Some t)
        with act dec DecisionTrim have "trimObject io k (Some t) res s = (e1, r1, s1)" by simp
        moreover have "same_entry m t" using assms(2) dec DecisionTrim Some by (simp add: trims_ok_def)
        ultimately show ?thesis using trimObject_purged Cons.prems(1,2) dm by blast
      qed
    next
      case DecisionRemove
      with act dec have "removeObject io k m res s = (e1, r1, s1)" by simp
      moreover have "k \<in> removable decide" using dec DecisionRemove by (auto simp: removable_def intro!: exI [of _ m])
      ultimately show ?thesis using removeObject_purged Cons.prems(1,2) assms(1) dm by blast
    qed
    show ?thesis
    proof (cases e1)
      case None
      then have "purge_loop io decide ks r1 s1 = (e, res', s')"
        using Cons.prems(3) m act by simp
      with Cons.IH [of s1 r1] p1 have "purged (removable decide) s1 s'" by (simp add: purged_def)
      with p1 show ?thesis by (rule purged_trans)
    next
      case (Some x)
      then have "s' = s1" using Cons.prems(3) m act by simp
      with p1 show ?thesis by simp
    qed
  qed
qed

lemma PurgeOrTrim_purged:
  assumes "acct s" "coh s" "quiet io" "trims_ok decide" "PurgeOrTrim io decide s = (e, res', s')"
  shows "purged (removable decide) s s'"
  using assms purge_loop_purged [OF assms(3,4,1,2)]
  by (auto simp: PurgeOrTrim_def Let_def purged_refl split: if_splits)

subsection \<open>Contents of published metadata\<close>

definition old_spans :: "Meta option \<Rightarrow> span list" where
  "old_spans old = (case old of None \<Rightarrow> [] | Some m \<Rightarrow> Spans m)"

lemma meta_sel:
  "Spans (m\<lparr>Total := x1\<rparr>) = Spans m" "Spans (m\<lparr>StatusCode := x2\<rparr>) = Spans m" "Spans (m\<lparr>ETag := x3\<rparr>) = Spans m"
  "Spans (m\<lparr>ContentType := x3\<rparr>) = Spans m" "Spans (m\<lparr>UpstreamHost := x3\<rparr>) = Spans m"
  "Spans (m\<lparr>MPath := x3\<rparr>) = Spans m" "Spans (m\<lparr>RawQuery := x3\<rparr>) = Spans m" "Spans (m\<lparr>Spans := x4\<rparr>) = x4"
  "Total (m\<lparr>Total := x1\<rparr>) = x1" "Total (m\<lparr>StatusCode := x2\<rparr>) = Total m" "Total (m\<lparr>ETag := x3\<rparr>) = Total m"
  "Total (m\<lparr>ContentType := x3\<rparr>) = Total m" "Total (m\<lparr>UpstreamHost := x3\<rparr>) = Total m"
  "Total (m\<lparr>MPath := x3\<rparr>) = Total m" "Total (m\<lparr>RawQuery := x3\<rparr>) = Total m" "Total (m\<lparr>Spans := x4\<rparr>) = Total m"
  "Spans (if c then a else b) = (if c then Spans a else Spans b)"
  "Total (if c then a else b) = (if c then Total a else Total b)"
  by simp_all

lemma Total_add_origin: "Total (add_origin p m) = Total m"
  by (simp add: add_origin_def Let_def)

lemma Total_merge: "Total (mergeExtraHeaders m e) = Total m"
  by (simp add: mergeExtraHeaders_def)

lemma Total_fresh: "Total (case old of None \<Rightarrow> fresh_meta p | Some m \<Rightarrow> m) = (case old of None \<Rightarrow> None | Some m \<Rightarrow> Total m)"
  by (simp add: fresh_meta_def zero_meta_def split: option.split)

lemma Total_commit_meta:
  "Total (commit_meta w old) = (if pTotal (params w) > 0 then Some (pTotal (params w))
     else if pStatus (params w) = 200 \<and> pStart (params w) = 0 \<and> pLength (params w) < 0 \<and> written w > 0
     then Some (written w) else (case old of None \<Rightarrow> None | Some m \<Rightarrow> Total m))"
  unfolding commit_meta_def Let_def
  by (simp only: Total_merge meta_sel Total_add_origin Total_fresh add_written_span_def if_cancel)

lemma Total_checkpoint_meta:
  "Total (checkpoint_meta w old) = (if pTotal (params w) > 0 then Some (pTotal (params w))
     else (case old of None \<Rightarrow> None | Some m \<Rightarrow> Total m))"
  unfolding checkpoint_meta_def Let_def
  by (simp only: Total_merge meta_sel Total_add_origin Total_fresh add_written_span_def if_cancel)

lemma Spans_add_origin: "Spans (add_origin p m) = Spans m"
  by (simp add: add_origin_def Let_def)

lemma Spans_merge: "Spans (mergeExtraHeaders m e) = Spans m"
  by (simp add: mergeExtraHeaders_def)

lemma Spans_fresh: "Spans (case old of None \<Rightarrow> fresh_meta p | Some m \<Rightarrow> m) = old_spans old"
  by (simp add: old_spans_def fresh_meta_def zero_meta_def split: option.split)

lemma Spans_commit_meta:
  "Spans (commit_meta w old) = (if written w > 0
     then record_span (old_spans old) (pStart (params w)) (wrap64 (pStart (params w) + written w)) else old_spans old)"
  unfolding commit_meta_def Let_def
  by (simp only: Spans_merge meta_sel Spans_add_origin Spans_fresh add_written_span_def if_cancel)

lemma Spans_checkpoint_meta:
  "Spans (checkpoint_meta w old) = record_span (old_spans old) (pStart (params w)) (wrap64 (pStart (params w) + written w))"
  unfolding checkpoint_meta_def Let_def
  by (simp only: Spans_merge meta_sel Spans_add_origin Spans_fresh add_written_span_def if_cancel)

end
