(* ===== verification/Store_Sys.thy ===== *)
theory Store_Sys
  imports Store_Ops "HOL-Library.Multiset"
begin

text \<open>
  The store as a system: any sequence of its operations by any number of segment writers
  (\<open>sys_exec\<close>, \<open>sys_reach\<close>), the invariant of its counters along every run, and the start-up scan
  that establishes it. Operations interleave at the granularity of the store's critical sections.
\<close>

subsection \<open>Runs of the store\<close>

record sys =
  st :: store
  ws :: "SegmentWriter list"

datatype store_op =
    OLoad io string
  | OBegin io string SegmentParams
  | OWrite io "nat option" nat string
  | OClose io nat
  | OAlias io string string string string string
  | ORedirect io string int string string string string string string "(string \<times> string) list"
  | OPurge io "string \<Rightarrow> Meta \<Rightarrow> PurgeDecision \<times> Meta option"

fun op_io :: "store_op \<Rightarrow> io" where
  "op_io (OLoad io _) = io"
| "op_io (OBegin io _ _) = io"
| "op_io (OWrite io _ _ _) = io"
| "op_io (OClose io _) = io"
| "op_io (OAlias io _ _ _ _ _) = io"
| "op_io (ORedirect io _ _ _ _ _ _ _ _ _) = io"
| "op_io (OPurge io _) = io"

fun sys_exec :: "store_op \<Rightarrow> sys \<Rightarrow> sys" where
  "sys_exec (OLoad io k) S = S\<lparr>st := snd (LoadMeta io k (st S))\<rparr>"
| "sys_exec (OBegin io k p) S =
     (case BeginSegment io k p (st S) of
        (Inl _, s) \<Rightarrow> S\<lparr>st := s\<rparr>
      | (Inr w, s) \<Rightarrow> S\<lparr>st := s, ws := ws S @ [w]\<rparr>)"
| "sys_exec (OWrite io short i p) S =
     (if i < length (ws S)
      then (case Write io short (ws S ! i) p (st S) of (_, w, s) \<Rightarrow> S\<lparr>st := s, ws := (ws S)[i := w]\<rparr>) else S)"
| "sys_exec (OClose io i) S =
     (if i < length (ws S)
      then (case CloseSegment io (ws S ! i) (st S) of (_, w, s) \<Rightarrow> S\<lparr>st := s, ws := (ws S)[i := w]\<rparr>) else S)"
| "sys_exec (OAlias io a c h p q) S = S\<lparr>st := snd (StoreAlias io a c h p q (st S))\<rparr>"
| "sys_exec (ORedirect io k n h p q l ct et hs) S = S\<lparr>st := snd (StoreRedirect io k n h p q l ct et hs (st S))\<rparr>"
| "sys_exec (OPurge io d) S = S\<lparr>st := snd (snd (PurgeOrTrim io d (st S)))\<rparr>"

inductive sys_reach :: "(store_op \<Rightarrow> sys \<Rightarrow> bool) \<Rightarrow> sys \<Rightarrow> sys \<Rightarrow> bool"
  for allowed S0 where
  sys_start: "sys_reach allowed S0 S0"
| sys_next: "sys_reach allowed S0 S \<Longrightarrow> allowed op S \<Longrightarrow> sys_reach allowed S0 (sys_exec op S)"

definition sys_inv :: "int \<Rightarrow> sys \<Rightarrow> bool" where
  "sys_inv mx S \<longleftrightarrow> MaxBytes (st S) = mx \<and> acct (st S) \<and> coh (st S) \<and>
     (\<forall>w \<in> set (ws S). writer_ok w \<and> (dynamicQuota w \<longrightarrow> MaxBytes (st S) > 0)) \<and>
     (MaxBytes (st S) > 0 \<longrightarrow> reservedBytes (st S) = wrap64 (sum_list (map reserved (ws S))))"

definition quiet_op :: "store_op \<Rightarrow> sys \<Rightarrow> bool" where
  "quiet_op op S \<longleftrightarrow> quiet (op_io op) \<and> (\<forall>io d. op = OPurge io d \<longrightarrow> trims_ok d)"

lemma sum_reserved_update:
  "i < length vs \<Longrightarrow> sum_list (map reserved (vs[i := w])) =
     sum_list (map reserved vs) + reserved w - reserved (vs ! i)"
proof (induction vs arbitrary: i)
  case (Cons x vs)
  then show ?case by (cases i) auto
qed simp

lemma sys_inv_writer:
  assumes "sys_inv mx S" "i < length (ws S)" "wstep (ws S ! i) (st S) w s" "writer_ok w"
  shows "sys_inv mx (S\<lparr>st := s, ws := (ws S)[i := w]\<rparr>)"
proof -
  let ?w = "ws S ! i"
  have w: "?w \<in> set (ws S)" using assms(2) by simp
  have W: "acct s" "coh s" "MaxBytes s = MaxBytes (st S)" "dynamicQuota w = dynamicQuota ?w"
    and mv: "int64 (reservedBytes (st S)) \<longrightarrow> reservedBytes s = wrap64 (reservedBytes (st S) + (reserved w - reserved ?w))"
    using assms(3) by (simp_all add: wstep_def moved_def same_writer_def)
  have "MaxBytes s > 0 \<longrightarrow> reservedBytes s = wrap64 (sum_list (map reserved ((ws S)[i := w])))"
    using assms(1) mv W(3) by (auto simp: sys_inv_def sum_reserved_update [OF assms(2)] add_diff_eq)
  moreover have "\<forall>v \<in> set ((ws S)[i := w]). writer_ok v \<and> (dynamicQuota v \<longrightarrow> MaxBytes s > 0)"
    using assms(1,4) W(3,4) w set_update_subset_insert [of "ws S" i w] by (auto simp: sys_inv_def)
  ultimately show ?thesis using W assms(1) by (simp add: sys_inv_def)
qed

lemma sys_inv_store:
  assumes "sys_inv mx S" "acct s" "coh s" "MaxBytes s = MaxBytes (st S)"
    "MaxBytes s > 0 \<longrightarrow> reservedBytes s = reservedBytes (st S)"
  shows "sys_inv mx (S\<lparr>st := s\<rparr>)"
  using assms by (auto simp: sys_inv_def)

lemma sys_inv_step:
  assumes "sys_inv mx S" "quiet_op op S"
  shows "sys_inv mx (sys_exec op S)"
proof -
  have ac: "acct (st S)" "coh (st S)" using assms(1) by (simp_all add: sys_inv_def)
  show ?thesis
  proof (cases op)
    case (OLoad io k)
    obtain r s where l: "LoadMeta io k (st S) = (r, s)" by fastforce
    from LoadMeta_effect(1-9) [OF ac l] show ?thesis
      using sys_inv_store [OF assms(1)] by (simp add: OLoad l)
  next
    case (OBegin io k p)
    obtain r s where b: "BeginSegment io k p (st S) = (r, s)" by fastforce
    note B = BeginSegment_effect [OF ac b]
    have i64: "MaxBytes (st S) > 0 \<longrightarrow> int64 (reservedBytes (st S))"
      using assms(1) by (simp add: sys_inv_def)
    show ?thesis
    proof (cases r)
      case (Inl e)
      with B i64 have "sys_inv mx (S\<lparr>st := s\<rparr>)" by (intro sys_inv_store [OF assms(1)]) (simp_all add: begin_fail_def)
      with Inl show ?thesis by (simp add: OBegin b)
    next
      case (Inr w)
      with B have b': "begun k p (st S) w s" by simp
      then have "w = new_writer k (wino w) p (MaxBytes (st S))" by (simp add: begun_def)
      then have "writer_ok w \<and> (dynamicQuota w \<longrightarrow> MaxBytes (st S) > 0)"
        by (metis (no_types, lifting) SegmentWriter.select_convs(4,6,7,8) new_writer_def order_refl
            quotaReservationFor_def writer_ok_def less_imp_le)
      with b' assms(1) i64 Inr show ?thesis by (auto simp: OBegin b sys_inv_def begun_def)
    qed
  next
    case (OWrite io short i p)
    show ?thesis
    proof (cases "i < length (ws S)")
      case True
      let ?w = "ws S ! i"
      have w: "?w \<in> set (ws S)" using True by simp
      obtain n err w' s' where e: "Write io short ?w p (st S) = ((n, err), w', s')"
        by (cases "Write io short ?w p (st S)") auto
      have q: "quiet io" "dynamicQuota ?w \<Longrightarrow> MaxBytes (st S) > 0"
        using assms w by (auto simp: quiet_op_def OWrite sys_inv_def)
      obtain w1 s1 where "wstep ?w (st S) w1 s1" "wstep w1 s1 w' s'"
        by (rule Write_effect [OF ac q e])
      then have "wstep ?w (st S) w' s'" by (rule wstep_trans)
      moreover from this have "writer_ok w'" using assms(1) w by (auto simp: wstep_def sys_inv_def)
      ultimately show ?thesis using sys_inv_writer [OF assms(1) True] e True by (simp add: OWrite)
    qed (use assms(1) in \<open>simp add: OWrite\<close>)
  next
    case (OClose io i)
    show ?thesis
    proof (cases "i < length (ws S) \<and> \<not> closed (ws S ! i)")
      case True
      let ?w = "ws S ! i"
      have w: "?w \<in> set (ws S)" using True by simp
      obtain e w' s' where c: "CloseSegment io ?w (st S) = (e, w', s')"
        by (cases "CloseSegment io ?w (st S)") auto
      have q: "quiet io" "writer_ok ?w" "\<not> closed ?w"
        using assms w True by (auto simp: quiet_op_def OClose sys_inv_def)
      have "wstep ?w (st S) w' s'" by (rule CloseSegment_effect [OF ac q c])
      moreover from this have "writer_ok w'" using q by (auto simp: wstep_def)
      ultimately show ?thesis using sys_inv_writer [OF assms(1)] c True by (simp add: OClose)
    next
      case False
      then have "sys_exec op S = S" by (auto simp: OClose CloseSegment_def)
      with assms(1) show ?thesis by simp
    qed
  next
    case (OAlias io a c h p q)
    obtain e s where o: "StoreAlias io a c h p q (st S) = (e, s)" by fastforce
    have "quiet io" using assms(2) by (simp add: quiet_op_def OAlias)
    from StoreAlias_effect(1) [OF ac this o] show ?thesis
      using sys_inv_store [OF assms(1)] by (simp add: OAlias o sstep_def)
  next
    case (ORedirect io k n h p q l ct et hs)
    obtain e s where o: "StoreRedirect io k n h p q l ct et hs (st S) = (e, s)" by fastforce
    have "quiet io" using assms(2) by (simp add: quiet_op_def ORedirect)
    from StoreRedirect_effect [OF ac this o] show ?thesis
      using sys_inv_store [OF assms(1)] by (simp add: ORedirect o sstep_def)
  next
    case (OPurge io d)
    obtain e r s where o: "PurgeOrTrim io d (st S) = (e, r, s)" by (cases "PurgeOrTrim io d (st S)") auto
    have "quiet io" "trims_ok d" using assms(2) by (simp_all add: quiet_op_def OPurge)
    from PurgeOrTrim_purged [OF ac this o] show ?thesis
      using sys_inv_store [OF assms(1)] by (simp add: OPurge o purged_def)
  qed
qed

lemma sys_inv_reach: "sys_reach allowed S0 S \<Longrightarrow> (\<And>op S. allowed op S \<Longrightarrow> quiet_op op S) \<Longrightarrow> sys_inv mx S0 \<Longrightarrow> sys_inv mx S"
  by (induction rule: sys_reach.induct) (auto intro: sys_inv_step)

subsection \<open>The scan at start-up\<close>

lemma readMeta_iff:
  "\<not> fails io ReadMeta \<Longrightarrow> readMeta io k s = Inr (Some m) \<longleftrightarrow> disk_meta s k = Some m"
  by (auto simp: readMeta_def disk_meta_def obj_meta_def split: option.splits metafile.splits)

lemma scan_loop_sums:
  assumes "\<not> fails io ReadMeta"
  shows "int64 u \<Longrightarrow> int64 c \<Longrightarrow> scan_loop io ks s u c =
    (wrap64 (u + sum_list (map (\<lambda>k. metaTotal (disk_meta s k)) ks)),
     wrap64 (c + sum_list (map (\<lambda>k. if disk_meta s k = None then 0 else 1) ks)))"
proof (induction ks arbitrary: u c)
  case (Cons k ks)
  show ?case
  proof (cases "disk_meta s k")
    case None
    then have "\<nexists>m. readMeta io k s = Inr (Some m)" using readMeta_iff [OF assms] by simp
    then have "scan_loop io (k # ks) s u c = scan_loop io ks s u c"
      by (auto split: sum.split option.split)
    with Cons None show ?thesis by (simp add: metaTotal_def)
  next
    case (Some m)
    then have "readMeta io k s = Inr (Some m)" using readMeta_iff [OF assms] by simp
    with Cons.IH [of "wrap64 (u + metaTotal (Some m))" "wrap64 (c + 1)"] Some show ?thesis
      by (simp add: add.assoc)
  qed
qed simp

lemma sum_list_sort: "sum_list (map f (sort xs)) = sum_list (map (f :: 'a::linorder \<Rightarrow> int) xs)"
  by (metis mset_map mset_sort sum_mset_sum_list)

lemma disk_sums_keys:
  assumes "keys_ok s"
  shows "disk_used s = sum_list (map (\<lambda>k. metaTotal (disk_meta s k)) (map fst (disk s)))"
    "disk_entries s = sum_list (map (\<lambda>k. if disk_meta s k = None then 0 else 1) (map fst (disk s)))"
proof -
  have "disk_meta s (fst p) = obj_meta (snd p)" if "p \<in> set (disk s)" for p
  proof -
    have "map_of (disk s) (fst p) = Some (snd p)"
      using that assms unfolding keys_ok_def by (intro map_of_is_SomeI) auto
    then show ?thesis by (simp add: disk_meta_def)
  qed
  then show "disk_used s = sum_list (map (\<lambda>k. metaTotal (disk_meta s k)) (map fst (disk s)))"
    "disk_entries s = sum_list (map (\<lambda>k. if disk_meta s k = None then 0 else 1) (map fst (disk s)))"
    by (auto simp: disk_used_def disk_entries_def sum_objs_def obj_total_def obj_count_def comp_def
        intro!: arg_cong [of _ _ sum_list] map_cong)
qed

lemma scanUsageCounters_disk:
  assumes "keys_ok s" "\<not> fails io ReadMeta" "\<not> fails io ReadDir"
  shows "scanUsageCounters io s = Inr (wrap64 (disk_used s), wrap64 (disk_entries s))"
  using assms
  by (simp add: scanUsageCounters_def scan_loop_sums int64_def disk_sums_keys sum_list_sort del: map_map)

lemma NewStore_inv:
  assumes "NewStoreWithOptions io pol mx ck mm mh d inos n = Inr s0" "\<not> fails io ReadMeta" "distinct (map fst d)"
  shows "sys_inv mx \<lparr>st = s0, ws = []\<rparr>" "MaxBytes s0 = mx" "disk s0 = d" "reservedBytes s0 = 0"
    "inodes s0 = inos" "nextIno s0 = n"
proof -
  define s where "s = \<lparr>fsyncPolicy = pol, MaxBytes = mx, checkpointInterval = ck, disk = d,
      inodes = inos, nextIno = n, metaCache = newLRU zero_meta mm, bodyHandles = newLRU 0 mh,
      handles = (\<lambda>_. \<lparr>hino = 0, hsize = 0, refs = 0, evicted = False, fopen = False\<rparr>),
      nextHandle = 0, usedBytes = 0, reservedBytes = 0, entryCount = 0\<rparr>"
  have k: "keys_ok s" using assms(3) by (simp add: keys_ok_def s_def)
  have eq: "s0 = (if mx > 0 then s\<lparr>usedBytes := wrap64 (disk_used s), entryCount := wrap64 (disk_entries s)\<rparr> else s)"
  proof -
    have n: "NewStoreWithOptions io pol mx ck mm mh d inos n =
        (if fails io MkdirAll then Inl (IOErr MkdirAll)
         else if mx > 0 then (case scanUsageCounters io s of Inl e \<Rightarrow> Inl e
           | Inr (used, cnt) \<Rightarrow> Inr (s\<lparr>usedBytes := used, entryCount := cnt\<rparr>)) else Inr s)"
      by (simp add: NewStoreWithOptions_def s_def Let_def split: sum.split)
    show ?thesis
    proof (cases "mx > 0")
      case True
      have "\<not> fails io ReadDir"
        using assms(1) True n by (auto simp: scanUsageCounters_def split: if_splits)
      from scanUsageCounters_disk [OF k assms(2) this] True assms(1) n show ?thesis
        by (simp split: if_splits)
    next
      case False
      with assms(1) n show ?thesis by (simp split: if_splits)
    qed
  qed
  obtain u e where s0: "s0 = s\<lparr>usedBytes := u, entryCount := e\<rparr>"
    and ue: "mx > 0 \<longrightarrow> u = wrap64 (disk_used s) \<and> e = wrap64 (disk_entries s)"
  proof (cases "mx > 0")
    case True
    show ?thesis
      by (rule that [of "wrap64 (disk_entries s)" "wrap64 (disk_used s)"]) (use eq True in simp_all)
  next
    case False
    show ?thesis by (rule that [of 0 0]) (use eq False in \<open>simp_all add: s_def\<close>)
  qed
  show "MaxBytes s0 = mx" "disk s0 = d" "reservedBytes s0 = 0" "inodes s0 = inos" "nextIno s0 = n"
    by (simp_all add: s0 s_def)
  have "acct s0"
    using k ue by (simp add: acct_def s0 keys_ok_def disk_used_def disk_entries_def) (simp add: s_def)
  moreover have "coh s0"
  proof -
    have "lru_inv (newLRU zero_meta mm)" using repr_new [of zero_meta mm] unfolding lru_inv_def by blast
    moreover have "lru_contents (newLRU zero_meta mm) k = None" for k
      by (simp add: lru_contents_def newLRU_def)
    ultimately show ?thesis by (simp add: coh_def lruc.coherent_def s0 s_def)
  qed
  ultimately show "sys_inv mx \<lparr>st = s0, ws = []\<rparr>"
    using wrap64_id [of 0] by (simp add: sys_inv_def s0 s_def int64_def)
qed

subsection \<open>Accounting\<close>

definition no_faults :: io where
  "no_faults = \<lparr>fails = (\<lambda>_. False), rm_left = (\<lambda>_. None)\<rparr>"


definition demo_params :: "int \<Rightarrow> int \<Rightarrow> SegmentParams" where
  \<comment> \<open>a 200 response of the given announced length and size\<close>
  "demo_params len tot = \<lparr>pStatus = 200, pUpstreamHost = ''hf.co'', pPath = ''/a'', pRawQuery = [], pETag = [],
     pContentType = [], pStart = 0, pLength = len, pTotal = tot, pExtraHeaders = [], pOriginPath = []\<rparr>"

definition demo_store :: "int \<Rightarrow> store" where
  \<comment> \<open>a store on an empty cache root\<close>
  "demo_store mx = (case NewStoreWithOptions no_faults ''none'' mx 0 10 10 [] (\<lambda>_. []) 0 of
     Inr s \<Rightarrow> s | Inl _ \<Rightarrow> undefined)"

lemma demo_store_new: "NewStoreWithOptions no_faults ''none'' mx 0 10 10 [] (\<lambda>_. []) 0 = Inr (demo_store mx)"
  by (simp add: demo_store_def NewStoreWithOptions_def no_faults_def Let_def scanUsageCounters_def)

lemma quiet_no_faults [simp]: "quiet no_faults"
  by (simp add: quiet_def no_faults_def)


end
