(* ===== verification/Http_Parser.thy ===== *)
theory Http_Parser
  imports Go_Prelude
begin

text \<open>
  The HTTP/1.1 request parser of \<open>internal/coreserver\<close>: the validators and \<open>readRequest\<close> of
  \<open>server.go\<close> on the bytes a connection will deliver, and \<open>parseRequestFromBuf\<close> of
  \<open>iouring_parser_linux.go\<close> on the bytes received so far. Both are characterised by one grammar
  (\<open>request_block\<close>), which gives that they accept the same requests and what an accepted request
  looks like. A slice that aliases the scratch buffer is the string it denotes; a nil query is the
  empty one.
\<close>

subsection \<open>Validators\<close>

datatype parse_err = BadRequest | HeaderTooLarge | SmugglingSuspect | ReadError | NeedMoreData

record Request =
  Method :: string
  RequestURI :: string
  Path :: string
  Query :: string
  Host :: string
  Auth :: string
  RangeHdr :: string
  Raw :: string
  ContentLen :: int
  KeepAlive :: bool
  HTTP11 :: bool

definition zero_request :: Request where
  "zero_request = \<lparr>Method = [], RequestURI = [], Path = [], Query = [], Host = [], Auth = [],
     RangeHdr = [], Raw = [], ContentLen = 0, KeepAlive = False, HTTP11 = False\<rparr>"

definition validMethod :: "string \<Rightarrow> bool" where
  "validMethod b \<longleftrightarrow> b \<noteq> [] \<and> list_all (\<lambda>c. 65 \<le> byte c \<and> byte c \<le> 90) b"

definition validOriginFormTarget :: "string \<Rightarrow> bool" where
  "validOriginFormTarget b \<longleftrightarrow>
     b \<noteq> [] \<and> hd b = CHR ''/'' \<and> list_all (\<lambda>c. 0x21 \<le> byte c \<and> byte c \<le> 0x7e) b"

definition validProtocolVersion :: "string \<Rightarrow> bool" where
  "validProtocolVersion b \<longleftrightarrow>
     length b = 8 \<and> has_prefix b ''HTTP/'' \<and> b ! 5 = CHR ''1'' \<and> b ! 6 = CHR ''.'' \<and>
     (b ! 7 = CHR ''0'' \<or> b ! 7 = CHR ''1'')"

definition isTchar :: "char \<Rightarrow> bool" where
  "isTchar c \<longleftrightarrow>
     65 \<le> byte c \<and> byte c \<le> 90 \<or> 97 \<le> byte c \<and> byte c \<le> 122 \<or> 48 \<le> byte c \<and> byte c \<le> 57 \<or>
     c \<in> set ''!#$%&*+-.^_|~'' \<or> c = CHR 0x27 \<or> c = CHR 0x60"

definition validHeaderName :: "string \<Rightarrow> bool" where
  "validHeaderName b \<longleftrightarrow> b \<noteq> [] \<and> list_all isTchar b"

definition validHeaderValue :: "string \<Rightarrow> bool" where
  "validHeaderValue b \<longleftrightarrow>
     list_all (\<lambda>c. c = SP \<or> c = TAB \<or> 0x21 \<le> byte c \<and> byte c \<le> 0x7e \<or> 0x80 \<le> byte c) b"

fun parse_decimal_loop :: "int \<Rightarrow> string \<Rightarrow> int option" where
  "parse_decimal_loop v [] = Some v"
| "parse_decimal_loop v (c # cs) =
     (if \<not> is_digit c then None
      else let v' = wrap64 (wrap64 (v * 10) + digit_val c)
           in if v' < 0 then None else parse_decimal_loop v' cs)"

definition parseDecimalInt64 :: "string \<Rightarrow> int option" where
  "parseDecimalInt64 b = (if b = [] then None else parse_decimal_loop 0 b)"

definition is_ws :: "char \<Rightarrow> bool" where
  "is_ws c \<longleftrightarrow> c = SP \<or> c = TAB"

definition trimSpace :: "string \<Rightarrow> string" where
  "trimSpace b = rev (dropWhile is_ws (rev (dropWhile is_ws b)))"

definition asciiEqualFold :: "string \<Rightarrow> string \<Rightarrow> bool" where
  "asciiEqualFold a bLower \<longleftrightarrow>
     length a = length bLower \<and> list_all2 (\<lambda>ca cb. lower_char ca = cb) a bLower"

definition is_sep :: "char \<Rightarrow> bool" where
  "is_sep c \<longleftrightarrow> c = CHR '','' \<or> c = SP \<or> c = TAB"

function asciiContainsTokenFold :: "string \<Rightarrow> string \<Rightarrow> bool" where
  "asciiContainsTokenFold haystack tokenLower =
     (if haystack = [] then False
      else let h = dropWhile is_sep haystack;
               tok = takeWhile (\<lambda>c. \<not> is_sep c) h
           in if asciiEqualFold tok tokenLower then True
              else asciiContainsTokenFold (dropWhile (\<lambda>c. \<not> is_sep c) h) tokenLower)"
  by pat_completeness auto
termination
proof (relation "measure (length \<circ> fst)")
  fix haystack tokenLower :: string and x xa
  assume ne: "haystack \<noteq> []" and x: "x = dropWhile is_sep haystack"
  have "length (dropWhile (\<lambda>c. \<not> is_sep c) x) < length haystack"
  proof (cases "is_sep (hd haystack)")
    case True
    with ne have "length x < length haystack"
      unfolding x by (cases haystack) (auto simp: less_Suc_eq_le length_dropWhile_le)
    then show ?thesis using length_dropWhile_le [of "\<lambda>c. \<not> is_sep c" x] by linarith
  next
    case False
    with ne have "x = haystack" unfolding x by (cases haystack) auto
    with ne False show ?thesis by (cases haystack) (auto simp: less_Suc_eq_le length_dropWhile_le)
  qed
  then show "((dropWhile (\<lambda>c. \<not> is_sep c) x, tokenLower), haystack, tokenLower) \<in> measure (length \<circ> fst)"
    by simp
qed simp

subsection \<open>The request line and the header lines\<close>

definition parseRequestLine :: "string \<Rightarrow> Request \<Rightarrow> parse_err + Request" where
  "parseRequestLine line req =
     (case index_byte line SP of
        None \<Rightarrow> Inl BadRequest
      | Some sp1 \<Rightarrow>
          if sp1 = 0 \<or> \<not> validMethod (take sp1 line) then Inl BadRequest
          else let rest = drop (Suc sp1) line in
          (case index_byte rest SP of
             None \<Rightarrow> Inl BadRequest
           | Some sp2 \<Rightarrow>
               let target = take sp2 rest; proto = drop (Suc sp2) rest in
               if sp2 = 0 \<or> \<not> validOriginFormTarget target \<or> \<not> validProtocolVersion proto
               then Inl BadRequest
               else let req1 = req\<lparr>Method := take sp1 line, RequestURI := target,
                                   HTTP11 := (proto = ''HTTP/1.1'')\<rparr> in
                    Inr (case index_byte target (CHR ''?'') of
                           None \<Rightarrow> req1\<lparr>Path := target, Query := []\<rparr>
                         | Some q \<Rightarrow> req1\<lparr>Path := take q target, Query := drop (Suc q) target\<rparr>)))"

record hstate =
  hreq :: Request
  seenCL :: bool
  seenTE :: bool
  seenHost :: bool

definition header_field :: "string \<Rightarrow> string \<Rightarrow> hstate \<Rightarrow> parse_err + hstate" where
  \<comment> \<open>the \<open>switch\<close> of the header loop\<close>
  "header_field name val h =
     (if asciiEqualFold name ''host'' then
        (if seenHost h then Inl SmugglingSuspect
         else Inr (h\<lparr>seenHost := True, hreq := (hreq h)\<lparr>Host := val\<rparr>\<rparr>))
      else if asciiEqualFold name ''range'' then Inr (h\<lparr>hreq := (hreq h)\<lparr>RangeHdr := val\<rparr>\<rparr>)
      else if asciiEqualFold name ''authorization'' then Inr (h\<lparr>hreq := (hreq h)\<lparr>Auth := val\<rparr>\<rparr>)
      else if asciiEqualFold name ''content-length'' then
        (if seenCL h then Inl SmugglingSuspect
         else case parseDecimalInt64 val of
           None \<Rightarrow> Inl SmugglingSuspect
         | Some cl \<Rightarrow> Inr (h\<lparr>seenCL := True, hreq := (hreq h)\<lparr>ContentLen := cl\<rparr>\<rparr>))
      else if asciiEqualFold name ''transfer-encoding'' then
        (if \<not> asciiEqualFold val ''identity'' then Inl SmugglingSuspect
         else Inr (h\<lparr>seenTE := True\<rparr>))
      else if asciiEqualFold name ''connection'' then
        (if asciiContainsTokenFold val ''close'' then Inr (h\<lparr>hreq := (hreq h)\<lparr>KeepAlive := False\<rparr>\<rparr>)
         else if \<not> HTTP11 (hreq h) then Inr (h\<lparr>hreq := (hreq h)\<lparr>KeepAlive := True\<rparr>\<rparr>)
         else Inr h)
      else Inr h)"

definition header_line :: "string \<Rightarrow> hstate \<Rightarrow> parse_err + hstate" where
  "header_line line h =
     (if hd line = SP \<or> hd line = TAB then Inl SmugglingSuspect
      else case index_byte line (CHR '':'') of
        None \<Rightarrow> Inl BadRequest
      | Some colon \<Rightarrow>
          if colon = 0 \<or> \<not> validHeaderName (take colon line) then Inl BadRequest
          else let val = trimSpace (drop (Suc colon) line)
               in if \<not> validHeaderValue val then Inl SmugglingSuspect
                  else header_field (take colon line) val h)"

abbreviation CRLF :: string where "CRLF \<equiv> [CR, LF]"

function header_block :: "string \<Rightarrow> hstate \<Rightarrow> parse_err + hstate" where
  \<comment> \<open>the header loop, which both parsers have\<close>
  "header_block hdr h =
     (if hdr = [] then Inr h
      else case index_str hdr CRLF of
        None \<Rightarrow> Inl BadRequest
      | Some end \<Rightarrow>
          if end = 0 then Inr h
          else (case header_line (take end hdr) h of
                  Inl e \<Rightarrow> Inl e
                | Inr h' \<Rightarrow> header_block (drop (end + 2) hdr) h'))"
  by pat_completeness auto
termination by (relation "measure (length \<circ> fst)") auto

definition parse_headers :: "string \<Rightarrow> string \<Rightarrow> Request \<Rightarrow> parse_err + Request" where
  \<comment> \<open>from the request line on; \<open>line\<close> is the request line and \<open>hdr\<close> what follows its CRLF\<close>
  "parse_headers line hdr req =
     (case parseRequestLine line req of
        Inl e \<Rightarrow> Inl e
      | Inr req1 \<Rightarrow>
          (case header_block hdr \<lparr>hreq = req1\<lparr>KeepAlive := HTTP11 req1\<rparr>, seenCL = False, seenTE = False,
                                   seenHost = False\<rparr> of
             Inl e \<Rightarrow> Inl e
           | Inr h \<Rightarrow> if seenTE h \<and> seenCL h then Inl SmugglingSuspect
                     else if \<not> seenHost h then Inl BadRequest
                     else Inr (hreq h)))"

subsection \<open>Reading from the connection\<close>

definition bufReadSize :: nat where "bufReadSize = 16384"
definition headerScratchSize :: nat where "headerScratchSize = 16384"

definition ReadSlice :: "string \<Rightarrow> parse_err + string \<times> string" where
  \<comment> \<open>\<open>br.ReadSlice('\n')\<close> on the bytes the connection will still deliver; running out of them is a
      read error (end of file or a missed deadline)\<close>
  "ReadSlice inp =
     (case index_byte (take bufReadSize inp) LF of
        Some i \<Rightarrow> Inr (take (Suc i) inp, drop (Suc i) inp)
      | None \<Rightarrow> if length inp \<ge> bufReadSize then Inl HeaderTooLarge else Inl ReadError)"

function read_block :: "string \<Rightarrow> string \<Rightarrow> parse_err + string \<times> string" where
  \<comment> \<open>the copy loop; \<open>acc\<close> is \<open>scratch[:n]\<close>\<close>
  "read_block acc inp =
     (case ReadSlice inp of
        Inl e \<Rightarrow> Inl e
      | Inr (line, rest) \<Rightarrow>
          if length acc + length line > headerScratchSize then Inl HeaderTooLarge
          else if line = CRLF \<or> line = [LF] then Inr (acc @ line, rest)
          else read_block (acc @ line) rest)"
  by pat_completeness auto
termination
proof (relation "measure (length \<circ> snd)")
  fix acc inp line rest :: string and x2 b
  assume "ReadSlice inp = Inr b" "(line, rest) = b"
  then have "length rest < length inp"
    by (cases inp) (auto simp: ReadSlice_def split: option.splits if_splits)
  then show "((acc @ line, rest), acc, inp) \<in> measure (length \<circ> snd)" by simp
qed simp

definition readRequest :: "string \<Rightarrow> parse_err + Request \<times> string" where
  \<comment> \<open>the request and the bytes left on the connection\<close>
  "readRequest inp =
     (case read_block [] inp of
        Inl e \<Rightarrow> Inl e
      | Inr (hdr, rest) \<Rightarrow>
          (case index_str hdr CRLF of
             None \<Rightarrow> Inl BadRequest
           | Some end \<Rightarrow>
               (case parse_headers (take end hdr) (drop (end + 2) hdr) (zero_request\<lparr>Raw := hdr\<rparr>) of
                  Inl e \<Rightarrow> Inl e
                | Inr req \<Rightarrow> Inr (req, rest))))"

definition parseRequestFromBuf :: "string \<Rightarrow> parse_err + nat \<times> Request" where
  "parseRequestFromBuf buf =
     (case index_str buf (CRLF @ CRLF) of
        None \<Rightarrow> Inl NeedMoreData
      | Some end \<Rightarrow>
          let consumed = end + 4; hdr = take (consumed - 2) buf in
          (case index_str hdr CRLF of
             None \<Rightarrow> Inl BadRequest
           | Some lineEnd \<Rightarrow>
               (case parse_headers (take lineEnd hdr) (drop (lineEnd + 2) hdr)
                       (zero_request\<lparr>Raw := take consumed buf\<rparr>) of
                  Inl e \<Rightarrow> Inl e
                | Inr req \<Rightarrow> Inr (consumed, req))))"

declare asciiContainsTokenFold.simps [simp del] header_block.simps [simp del] read_block.simps [simp del]

subsection \<open>Lemmas on the string searches\<close>

lemma asciiEqualFold_iff: "asciiEqualFold a b \<longleftrightarrow> to_lower a = b"
  by (auto simp: asciiEqualFold_def to_lower_def list_all2_conv_all_nth intro!: nth_equalityI)

lemma set_trimSpace: "set (trimSpace b) \<subseteq> set b"
  unfolding trimSpace_def by (auto dest!: set_dropWhileD)

lemma set_trimSpace_sup: "set b \<subseteq> set (trimSpace b) \<union> {SP, TAB}"
proof -
  have D: "set xs \<subseteq> set (dropWhile is_ws xs) \<union> {SP, TAB}" for xs
    by (induction xs) (auto simp: is_ws_def)
  show ?thesis
    using D [of b] D [of "rev (dropWhile is_ws b)"] unfolding trimSpace_def by auto
qed

lemma index_str_skip:
  "c \<notin> set a \<Longrightarrow> index_str (a @ s) (c # p) = map_option ((+) (length a)) (index_str s (c # p))"
  by (induction a) (auto simp: map_option_case split: option.splits)

lemma index_CRLF: "CR \<notin> set l \<Longrightarrow> index_str (l @ CRLF @ x) CRLF = Some (length l)"
  by (simp add: index_str_skip)

lemma index_CRLF_conv:
  assumes "index_str s CRLF = Some i"
  shows "s = take i s @ CRLF @ drop (i + 2) s"
  using index_str_Some [OF assms] by simp

definition lf_lines :: "string list \<Rightarrow> string" where
  "lf_lines ls = concat (map (\<lambda>l. l @ [LF]) ls)"

definition crlf_lines :: "string list \<Rightarrow> string" where
  "crlf_lines ls = concat (map (\<lambda>l. l @ CRLF) ls)"

definition good_line :: "string \<Rightarrow> bool" where
  "good_line l \<longleftrightarrow> l \<noteq> [] \<and> CR \<notin> set l \<and> LF \<notin> set l"

lemma line_simps [simp]:
  "lf_lines [] = []" "lf_lines (l # ls) = l @ LF # lf_lines ls"
  "crlf_lines [] = []" "crlf_lines (l # ls) = l @ CR # LF # crlf_lines ls"
  by (simp_all add: lf_lines_def crlf_lines_def)

lemma crlf_lf: "crlf_lines ls = lf_lines (map (\<lambda>l. l @ [CR]) ls)"
  by (induction ls) auto

lemma ReadSlice_iff:
  "ReadSlice inp = Inr (line, rest) \<longleftrightarrow>
     (\<exists>l. line = l @ [LF] \<and> LF \<notin> set l \<and> inp = line @ rest \<and> length line \<le> bufReadSize)"
proof
  assume "ReadSlice inp = Inr (line, rest)"
  then obtain i where i: "index_byte (take bufReadSize inp) LF = Some i" "line = take (Suc i) inp" "rest = drop (Suc i) inp"
    by (auto simp: ReadSlice_def split: option.splits if_splits)
  have "i < length (take bufReadSize inp)" "take bufReadSize inp ! i = LF" "LF \<notin> set (take i (take bufReadSize inp))"
    using index_byte_Some [OF i(1)] by auto
  then have "i < bufReadSize" "i < length inp" "inp ! i = LF" "LF \<notin> set (take i inp)"
    by (auto simp: min_def split: if_splits)
  then show "\<exists>l. line = l @ [LF] \<and> LF \<notin> set l \<and> inp = line @ rest \<and> length line \<le> bufReadSize"
    using i(2,3) id_take_nth_drop [of i inp] by (intro exI [of _ "take i inp"]) (auto simp: take_Suc_conv_app_nth)
next
  assume "\<exists>l. line = l @ [LF] \<and> LF \<notin> set l \<and> inp = line @ rest \<and> length line \<le> bufReadSize"
  then obtain l where l: "line = l @ [LF]" "LF \<notin> set l" "inp = line @ rest" "length line \<le> bufReadSize" by blast
  then have "bufReadSize - length l = Suc (bufReadSize - length line)" by simp
  with l(1,3) have "take bufReadSize inp = l @ LF # take (bufReadSize - length line) rest" by simp
  with l show "ReadSlice inp = Inr (line, rest)"
    by (simp add: ReadSlice_def index_byte_append)
qed

subsection \<open>Reading a block\<close>

lemma read_block_longer: "read_block acc inp = Inr (hdr, rest) \<Longrightarrow> \<exists>x. x \<noteq> [] \<and> hdr = acc @ x \<and> inp = x @ rest \<and> length hdr \<le> headerScratchSize"
proof (induction acc inp rule: read_block.induct)
  case (1 acc inp)
  from "1.prems" obtain line r where r: "ReadSlice inp = Inr (line, r)" "length acc + length line \<le> headerScratchSize"
    by (subst (asm) read_block.simps) (auto split: sum.splits if_splits)
  then have l: "inp = line @ r" "line \<noteq> []" by (auto simp: ReadSlice_iff)
  show ?case
  proof (cases "line = CRLF \<or> line = [LF]")
    case True
    with "1.prems" r l show ?thesis by (subst (asm) read_block.simps) (auto split: if_splits)
  next
    case False
    with "1.prems" r have "read_block (acc @ line) r = Inr (hdr, rest)"
      by (subst (asm) read_block.simps) auto
    with "1.IH" [OF r(1) refl _ False] r(2) obtain x where
      "x \<noteq> []" "hdr = (acc @ line) @ x" "r = x @ rest" "length hdr \<le> headerScratchSize" by force
    with l show ?thesis by (intro exI [of _ "line @ x"]) simp
  qed
qed

lemma read_block_line:
  assumes "LF \<notin> set l" "l \<noteq> []" "l \<noteq> [CR]"
  shows "length (acc @ l @ [LF]) \<le> headerScratchSize \<Longrightarrow> read_block acc (l @ LF # x) = read_block (acc @ l @ [LF]) x"
    and "read_block acc (l @ LF # x) = Inr r \<Longrightarrow> read_block (acc @ l @ [LF]) x = Inr r"
proof -
  have stop: "l @ [LF] \<noteq> CRLF" "l @ [LF] \<noteq> [LF]" using assms by auto
  show "read_block acc (l @ LF # x) = read_block (acc @ l @ [LF]) x" if "length (acc @ l @ [LF]) \<le> headerScratchSize"
  proof -
    have "ReadSlice (l @ LF # x) = Inr (l @ [LF], x)"
      using that assms(1) by (auto simp: ReadSlice_iff bufReadSize_def headerScratchSize_def)
    with stop that show ?thesis by (subst read_block.simps) simp
  qed
  show "read_block (acc @ l @ [LF]) x = Inr r" if "read_block acc (l @ LF # x) = Inr r"
  proof -
    from that obtain line y where y: "ReadSlice (l @ LF # x) = Inr (line, y)"
      by (subst (asm) read_block.simps) (auto split: sum.splits)
    then obtain l' where "line = l' @ [LF]" "LF \<notin> set l'" "l @ LF # x = l' @ LF # y"
      by (auto simp: ReadSlice_iff)
    with sep_split [of LF l l' x y] assms(1) have "line = l @ [LF]" "y = x" by auto
    with that y stop show ?thesis by (subst (asm) read_block.simps) (auto split: if_splits)
  qed
qed

definition plain_line :: "string \<Rightarrow> bool" where
  "plain_line l \<longleftrightarrow> LF \<notin> set l \<and> l \<noteq> [] \<and> l \<noteq> [CR]"

lemma read_block_lines:
  assumes "list_all plain_line ls"
  shows "length (acc @ lf_lines ls) \<le> headerScratchSize \<Longrightarrow> read_block acc (lf_lines ls @ x) = read_block (acc @ lf_lines ls) x"
    and "read_block acc (lf_lines ls @ x) = Inr r \<Longrightarrow> read_block (acc @ lf_lines ls) x = Inr r"
proof -
  show "read_block acc (lf_lines ls @ x) = read_block (acc @ lf_lines ls) x"
    if "length (acc @ lf_lines ls) \<le> headerScratchSize" using assms that
  proof (induction ls arbitrary: acc)
    case (Cons l ls)
    then have l: "LF \<notin> set l" "l \<noteq> []" "l \<noteq> [CR]" by (auto simp: plain_line_def)
    from Cons.prems read_block_line(1) [OF l, of acc "lf_lines ls @ x"] Cons.IH [of "acc @ l @ [LF]"]
    show ?case by simp
  qed simp
  show "read_block (acc @ lf_lines ls) x = Inr r" if "read_block acc (lf_lines ls @ x) = Inr r" using assms that
  proof (induction ls arbitrary: acc)
    case (Cons l ls)
    then have l: "LF \<notin> set l" "l \<noteq> []" "l \<noteq> [CR]" by (auto simp: plain_line_def)
    from Cons.prems read_block_line(2) [OF l, of acc "lf_lines ls @ x" r] Cons.IH [of "acc @ l @ [LF]"]
    show ?case by simp
  qed simp
qed

lemma read_block_stop:
  "length acc + 2 \<le> headerScratchSize \<Longrightarrow> read_block acc (CRLF @ x) = Inr (acc @ CRLF, x)"
proof -
  assume a: "length acc + 2 \<le> headerScratchSize"
  have "ReadSlice (CRLF @ x) = Inr (CRLF, x)"
    unfolding ReadSlice_iff by (rule exI [of _ "[CR]"]) (simp add: bufReadSize_def)
  with a show ?thesis by (subst read_block.simps) simp
qed

subsection \<open>The grammar of a request head\<close>

fun header_fold :: "string list \<Rightarrow> hstate \<Rightarrow> parse_err + hstate" where
  "header_fold [] h = Inr h"
| "header_fold (l # ls) h = (case header_line l h of Inl e \<Rightarrow> Inl e | Inr h' \<Rightarrow> header_fold ls h')"

definition request_block :: "string \<Rightarrow> string list \<Rightarrow> string" where
  "request_block rl ls = rl @ CRLF @ crlf_lines ls @ CRLF"

definition parse_lines :: "string \<Rightarrow> string list \<Rightarrow> Request \<Rightarrow> parse_err + Request" where
  "parse_lines rl ls req = parse_headers rl (crlf_lines ls) req"

definition small_block :: "string \<Rightarrow> string list \<Rightarrow> bool" where
  "small_block rl ls \<longleftrightarrow> length (request_block rl ls) \<le> headerScratchSize"

lemma tchar_not_ctl: "isTchar c \<Longrightarrow> c \<noteq> CR \<and> c \<noteq> LF \<and> c \<noteq> SP \<and> c \<noteq> TAB \<and> c \<noteq> CHR '':''"
  by (auto simp: isTchar_def)

lemma validHeaderValue_not_ctl: "validHeaderValue v \<Longrightarrow> CR \<notin> set v \<and> LF \<notin> set v \<and> CHR 0x00 \<notin> set v"
  unfolding validHeaderValue_def list_all_iff by (intro conjI notI; drule (1) bspec; simp)

lemma header_line_good:
  assumes "header_line l h = Inr h'"
  shows "good_line l"
proof -
  from assms obtain i where i: "index_byte l (CHR '':'') = Some i" "validHeaderName (take i l)"
    "validHeaderValue (trimSpace (drop (Suc i) l))"
    by (auto simp: header_line_def Let_def split: if_splits option.splits)
  have l: "l = take i l @ CHR '':'' # drop (Suc i) l" using index_byte_split [OF i(1)] by blast
  have "CR \<notin> set (take i l)" "LF \<notin> set (take i l)"
    using i(2) by (auto simp: validHeaderName_def list_all_iff dest: tchar_not_ctl)
  moreover have "CR \<notin> set (drop (Suc i) l)" "LF \<notin> set (drop (Suc i) l)"
    using set_trimSpace_sup [of "drop (Suc i) l"] validHeaderValue_not_ctl [OF i(3)] by auto
  ultimately have "CR \<notin> set l" "LF \<notin> set l" by (subst l, simp)+
  moreover have "l \<noteq> []" using i(1) by auto
  ultimately show ?thesis by (simp add: good_line_def)
qed

lemma header_block_line:
  assumes "good_line l"
  shows "header_block (l @ CRLF @ x) h = (case header_line l h of Inl e \<Rightarrow> Inl e | Inr h' \<Rightarrow> header_block x h')"
  using assms index_CRLF [of l x] by (subst header_block.simps, cases "header_line l h") (simp_all add: good_line_def)

lemma header_block_lines:
  "list_all good_line ls \<Longrightarrow>
     header_block (crlf_lines ls @ x) h = (case header_fold ls h of Inl e \<Rightarrow> Inl e | Inr h' \<Rightarrow> header_block x h')"
proof (induction ls arbitrary: h)
  case (Cons l ls)
  from Cons.prems header_block_line [of l "crlf_lines ls @ x" h]
  have "header_block (crlf_lines (l # ls) @ x) h =
      (case header_line l h of Inl e \<Rightarrow> Inl e | Inr h' \<Rightarrow> header_block (crlf_lines ls @ x) h')"
    by simp
  also have "\<dots> = (case header_fold (l # ls) h of Inl e \<Rightarrow> Inl e | Inr h' \<Rightarrow> header_block x h')"
    using Cons.prems Cons.IH by (cases "header_line l h") simp_all
  finally show ?case .
qed simp

lemma header_block_end [simp]: "header_block [] h = Inr h" "header_block (CR # LF # x) h = Inr h"
  by (subst header_block.simps, simp)+

lemma header_block_Inr:
  "header_block hdr h = Inr h' \<Longrightarrow> \<exists>ls t. hdr = crlf_lines ls @ t \<and> (t = [] \<or> (\<exists>t'. t = CRLF @ t')) \<and>
     list_all good_line ls \<and> header_fold ls h = Inr h'"
proof (induction hdr h rule: header_block.induct)
  case (1 hdr h)
  show ?case
  proof (cases "hdr = []")
    case True
    with "1.prems" show ?thesis by (intro exI [of _ "[]"]) simp
  next
    case ne: False
    with "1.prems" obtain i where i: "index_str hdr CRLF = Some i"
      by (subst (asm) header_block.simps) (auto split: option.splits)
    note hdr = index_CRLF_conv [OF i]
    show ?thesis
    proof (cases "i = 0")
      case True
      with hdr "1.prems" ne i have "h' = h" by (subst (asm) header_block.simps) simp
      with True hdr show ?thesis
        by (intro exI [of _ "[]"] exI [of _ hdr]) auto
    next
      case False
      with ne i "1.prems" obtain h1 where h1: "header_line (take i hdr) h = Inr h1"
        "header_block (drop (i + 2) hdr) h1 = Inr h'"
        by (subst (asm) header_block.simps) (auto split: sum.splits)
      from "1.IH" [OF ne i False h1] obtain ls t where
        "drop (i + 2) hdr = crlf_lines ls @ t" "t = [] \<or> (\<exists>t'. t = CRLF @ t')" "list_all good_line ls"
        "header_fold ls h1 = Inr h'" by blast
      with hdr h1 header_line_good [OF h1(1)] show ?thesis
        by (intro exI [of _ "take i hdr # ls"] exI [of _ t]) simp
    qed
  qed
qed

lemma parseRequestLine_shape:
  assumes "parseRequestLine rl req = Inr r"
  obtains m t q where "rl = m @ SP # t @ SP # q" "SP \<notin> set m" "SP \<notin> set t"
proof -
  from assms obtain i where i: "index_byte rl SP = Some i"
    by (auto simp: parseRequestLine_def split: option.splits if_splits)
  from assms i obtain j where j: "index_byte (drop (Suc i) rl) SP = Some j"
    by (auto simp: parseRequestLine_def Let_def split: option.splits if_splits)
  show thesis
    by (rule that [of "take i rl" "take j (drop (Suc i) rl)" "drop (Suc j) (drop (Suc i) rl)"])
      (use index_byte_split [OF i] index_byte_split [OF j] in simp_all)
qed

lemma parseRequestLine_eq:
  assumes "SP \<notin> set m" "SP \<notin> set t"
  shows "parseRequestLine (m @ SP # t @ SP # q) req =
    (if validMethod m \<and> validOriginFormTarget t \<and> validProtocolVersion q
     then let req1 = req\<lparr>Method := m, RequestURI := t, HTTP11 := (q = ''HTTP/1.1'')\<rparr>
          in Inr (case index_byte t (CHR ''?'') of None \<Rightarrow> req1\<lparr>Path := t, Query := []\<rparr>
               | Some i \<Rightarrow> req1\<lparr>Path := take i t, Query := drop (Suc i) t\<rparr>)
     else Inl BadRequest)"
proof -
  have "validMethod m \<Longrightarrow> length m \<noteq> 0" "validOriginFormTarget t \<Longrightarrow> length t \<noteq> 0"
    by (simp_all add: validMethod_def validOriginFormTarget_def)
  with index_byte_append [OF assms(1), of "t @ SP # q"] index_byte_append [OF assms(2), of q]
  show ?thesis
    by (cases "validMethod m"; cases "validOriginFormTarget t"; cases "validProtocolVersion q")
      (simp_all add: parseRequestLine_def Let_def)
qed

definition line_request :: "string \<Rightarrow> string \<Rightarrow> string \<Rightarrow> Request \<Rightarrow> bool" where
  \<comment> \<open>what the request line gives: method, target split at its first question mark, version\<close>
  "line_request m t q r \<longleftrightarrow> Method r = m \<and> RequestURI r = t \<and> HTTP11 r = (q = ''HTTP/1.1'') \<and> CHR ''?'' \<notin> set (Path r) \<and>
     t = Path r @ (if CHR ''?'' \<in> set t then CHR ''?'' # Query r else Query r) \<and> (CHR ''?'' \<notin> set t \<longrightarrow> Query r = [])"

lemma parseRequestLine_Inr:
  assumes "parseRequestLine rl req = Inr r"
  obtains m t q where "rl = m @ SP # t @ SP # q" "validMethod m" "validOriginFormTarget t" "validProtocolVersion q"
    "line_request m t q r" "Raw r = Raw req"
proof -
  obtain m t q where rl: "rl = m @ SP # t @ SP # q" "SP \<notin> set m" "SP \<notin> set t"
    using parseRequestLine_shape [OF assms] .
  note eq = parseRequestLine_eq [OF rl(2,3), of q req, folded rl(1)]
  have v: "validMethod m" "validOriginFormTarget t" "validProtocolVersion q"
    using assms by (auto simp: eq split: if_splits)
  have "line_request m t q r \<and> Raw r = Raw req"
  proof (cases "index_byte t (CHR ''?'')")
    case None
    then have "CHR ''?'' \<notin> set t" by (simp add: index_byte_None)
    with assms v None show ?thesis by (auto simp: eq Let_def line_request_def)
  next
    case (Some i)
    obtain a b where t: "t = a @ CHR ''?'' # b" "CHR ''?'' \<notin> set a" "i = length a"
      using index_byte_split [OF Some] index_byte_Some [OF Some] by (metis length_take min.absorb4)
    from assms v Some show ?thesis by (auto simp: eq Let_def line_request_def t)
  qed
  with rl v that show thesis by blast
qed

lemma validProtocolVersion_cases:
  assumes "validProtocolVersion q"
  shows "q = ''HTTP/1.0'' \<or> q = ''HTTP/1.1''"
proof -
  from assms obtain t where t: "q = ''HTTP/'' @ t" by (auto simp: validProtocolVersion_def has_prefix_iff)
  with assms have "length t = Suc (Suc (Suc 0))" by (simp add: validProtocolVersion_def)
  then obtain a b c where "t = [a, b, c]" by (auto simp: length_Suc_conv)
  with t assms show ?thesis by (auto simp: validProtocolVersion_def nth_Cons')
qed

lemma parseRequestLine_good:
  assumes "parseRequestLine rl req = Inr r"
  shows "good_line rl"
proof -
  obtain m t q where rl: "rl = m @ SP # t @ SP # q" "validMethod m" "validOriginFormTarget t" "validProtocolVersion q"
    by (rule parseRequestLine_Inr [OF assms])
  have q: "q = ''HTTP/1.0'' \<or> q = ''HTTP/1.1''" by (rule validProtocolVersion_cases [OF rl(4)])
  from rl(2,3) q show ?thesis
    unfolding rl(1) by (auto simp: good_line_def validMethod_def validOriginFormTarget_def list_all_iff)
qed

lemma parse_headers_Inr:
  assumes "parse_headers rl hdr req = Inr r"
  shows "\<exists>ls t. hdr = crlf_lines ls @ t \<and> (t = [] \<or> (\<exists>t'. t = CRLF @ t')) \<and> list_all good_line (rl # ls) \<and>
    parse_lines rl ls req = Inr r"
proof -
  from assms obtain r1 where r1: "parseRequestLine rl req = Inr r1"
    by (auto simp: parse_headers_def split: sum.splits)
  define h0 where "h0 = \<lparr>hreq = r1\<lparr>KeepAlive := HTTP11 r1\<rparr>, seenCL = False, seenTE = False, seenHost = False\<rparr>"
  from assms r1 obtain h where h: "header_block hdr h0 = Inr h"
    by (auto simp: parse_headers_def h0_def split: sum.splits)
  from header_block_Inr [OF h] obtain ls t where
    ls: "hdr = crlf_lines ls @ t" "t = [] \<or> (\<exists>t'. t = CRLF @ t')" "list_all good_line ls" "header_fold ls h0 = Inr h"
    by blast
  have "header_block (crlf_lines ls) h0 = Inr h" using header_block_lines [OF ls(3), of "[]" h0] ls(4) by simp
  with assms r1 h have "parse_lines rl ls req = Inr r" by (simp add: parse_lines_def parse_headers_def h0_def)
  with ls parseRequestLine_good [OF r1] show ?thesis by auto
qed

lemma parse_headers_block:
  assumes "list_all good_line ls"
  shows "parse_headers rl (crlf_lines ls @ CRLF) req = parse_lines rl ls req"
proof -
  have "header_block (crlf_lines ls @ CRLF) h = header_block (crlf_lines ls) h" for h
    using header_block_lines [OF assms, of CRLF h] header_block_lines [OF assms, of "[]" h]
    by (cases "header_fold ls h") simp_all
  then show ?thesis by (cases "parseRequestLine rl req") (simp_all add: parse_lines_def parse_headers_def)
qed

lemma plain_good: "list_all good_line ls \<Longrightarrow> list_all plain_line (map (\<lambda>l. l @ [CR]) ls)"
  by (auto simp: list_all_iff good_line_def plain_line_def append_eq_Cons_conv)

lemma request_block_lines: "request_block rl ls = crlf_lines (rl # ls) @ CRLF"
  by (simp add: request_block_def)

lemma readRequest_iff:
  "readRequest inp = Inr (req, rest) \<longleftrightarrow>
     (\<exists>rl ls. inp = request_block rl ls @ rest \<and> small_block rl ls \<and> list_all good_line (rl # ls) \<and>
        parse_lines rl ls (zero_request\<lparr>Raw := request_block rl ls\<rparr>) = Inr req)"
proof
  assume "readRequest inp = Inr (req, rest)"
  then obtain hdr i where h: "read_block [] inp = Inr (hdr, rest)" "index_str hdr CRLF = Some i"
    "parse_headers (take i hdr) (drop (i + 2) hdr) (zero_request\<lparr>Raw := hdr\<rparr>) = Inr req"
    by (auto simp: readRequest_def split: sum.splits option.splits)
  define rl where "rl = take i hdr"
  from parse_headers_Inr [OF h(3), folded rl_def] obtain ls t where
    ls: "drop (i + 2) hdr = crlf_lines ls @ t" "t = [] \<or> (\<exists>t'. t = CRLF @ t')" "list_all good_line (rl # ls)"
    "parse_lines rl ls (zero_request\<lparr>Raw := hdr\<rparr>) = Inr req" by blast
  have hdr: "hdr = crlf_lines (rl # ls) @ t"
    using index_CRLF_conv [OF h(2), folded rl_def] unfolding ls(1) by simp
  let ?L = "map (\<lambda>l. l @ [CR]) (rl # ls)"
  have pl: "list_all plain_line ?L" by (rule plain_good [OF ls(3)])
  have inp: "inp = hdr @ rest" and len: "length hdr \<le> headerScratchSize"
    using read_block_longer [OF h(1)] by auto
  have run: "read_block (lf_lines ?L) (t @ rest) = Inr (hdr, rest)"
    using read_block_lines(2) [OF pl, of "[]" "t @ rest"] h(1) inp hdr unfolding crlf_lf by simp
  have "t \<noteq> []"
  proof
    assume "t = []"
    with read_block_longer [OF run] hdr show False unfolding crlf_lf by auto
  qed
  with ls(2) obtain t' where t: "t = CRLF @ t'" by blast
  have "length (lf_lines ?L) + 2 \<le> headerScratchSize" using len hdr t unfolding crlf_lf by simp
  from read_block_stop [OF this, of "t' @ rest"] run t hdr have "t' = []" unfolding crlf_lf by simp
  with hdr t have "hdr = request_block rl ls" by (simp only: request_block_lines append_Nil2)
  with inp len ls show "\<exists>rl ls. inp = request_block rl ls @ rest \<and> small_block rl ls \<and> list_all good_line (rl # ls) \<and>
        parse_lines rl ls (zero_request\<lparr>Raw := request_block rl ls\<rparr>) = Inr req"
    by (intro exI [of _ rl] exI [of _ ls]) (simp add: small_block_def)
next
  assume "\<exists>rl ls. inp = request_block rl ls @ rest \<and> small_block rl ls \<and> list_all good_line (rl # ls) \<and>
        parse_lines rl ls (zero_request\<lparr>Raw := request_block rl ls\<rparr>) = Inr req"
  then obtain rl ls where l: "inp = request_block rl ls @ rest" "small_block rl ls" "list_all good_line (rl # ls)"
    "parse_lines rl ls (zero_request\<lparr>Raw := request_block rl ls\<rparr>) = Inr req" by blast
  let ?L = "map (\<lambda>l. l @ [CR]) (rl # ls)"
  have len: "length (lf_lines ?L) + 2 \<le> headerScratchSize"
    using l(2) by (simp add: small_block_def request_block_def crlf_lf)
  have "read_block [] (lf_lines ?L @ CRLF @ rest) = Inr (lf_lines ?L @ CRLF, rest)"
    using read_block_lines(1) [OF plain_good [OF l(3)], of "[]" "CRLF @ rest"] len read_block_stop [OF len, of rest] by simp
  then have "read_block [] inp = Inr (request_block rl ls, rest)"
    using l(1) by (simp add: request_block_lines crlf_lf)
  moreover have "index_str (request_block rl ls) CRLF = Some (length rl)"
    using index_CRLF [of rl "crlf_lines ls @ CRLF"] l(3) by (simp add: request_block_def good_line_def)
  moreover have "parse_headers rl (crlf_lines ls @ CRLF) (zero_request\<lparr>Raw := request_block rl ls\<rparr>) = Inr req"
    using parse_headers_block [of ls rl] l(3,4) by simp
  ultimately show "readRequest inp = Inr (req, rest)"
    by (simp add: readRequest_def) (simp add: request_block_def)
qed

lemma index_terminator:
  "list_all good_line (l # ls) \<Longrightarrow>
     index_str (crlf_lines (l # ls) @ CRLF @ x) (CRLF @ CRLF) = Some (length (crlf_lines (l # ls)) - 2)"
proof (induction ls arbitrary: l)
  case Nil
  then show ?case by (simp add: index_str_skip good_line_def)
next
  case (Cons l' ls)
  then obtain c cs where l': "l' = c # cs" "c \<noteq> CR" by (cases l') (auto simp: good_line_def)
  have "index_str (crlf_lines (l # l' # ls) @ CRLF @ x) (CRLF @ CRLF) =
      map_option (\<lambda>i. length l + Suc (Suc i)) (index_str (crlf_lines (l' # ls) @ CRLF @ x) (CRLF @ CRLF))"
    using Cons.prems l' by (simp add: index_str_skip good_line_def option.map_comp comp_def map_option_case split: option.splits)
  also have "\<dots> = Some (length l + Suc (Suc (length (crlf_lines (l' # ls)) - 2)))"
    using Cons.IH [of l'] Cons.prems by simp
  finally show ?case by simp
qed

lemma parseRequestFromBuf_iff:
  "parseRequestFromBuf buf = Inr (c, req) \<longleftrightarrow>
     (\<exists>rl ls rest. buf = request_block rl ls @ rest \<and> c = length (request_block rl ls) \<and> list_all good_line (rl # ls) \<and>
        parse_lines rl ls (zero_request\<lparr>Raw := request_block rl ls\<rparr>) = Inr req)"
proof
  assume "parseRequestFromBuf buf = Inr (c, req)"
  then obtain e i where e: "index_str buf (CRLF @ CRLF) = Some e" "c = e + 4"
    "index_str (take (e + 2) buf) CRLF = Some i"
    "parse_headers (take i (take (e + 2) buf)) (drop (i + 2) (take (e + 2) buf)) (zero_request\<lparr>Raw := take c buf\<rparr>) = Inr req"
    by (auto simp: parseRequestFromBuf_def Let_def split: sum.splits option.splits)
  obtain a z where a: "buf = a @ (CRLF @ CRLF) @ z" "e = length a" by (rule index_str_split [OF e(1)])
  define hdr where "hdr = a @ CRLF"
  have hb: "take (e + 2) buf = hdr" "take c buf = hdr @ CRLF" "buf = (hdr @ CRLF) @ z" "c = length (hdr @ CRLF)"
    using a e(2) by (simp_all add: hdr_def)
  define rl where "rl = take i hdr"
  from parse_headers_Inr [OF e(4) [unfolded hb(1)], folded rl_def] obtain ls t where
    ls: "drop (i + 2) hdr = crlf_lines ls @ t" "t = [] \<or> (\<exists>t'. t = CRLF @ t')" "list_all good_line (rl # ls)"
    "parse_lines rl ls (zero_request\<lparr>Raw := take c buf\<rparr>) = Inr req" by blast
  have hdr: "hdr = crlf_lines (rl # ls) @ t"
    using index_CRLF_conv [OF e(3) [unfolded hb(1)], folded rl_def] unfolding ls(1) by simp
  have "t = []"
  proof (rule ccontr)
    assume "t \<noteq> []"
    with ls(2) obtain t' where t: "t = CRLF @ t'" by blast
    have "index_str buf (CRLF @ CRLF) = Some (length (crlf_lines (rl # ls)) - 2)"
      using index_terminator [OF ls(3), of "t' @ CRLF @ z"] hb(3) hdr t by simp
    moreover have "length hdr = e + 2" using a(2) by (simp add: hdr_def)
    moreover have "length hdr = length (crlf_lines (rl # ls)) + 2 + length t'"
      using arg_cong [OF hdr, of length] t by simp
    ultimately show False using e(1) by simp
  qed
  with hdr have "hdr @ CRLF = request_block rl ls" by (simp only: request_block_lines append_Nil2)
  with hb ls(3,4) show "\<exists>rl ls rest. buf = request_block rl ls @ rest \<and> c = length (request_block rl ls) \<and>
      list_all good_line (rl # ls) \<and> parse_lines rl ls (zero_request\<lparr>Raw := request_block rl ls\<rparr>) = Inr req"
    by (intro exI [of _ rl] exI [of _ ls] exI [of _ z]) simp
next
  assume "\<exists>rl ls rest. buf = request_block rl ls @ rest \<and> c = length (request_block rl ls) \<and> list_all good_line (rl # ls) \<and>
        parse_lines rl ls (zero_request\<lparr>Raw := request_block rl ls\<rparr>) = Inr req"
  then obtain rl ls rest where l: "buf = request_block rl ls @ rest" "c = length (request_block rl ls)"
    "list_all good_line (rl # ls)" "parse_lines rl ls (zero_request\<lparr>Raw := request_block rl ls\<rparr>) = Inr req" by blast
  let ?n = "length (crlf_lines (rl # ls))"
  have n: "?n \<ge> 2" by simp
  have "index_str buf (CRLF @ CRLF) = Some (?n - 2)"
    using index_terminator [OF l(3), of rest] l(1) by (simp add: request_block_def)
  moreover have c0: "c = ?n + 2" unfolding l(2) request_block_lines by simp
  with n have "?n - 2 + 4 = c" by linarith
  moreover have "take c buf = request_block rl ls" unfolding l(1,2) by simp
  moreover have "take (c - 2) buf = crlf_lines (rl # ls)"
    unfolding c0 l(1) request_block_lines by (simp del: line_simps)
  moreover have "index_str (crlf_lines (rl # ls)) CRLF = Some (length rl)"
    using index_CRLF [of rl "crlf_lines ls"] l(3) by (simp add: good_line_def)
  moreover have "take (length rl) (crlf_lines (rl # ls)) = rl" "drop (length rl + 2) (crlf_lines (rl # ls)) = crlf_lines ls"
    by simp_all
  ultimately show "parseRequestFromBuf buf = Inr (c, req)"
    unfolding parseRequestFromBuf_def using l(4) by (simp only: option.case Let_def sum.case parse_lines_def)
qed

subsection \<open>What the header lines give\<close>

definition field_token :: "string \<Rightarrow> string" where
  "field_token l = takeWhile (\<lambda>c. c \<noteq> CHR '':'') l"

definition field_value :: "string \<Rightarrow> string" where
  "field_value l = trimSpace (drop (Suc (length (field_token l))) l)"

definition vals :: "string \<Rightarrow> string list \<Rightarrow> string list" where
  \<comment> \<open>the values of the header fields with the given lower-case name, in order\<close>
  "vals n ls = map field_value (filter (\<lambda>l. to_lower (field_token l) = n) ls)"

lemma vals_simps [simp]:
  "vals n [] = []"
  "vals n (l # ls) = (if to_lower (field_token l) = n then field_value l # vals n ls else vals n ls)"
  by (simp_all add: vals_def)

lemma index_byte_takeWhile: "index_byte l c = Some i \<Longrightarrow> take i l = takeWhile (\<lambda>d. d \<noteq> c) l \<and> i = length (takeWhile (\<lambda>d. d \<noteq> c) l)"
  by (induction l arbitrary: i) (auto split: if_splits)

lemma header_line_field:
  assumes "header_line l h = Inr h'"
  shows "header_field (field_token l) (field_value l) h = Inr h'" "validHeaderName (field_token l)"
    "validHeaderValue (field_value l)"
proof -
  from assms obtain i where i: "index_byte l (CHR '':'') = Some i"
    by (auto simp: header_line_def split: if_splits option.splits)
  have "take i l = field_token l" "i = length (field_token l)"
    using index_byte_takeWhile [OF i] unfolding field_token_def by blast+
  with assms i show "header_field (field_token l) (field_value l) h = Inr h'" "validHeaderName (field_token l)"
    "validHeaderValue (field_value l)"
    by (auto simp: header_line_def field_value_def Let_def split: if_splits)
qed

definition line_part :: "Request \<Rightarrow> Request" where
  \<comment> \<open>the fields that only the request line sets\<close>
  "line_part r = zero_request\<lparr>Method := Method r, RequestURI := RequestURI r, Path := Path r, Query := Query r, Raw := Raw r,
     HTTP11 := HTTP11 r\<rparr>"

definition fields_read :: "hstate \<Rightarrow> string list \<Rightarrow> hstate \<Rightarrow> bool" where
  "fields_read h ls h' \<longleftrightarrow>
     line_part (hreq h') = line_part (hreq h) \<and>
     (if vals ''host'' ls = [] then seenHost h' = seenHost h \<and> Host (hreq h') = Host (hreq h)
      else \<not> seenHost h \<and> seenHost h' \<and> vals ''host'' ls = [Host (hreq h')]) \<and>
     (if vals ''content-length'' ls = [] then seenCL h' = seenCL h \<and> ContentLen (hreq h') = ContentLen (hreq h)
      else \<not> seenCL h \<and> seenCL h' \<and>
        map parseDecimalInt64 (vals ''content-length'' ls) = [Some (ContentLen (hreq h'))]) \<and>
     (seenTE h' \<longleftrightarrow> seenTE h \<or> vals ''transfer-encoding'' ls \<noteq> []) \<and>
     list_all (\<lambda>v. to_lower v = ''identity'') (vals ''transfer-encoding'' ls) \<and>
     Auth (hreq h') = last (Auth (hreq h) # vals ''authorization'' ls) \<and>
     RangeHdr (hreq h') = last (RangeHdr (hreq h) # vals ''range'' ls)"

lemma header_field_read:
  assumes "header_field (field_token l) (field_value l) h = Inr h'"
  shows "fields_read h [l] h'"
proof -
  let ?n = "to_lower (field_token l)"
  consider "?n = ''host''" | "?n = ''range''" | "?n = ''authorization''" | "?n = ''content-length''"
    | "?n = ''transfer-encoding''" | "?n \<notin> {''host'', ''range'', ''authorization'', ''content-length'', ''transfer-encoding''}"
    by blast
  then show ?thesis
    by cases (use assms in \<open>auto simp: header_field_def asciiEqualFold_iff fields_read_def line_part_def
      split: if_splits option.splits\<close>)
qed

lemma vals_append: "vals n (ls @ ls') = vals n ls @ vals n ls'"
  by (simp add: vals_def)

lemma fields_read_trans:
  assumes "fields_read h ls h1" "fields_read h1 ls' h2"
  shows "fields_read h (ls @ ls') h2"
proof -
  note A = assms [unfolded fields_read_def]
  have "if vals ''host'' (ls @ ls') = [] then seenHost h2 = seenHost h \<and> Host (hreq h2) = Host (hreq h)
      else \<not> seenHost h \<and> seenHost h2 \<and> vals ''host'' (ls @ ls') = [Host (hreq h2)]"
    using A by (cases "vals ''host'' ls = []"; cases "vals ''host'' ls' = []") (simp_all add: vals_append)
  moreover have "if vals ''content-length'' (ls @ ls') = [] then seenCL h2 = seenCL h \<and> ContentLen (hreq h2) = ContentLen (hreq h)
      else \<not> seenCL h \<and> seenCL h2 \<and> map parseDecimalInt64 (vals ''content-length'' (ls @ ls')) = [Some (ContentLen (hreq h2))]"
    using A by (cases "vals ''content-length'' ls = []"; cases "vals ''content-length'' ls' = []") (simp_all add: vals_append)
  moreover have "seenTE h2 \<longleftrightarrow> seenTE h \<or> vals ''transfer-encoding'' (ls @ ls') \<noteq> []"
    using A by (auto simp: vals_append)
  moreover have "list_all (\<lambda>v. to_lower v = ''identity'') (vals ''transfer-encoding'' (ls @ ls'))"
    "line_part (hreq h2) = line_part (hreq h)"
    using A by (simp_all add: vals_append)
  moreover have "Auth (hreq h2) = last (Auth (hreq h) # vals ''authorization'' (ls @ ls'))"
    "RangeHdr (hreq h2) = last (RangeHdr (hreq h) # vals ''range'' (ls @ ls'))"
    using A by (auto simp: vals_append)
  ultimately show ?thesis unfolding fields_read_def by (intro conjI)
qed

lemma header_fold_read: "header_fold ls h = Inr h' \<Longrightarrow> fields_read h ls h'"
proof (induction ls arbitrary: h)
  case Nil
  then show ?case by (simp add: fields_read_def)
next
  case (Cons l ls)
  then obtain h1 where h1: "header_line l h = Inr h1" "header_fold ls h1 = Inr h'" by (auto split: sum.splits)
  from fields_read_trans [OF header_field_read [OF header_line_field(1) [OF h1(1)]] Cons.IH [OF h1(2)]] show ?case by simp
qed

lemma header_fold_valid:
  "header_fold ls h = Inr h' \<Longrightarrow> \<forall>l \<in> set ls. validHeaderName (field_token l) \<and> validHeaderValue (field_value l)"
proof (induction ls arbitrary: h)
  case (Cons l ls)
  then obtain h1 where h1: "header_line l h = Inr h1" "header_fold ls h1 = Inr h'" by (auto split: sum.splits)
  with Cons.IH [OF h1(2)] header_line_field(2,3) [OF h1(1)] show ?case by simp
qed simp

definition start_state :: "Request \<Rightarrow> hstate" where
  "start_state r = \<lparr>hreq = r\<lparr>KeepAlive := HTTP11 r\<rparr>, seenCL = False, seenTE = False, seenHost = False\<rparr>"

lemma parse_lines_Inr:
  assumes "parse_lines rl ls req = Inr r" "list_all good_line ls"
  shows "\<exists>r1 h. parseRequestLine rl req = Inr r1 \<and> header_fold ls (start_state r1) = Inr h \<and>
    \<not> (seenTE h \<and> seenCL h) \<and> seenHost h \<and> r = hreq h"
proof -
  from assms(1) obtain r1 where r1: "parseRequestLine rl req = Inr r1"
    by (auto simp: parse_lines_def parse_headers_def split: sum.splits)
  with assms obtain h where "header_block (crlf_lines ls) (start_state r1) = Inr h"
    "\<not> (seenTE h \<and> seenCL h)" "seenHost h" "r = hreq h"
    by (auto simp: parse_lines_def parse_headers_def start_state_def split: sum.splits if_splits)
  with r1 header_block_lines [OF assms(2), of "[]" "start_state r1"] show ?thesis
    by (auto split: sum.splits)
qed

lemma line_part_sel:
  assumes "line_part a = line_part b"
  shows "Method a = Method b" "RequestURI a = RequestURI b" "Path a = Path b" "Query a = Query b" "Raw a = Raw b" "HTTP11 a = HTTP11 b"
  using assms by (simp_all add: line_part_def zero_request_def)

lemma line_request_cong: "line_part a = line_part b \<Longrightarrow> line_request m t q a = line_request m t q b"
  unfolding line_request_def by (simp only: line_part_sel [of a b])

lemma parseRequestLine_other:
  assumes "parseRequestLine rl (zero_request\<lparr>Raw := x\<rparr>) = Inr r"
  shows "Auth r = []" "RangeHdr r = []" "Host r = []" "ContentLen r = 0"
  using assms by (auto simp: parseRequestLine_def Let_def zero_request_def split: option.splits if_splits)

subsection \<open>Decimal lengths\<close>

lemma wrap64_mult_add: "wrap64 (wrap64 (a * 10) + b) = wrap64 (a * 10 + b)" by simp

lemma wrap64_scale: "wrap64 (wrap64 a * 10 + b) = wrap64 (a * 10 + b)"
proof -
  have "wrap64 a = a - 2 ^ 64 * ((a + 2 ^ 63) div 2 ^ 64)"
    unfolding wrap64_def by (simp add: minus_div_mult_eq_mod [symmetric])
  then have "wrap64 a * 10 + b + 2 ^ 63 = (a * 10 + b + 2 ^ 63) + 2 ^ 64 * (- 10 * ((a + 2 ^ 63) div 2 ^ 64))"
    by (simp add: algebra_simps)
  then show ?thesis unfolding wrap64_def by (metis mod_mult_self2)
qed

lemma parse_decimal_loop_Some:
  "parse_decimal_loop v cs = Some r \<Longrightarrow> 0 \<le> v \<Longrightarrow> int64 v \<Longrightarrow>
     list_all is_digit cs \<and> 0 \<le> r \<and> int64 r \<and> r = wrap64 (foldl (\<lambda>a c. a * 10 + digit_val c) v cs)"
proof (induction cs arbitrary: v)
  case (Cons c cs)
  have step: "wrap64 (foldl (\<lambda>a c. a * 10 + digit_val c) (wrap64 x) cs) = wrap64 (foldl (\<lambda>a c. a * 10 + digit_val c) x cs)" for x
  proof (induction cs arbitrary: x)
    case (Cons d ds)
    have "wrap64 (foldl (\<lambda>a c. a * 10 + digit_val c) (wrap64 x) (d # ds)) =
        wrap64 (foldl (\<lambda>a c. a * 10 + digit_val c) (wrap64 (wrap64 x * 10 + digit_val d)) ds)"
      using Cons.IH [of "wrap64 x * 10 + digit_val d"] by simp
    also have "\<dots> = wrap64 (foldl (\<lambda>a c. a * 10 + digit_val c) (wrap64 (x * 10 + digit_val d)) ds)"
      by (simp only: wrap64_scale)
    also have "\<dots> = wrap64 (foldl (\<lambda>a c. a * 10 + digit_val c) x (d # ds))"
      using Cons.IH [of "x * 10 + digit_val d"] by simp
    finally show ?case .
  qed simp
  from Cons.prems have d: "is_digit c" "0 \<le> wrap64 (v * 10 + digit_val c)"
    "parse_decimal_loop (wrap64 (v * 10 + digit_val c)) cs = Some r"
    by (auto simp: Let_def split: if_splits)
  from Cons.IH [OF d(3,2)] d(1) step show ?case by simp
qed simp

lemma parse_decimal_loop_exact:
  "list_all is_digit cs \<Longrightarrow> 0 \<le> v \<Longrightarrow> foldl (\<lambda>a c. a * 10 + digit_val c) v cs < 2 ^ 63 \<Longrightarrow>
     parse_decimal_loop v cs = Some (foldl (\<lambda>a c. a * 10 + digit_val c) v cs)"
proof (induction cs arbitrary: v)
  case (Cons c cs)
  have mono: "x \<le> foldl (\<lambda>a c. a * 10 + digit_val c) x cs" if "0 \<le> x" for x
    using that Cons.prems(1)
  proof (induction cs arbitrary: x)
    case (Cons d ds)
    then have "0 \<le> digit_val d" using digit_val_bounds by auto
    with Cons.IH [of "x * 10 + digit_val d"] Cons.prems show ?case by auto
  qed simp
  from Cons.prems(1) have d: "0 \<le> digit_val c" "is_digit c" using digit_val_bounds by auto
  with Cons.prems mono [of "v * 10 + digit_val c"] have "v * 10 + digit_val c < 2 ^ 63" by simp
  with d Cons.prems(2) have w: "wrap64 (v * 10 + digit_val c) = v * 10 + digit_val c" by (intro wrap64_nonneg) simp_all
  from Cons.IH [of "v * 10 + digit_val c"] Cons.prems d w show ?case by (simp add: Let_def)
qed simp

subsection \<open>Properties\<close>

text \<open>C10: the two request parsers agree, byte for byte. \<open>readRequest\<close> accepts a request from the bytes of
  a connection exactly when \<open>parseRequestFromBuf\<close> accepts it from the same bytes with a head of at most
  16384 bytes, they give the same \<open>Request\<close>, and the bytes that remain for the next request are the ones
  behind the consumed count. In particular a head that ends in a bare line feed is accepted by neither.\<close>

theorem parsers_agree:
  "readRequest inp = Inr (req, rest) \<longleftrightarrow>
     (\<exists>c. parseRequestFromBuf inp = Inr (c, req) \<and> c \<le> headerScratchSize \<and> rest = drop c inp)"
proof
  assume "readRequest inp = Inr (req, rest)"
  then obtain rl ls where l: "inp = request_block rl ls @ rest" "small_block rl ls" "list_all good_line (rl # ls)"
    "parse_lines rl ls (zero_request\<lparr>Raw := request_block rl ls\<rparr>) = Inr req"
    unfolding readRequest_iff by blast
  then have "parseRequestFromBuf inp = Inr (length (request_block rl ls), req)"
    unfolding parseRequestFromBuf_iff by blast
  with l show "\<exists>c. parseRequestFromBuf inp = Inr (c, req) \<and> c \<le> headerScratchSize \<and> rest = drop c inp"
    by (intro exI [of _ "length (request_block rl ls)"]) (simp add: small_block_def)
next
  assume "\<exists>c. parseRequestFromBuf inp = Inr (c, req) \<and> c \<le> headerScratchSize \<and> rest = drop c inp"
  then obtain rl ls rest' where l: "inp = request_block rl ls @ rest'" "length (request_block rl ls) \<le> headerScratchSize"
    "list_all good_line (rl # ls)" "parse_lines rl ls (zero_request\<lparr>Raw := request_block rl ls\<rparr>) = Inr req"
    "rest = drop (length (request_block rl ls)) inp"
    unfolding parseRequestFromBuf_iff by blast
  then have "rest' = rest" by simp
  with l show "readRequest inp = Inr (req, rest)"
    unfolding readRequest_iff small_block_def by blast
qed


definition demo_lines :: "string list" where
  "demo_lines = [''Host: hub'', ''X-A:1'', ''authorization:  Bearer t '']"

lemma demo_parse:
  "readRequest (request_block ''GET /a?b HTTP/1.1'' demo_lines @ ''XY'') =
     Inr (zero_request\<lparr>Method := ''GET'', RequestURI := ''/a?b'', Path := ''/a'', Query := ''b'', Host := ''hub'',
       Auth := ''Bearer t'', Raw := request_block ''GET /a?b HTTP/1.1'' demo_lines, KeepAlive := True, HTTP11 := True\<rparr>, ''XY'')"
proof -
  have g: "list_all good_line (''GET /a?b HTTP/1.1'' # demo_lines)" by (simp add: good_line_def demo_lines_def)
  have "parse_lines ''GET /a?b HTTP/1.1'' demo_lines (zero_request\<lparr>Raw := x\<rparr>) =
      Inr (zero_request\<lparr>Method := ''GET'', RequestURI := ''/a?b'', Path := ''/a'', Query := ''b'', Host := ''hub'',
       Auth := ''Bearer t'', Raw := x, KeepAlive := True, HTTP11 := True\<rparr>)" for x
    by code_simp
  with g show ?thesis
    unfolding readRequest_iff
    by (intro exI [of _ "''GET /a?b HTTP/1.1''"] exI [of _ demo_lines])
      (simp add: small_block_def request_block_def demo_lines_def headerScratchSize_def)
qed


text \<open>\<open>parseDecimalInt64\<close> returns a non-negative 64-bit number and only for digit strings; the number is the
  value of the digits modulo \<open>2^64\<close>, and every value below \<open>2^63\<close> is returned exactly. The overflow test
  only sees the sign, so a longer string can be accepted with a wrong value: \<open>parseDecimalInt64_overflow\<close>.\<close>

theorem parseDecimalInt64_bounds:
  "case parseDecimalInt64 b of
     Some v \<Rightarrow> b \<noteq> [] \<and> list_all is_digit b \<and> 0 \<le> v \<and> v < 2 ^ 63 \<and> v = wrap64 (digits_val b)
   | None \<Rightarrow> b = [] \<or> list_ex (\<lambda>c. \<not> is_digit c) b \<or> digits_val b \<ge> 2 ^ 63"
proof (cases "parseDecimalInt64 b")
  case (Some v)
  then have "parse_decimal_loop 0 b = Some v" "b \<noteq> []" by (auto simp: parseDecimalInt64_def split: if_splits)
  with parse_decimal_loop_Some [of 0 b v] Some show ?thesis
    by (simp add: digits_val_def int64_def)
next
  case None
  have "parse_decimal_loop 0 b = Some (digits_val b)" if "list_all is_digit b" "digits_val b < 2 ^ 63"
    using parse_decimal_loop_exact [OF that(1), of 0] that(2) unfolding digits_val_def by simp
  with None have "b = [] \<or> \<not> list_all is_digit b \<or> digits_val b \<ge> 2 ^ 63"
    by (auto simp: parseDecimalInt64_def not_le [symmetric] split: if_splits)
  with None show ?thesis by (auto simp: list_all_iff list_ex_iff)
qed

lemma parseDecimalInt64_overflow: "parseDecimalInt64 ''20000000000000000000'' = Some 1553255926290448384"
  by code_simp

end
