(* ===== verification/Http_Header.thy ===== *)
theory Http_Header
  imports Http_Parser "HOL-Library.AList"
begin

text \<open>
  Go's \<open>http.Header\<close>: a map from canonical names to value lists, as an association list, with
  \<open>Get\<close>, \<open>Set\<close>, \<open>Add\<close>, \<open>Del\<close> and \<open>http.CanonicalHeaderKey\<close>; and \<open>http.Error\<close>. The order of the list stands for the
  order in which a \<open>range\<close> loop happens to visit the map.
\<close>

type_synonym header = "(string \<times> string list) list"

fun canon_loop :: "bool \<Rightarrow> string \<Rightarrow> string" where
  "canon_loop up [] = []"
| "canon_loop up (c # cs) =
     (if up then upper_char c else lower_char c) # canon_loop (c = CHR ''-'') cs"

definition CanonicalHeaderKey :: "string \<Rightarrow> string" where
  \<comment> \<open>a name with a byte that no token has is left alone\<close>
  "CanonicalHeaderKey k = (if list_all isTchar k then canon_loop True k else k)"

definition hdr_values :: "header \<Rightarrow> string \<Rightarrow> string list" where
  "hdr_values h k = (case map_of h (CanonicalHeaderKey k) of None \<Rightarrow> [] | Some vs \<Rightarrow> vs)"

definition hdr_get :: "header \<Rightarrow> string \<Rightarrow> string" where
  "hdr_get h k = (case hdr_values h k of [] \<Rightarrow> [] | v # _ \<Rightarrow> v)"

definition hdr_set :: "string \<Rightarrow> string \<Rightarrow> header \<Rightarrow> header" where
  "hdr_set k v h = AList.update (CanonicalHeaderKey k) [v] h"

definition hdr_add :: "string \<Rightarrow> string \<Rightarrow> header \<Rightarrow> header" where
  "hdr_add k v h = AList.update (CanonicalHeaderKey k) (hdr_values h k @ [v]) h"

definition hdr_del :: "string \<Rightarrow> header \<Rightarrow> header" where
  "hdr_del k h = AList.delete (CanonicalHeaderKey k) h"

definition add_all :: "string \<Rightarrow> string list \<Rightarrow> header \<Rightarrow> header" where
  \<comment> \<open>\<open>for _, v := range vv { hdr.Add(k, v) }\<close>\<close>
  "add_all k vs h = foldl (\<lambda>a v. hdr_add k v a) h vs"

record response =
  rStatus :: int
  rHeader :: header
  rBody :: string

definition http_Error :: "header \<Rightarrow> string \<Rightarrow> int \<Rightarrow> response" where
  "http_Error h msg code =
     \<lparr>rStatus = code,
      rHeader = hdr_set ''X-Content-Type-Options'' ''nosniff''
        (hdr_set ''Content-Type'' ''text/plain; charset=utf-8'' (hdr_del ''Content-Length'' h)),
      rBody = msg @ [LF]\<rparr>"

subsection \<open>Lemmas\<close>

lemma to_lower_canon_loop: "to_lower (canon_loop up k) = to_lower k"
  by (induction up k rule: canon_loop.induct) (auto simp: to_lower_def lower_char_def upper_char_def)

lemma to_lower_canon [simp]: "to_lower (CanonicalHeaderKey k) = to_lower k"
  by (simp add: CanonicalHeaderKey_def to_lower_canon_loop)

lemma canon_loop_chars: "c \<in> set (canon_loop up k) \<Longrightarrow> \<exists>d \<in> set k. c = upper_char d \<or> c = lower_char d"
  by (induction up k rule: canon_loop.induct) (auto split: if_splits)

lemma map_of_hdr_set: "map_of (hdr_set k v h) = (map_of h)(CanonicalHeaderKey k \<mapsto> [v])"
  by (simp add: hdr_set_def update_conv')

lemma hdr_get_set: "hdr_get (hdr_set k v h) k' = (if CanonicalHeaderKey k' = CanonicalHeaderKey k then v else hdr_get h k')"
  by (simp add: hdr_get_def hdr_values_def map_of_hdr_set)

lemma canon_names [simp]:
  "CanonicalHeaderKey ''Content-Length'' = ''Content-Length''" "CanonicalHeaderKey ''Content-Range'' = ''Content-Range''"
  by code_simp+

lemma map_of_hdr_add: "map_of (hdr_add k v h) = (map_of h)(CanonicalHeaderKey k \<mapsto> hdr_values h k @ [v])"
  by (simp add: hdr_add_def update_conv')

lemma map_of_hdr_del: "map_of (hdr_del k h) = (map_of h)(CanonicalHeaderKey k := None)"
  by (simp add: hdr_del_def delete_conv')

definition all_fields :: "(string \<Rightarrow> string \<Rightarrow> bool) \<Rightarrow> header \<Rightarrow> bool" where
  \<comment> \<open>every value of every header satisfies the predicate, given the canonical name\<close>
  "all_fields P h \<longleftrightarrow> (\<forall>k vs v. map_of h k = Some vs \<longrightarrow> v \<in> set vs \<longrightarrow> P k v)"

lemma all_fields_Nil [simp]: "all_fields P []"
  by (simp add: all_fields_def)

lemma all_fields_set: "all_fields P h \<Longrightarrow> P (CanonicalHeaderKey k) v \<Longrightarrow> all_fields P (hdr_set k v h)"
  by (auto simp: all_fields_def map_of_hdr_set)

lemma all_fields_add: "all_fields P h \<Longrightarrow> P (CanonicalHeaderKey k) v \<Longrightarrow> all_fields P (hdr_add k v h)"
  by (cases "map_of h (CanonicalHeaderKey k)") (auto simp: all_fields_def map_of_hdr_add hdr_values_def)

lemma all_fields_del: "all_fields P h \<Longrightarrow> all_fields P (hdr_del k h)"
  by (auto simp: all_fields_def map_of_hdr_del)

lemma all_fields_add_all:
  "all_fields P h \<Longrightarrow> (\<And>v. v \<in> set vs \<Longrightarrow> P (CanonicalHeaderKey k) v) \<Longrightarrow> all_fields P (add_all k vs h)"
  unfolding add_all_def by (induction vs arbitrary: h) (auto intro: all_fields_add)

lemma all_fields_mono: "all_fields P h \<Longrightarrow> (\<And>k v. P k v \<Longrightarrow> Q k v) \<Longrightarrow> all_fields Q h"
  by (auto simp: all_fields_def)

lemma all_fields_foldl:
  "all_fields P h \<Longrightarrow> (\<And>a x. x \<in> set xs \<Longrightarrow> all_fields P a \<Longrightarrow> all_fields P (f a x)) \<Longrightarrow> all_fields P (foldl f h xs)"
  by (induction xs arbitrary: h) auto

end
