(* ===== verification/Host_Allow.thy ===== *)
theory Host_Allow
  imports Go_Prelude
begin

text \<open>
  The upstream host gate of \<open>internal/hostallow/hostallow.go\<close>, with the part of Go's \<open>net\<close> it uses:
  \<open>net.ParseIP\<close> (IPv4 and IPv6 literals, as \<open>netip.ParseAddr\<close> reads them) and the address classes.
  An address is its 16 bytes; IPv4 addresses are the mapped ones.
\<close>

subsection \<open>IP literals\<close>

type_synonym ip = "int list"

definition v4_in_v6 :: "int list \<Rightarrow> ip" where
  "v4_in_v6 f = replicate 10 0 @ [255, 255] @ f"

definition ipv4_field :: "string \<Rightarrow> int option" where
  "ipv4_field s =
     (if s = [] \<or> \<not> list_all is_digit s \<or> (length s > 1 \<and> hd s = CHR ''0'') \<or> digits_val s > 255 then None
      else Some (digits_val s))"

definition parseIPv4Fields :: "string \<Rightarrow> int list option" where
  "parseIPv4Fields s =
     (let fs = map ipv4_field (split_on (CHR ''.'') s)
      in if length fs = 4 \<and> None \<notin> set fs then Some (map the fs) else None)"

definition hex_digit :: "char \<Rightarrow> int option" where
  "hex_digit c =
     (if is_digit c then Some (digit_val c)
      else if 97 \<le> byte c \<and> byte c \<le> 102 then Some (int (byte c) - 87)
      else if 65 \<le> byte c \<and> byte c \<le> 70 then Some (int (byte c) - 55) else None)"

definition hex_val :: "string \<Rightarrow> int" where
  "hex_val s = foldl (\<lambda>a c. a * 16 + (case hex_digit c of Some d \<Rightarrow> d | None \<Rightarrow> 0)) 0 s"

fun ipv6_groups :: "nat \<Rightarrow> string \<Rightarrow> int list \<Rightarrow> nat option \<Rightarrow> (int list \<times> nat option) option" where
  \<comment> \<open>the loop of \<open>parseIPv6\<close>: \<open>n\<close> groups may still come, \<open>acc\<close> is \<open>ip[:i]\<close>, then the offset of the
      ellipsis; the result is the bytes read, with the whole string used\<close>
  "ipv6_groups 0 s acc ell = (if s = [] then Some (acc, ell) else None)"
| "ipv6_groups (Suc n) s acc ell =
     (let h = takeWhile (\<lambda>c. hex_digit c \<noteq> None) s; r = drop (length h) s
      in if h = [] \<or> length h > 4 then None
         else if r \<noteq> [] \<and> hd r = CHR ''.'' then
           (if ell = None \<and> length acc \<noteq> 12 \<or> length acc + 4 > 16 then None
            else case parseIPv4Fields s of None \<Rightarrow> None | Some f \<Rightarrow> Some (acc @ f, ell))
         else let acc' = acc @ [hex_val h div 256, hex_val h mod 256]
              in case r of
                   [] \<Rightarrow> Some (acc', ell)
                 | c # t \<Rightarrow>
                     if c \<noteq> CHR '':'' \<or> t = [] then None
                     else if hd t = CHR '':'' then
                       (if ell \<noteq> None then None
                        else if tl t = [] then Some (acc', Some (length acc'))
                        else ipv6_groups n (tl t) acc' (Some (length acc')))
                     else ipv6_groups n t acc' ell)"

definition ipv6_expand :: "int list \<times> nat option \<Rightarrow> ip option" where
  "ipv6_expand r =
     (case r of (acc, ell) \<Rightarrow>
        if length acc < 16
        then (case ell of None \<Rightarrow> None
              | Some e \<Rightarrow> Some (take e acc @ replicate (16 - length acc) 0 @ drop e acc))
        else if ell = None then Some acc else None)"

definition parseIPv6 :: "string \<Rightarrow> ip option" where
  \<comment> \<open>a zone makes \<open>net.ParseIP\<close> fail in any case\<close>
  "parseIPv6 s =
     (if CHR ''%'' \<in> set s then None
      else if has_prefix s ''::'' then
        (if drop 2 s = [] then Some (replicate 16 0)
         else Option.bind (ipv6_groups 8 (drop 2 s) [] (Some 0)) ipv6_expand)
      else Option.bind (ipv6_groups 8 s [] None) ipv6_expand)"

definition ParseIP :: "string \<Rightarrow> ip option" where
  \<comment> \<open>\<open>net.ParseIP\<close>: the first dot, colon or percent sign decides\<close>
  "ParseIP s =
     (case find (\<lambda>c. c = CHR ''.'' \<or> c = CHR '':'' \<or> c = CHR ''%'') s of
        None \<Rightarrow> None
      | Some c \<Rightarrow> if c = CHR ''.'' then map_option v4_in_v6 (parseIPv4Fields s)
                 else if c = CHR '':'' then parseIPv6 s else None)"

definition To4 :: "ip \<Rightarrow> int list option" where
  "To4 p = (if take 12 p = replicate 10 0 @ [255, 255] then Some (drop 12 p) else None)"

definition IsLoopback :: "ip \<Rightarrow> bool" where
  "IsLoopback p = (case To4 p of Some f \<Rightarrow> f ! 0 = 127 | None \<Rightarrow> p = replicate 15 0 @ [1])"

definition IsPrivate :: "ip \<Rightarrow> bool" where
  "IsPrivate p = (case To4 p of
      Some f \<Rightarrow> f ! 0 = 10 \<or> (f ! 0 = 172 \<and> f ! 1 div 16 = 1) \<or> (f ! 0 = 192 \<and> f ! 1 = 168)
    | None \<Rightarrow> p ! 0 div 2 = 126)"

definition IsLinkLocalUnicast :: "ip \<Rightarrow> bool" where
  "IsLinkLocalUnicast p = (case To4 p of
      Some f \<Rightarrow> f ! 0 = 169 \<and> f ! 1 = 254
    | None \<Rightarrow> p ! 0 = 254 \<and> p ! 1 div 64 = 2)"

definition IsLinkLocalMulticast :: "ip \<Rightarrow> bool" where
  "IsLinkLocalMulticast p = (case To4 p of
      Some f \<Rightarrow> f ! 0 = 224 \<and> f ! 1 = 0 \<and> f ! 2 = 0
    | None \<Rightarrow> p ! 0 = 255 \<and> p ! 1 mod 16 = 2)"

definition IsUnspecified :: "ip \<Rightarrow> bool" where
  "IsUnspecified p \<longleftrightarrow> p = v4_in_v6 [0, 0, 0, 0] \<or> p = replicate 16 0"

subsection \<open>The matcher\<close>

definition trim_brackets :: "string \<Rightarrow> string" where
  \<comment> \<open>\<open>strings.Trim(s, "[]")\<close>\<close>
  "trim_brackets s =
     rev (dropWhile (\<lambda>c. c = CHR ''['' \<or> c = CHR '']'') (rev (dropWhile (\<lambda>c. c = CHR ''['' \<or> c = CHR '']'') s)))"

definition denyHostnames :: "string list" where
  "denyHostnames = [''localhost'', ''metadata.google.internal'', ''metadata.aws.internal'', ''169.254.169.254'']"

definition bareHost :: "string \<Rightarrow> string" where
  "bareHost h =
     (case last_index_byte h (CHR '':'') of
        Some i \<Rightarrow>
          if has_prefix h ''['' then
            (case index_byte h (CHR '']'') of
               Some j \<Rightarrow> if j > 0 then trim_brackets (take (j + 1) h) else h
             | None \<Rightarrow> h)
          else take i h
      | None \<Rightarrow> if has_prefix h ''['' then trim_brackets h else h)"

definition parseHostIP :: "string \<Rightarrow> ip option" where
  "parseHostIP bare = ParseIP (trim_brackets bare)"

definition ipIsPrivate :: "ip \<Rightarrow> bool" where
  "ipIsPrivate p \<longleftrightarrow>
     IsLoopback p \<or> IsLinkLocalUnicast p \<or> IsLinkLocalMulticast p \<or> IsPrivate p \<or> IsUnspecified p"

fun allow_loop :: "string list \<Rightarrow> string \<Rightarrow> string \<Rightarrow> bool" where
  "allow_loop [] h bare = False"
| "allow_loop (a # as) h bare =
     (if h = a \<or> has_suffix h (CHR ''.'' # a) then True
      else if bare = a \<or> has_suffix bare (CHR ''.'' # a) then True
      else allow_loop as h bare)"

definition Matcher :: "string list \<Rightarrow> string \<Rightarrow> bool" where
  \<comment> \<open>the function that \<open>New(allowed)\<close> returns\<close>
  "Matcher allowed host =
     (let h = to_lower (trim_space host); bare = bareHost h
      in if h = [] then False
         else if bare \<in> set denyHostnames then False
         else if (case parseHostIP bare of Some p \<Rightarrow> ipIsPrivate p | None \<Rightarrow> False) then False
         else allow_loop allowed h bare)"

subsection \<open>Literals are recognised\<close>

definition octet :: "nat \<Rightarrow> bool" where "octet n \<longleftrightarrow> n < 256"

definition print4 :: "nat \<Rightarrow> nat \<Rightarrow> nat \<Rightarrow> nat \<Rightarrow> string" where
  "print4 a b c d = join_with ''.'' (map format_nat [a, b, c, d])"

definition v4_chars :: "string \<Rightarrow> bool" where
  "v4_chars s \<longleftrightarrow> list_all (\<lambda>c. is_digit c \<or> c = CHR ''.'') s"

lemma ipv4_field_format: "octet n \<Longrightarrow> ipv4_field (format_nat n) = Some (int n)"
  using format_nat_hd [of n] digits_val_format_nat [of n] format_nat_digits [of n]
  by (cases "n = 0") (auto simp: ipv4_field_def octet_def format_nat_0)

lemma format_nat_no: "\<not> is_digit c \<Longrightarrow> c \<notin> set (format_nat n)"
  using format_nat_digits [of n] by (auto simp: list_all_iff)

lemma parseIPv4Fields_print:
  assumes "octet a" "octet b" "octet c" "octet d"
  shows "parseIPv4Fields (print4 a b c d) = Some [int a, int b, int c, int d]"
proof -
  have "split_on (CHR ''.'') (print4 a b c d) = map format_nat [a, b, c, d]"
    unfolding print4_def by (rule split_on_join) (auto simp: format_nat_no is_digit_def)
  with assms show ?thesis by (simp add: parseIPv4Fields_def ipv4_field_format)
qed

lemma print4_chars: "v4_chars (print4 a b c d)"
  using format_nat_digits by (auto simp: v4_chars_def print4_def list_all_iff)

lemma print4_ne: "print4 a b c d \<noteq> []" "hd (print4 a b c d) = hd (format_nat a)" "last (print4 a b c d) = last (format_nat d)"
  by (simp_all add: print4_def)

lemma ParseIP_print4:
  assumes "octet a" "octet b" "octet c" "octet d"
  shows "ParseIP (print4 a b c d) = Some (v4_in_v6 [int a, int b, int c, int d])"
proof -
  have "find (\<lambda>c. c = CHR ''.'' \<or> c = CHR '':'' \<or> c = CHR ''%'') (print4 a b c d) = Some (CHR ''.'')"
  proof -
    have *: "find P (xs @ x # ys) = Some x" if "\<forall>y \<in> set xs. \<not> P y" "P x" for P xs and x :: char and ys
      using that by (induction xs) auto
    have "print4 a b c d = format_nat a @ CHR ''.'' # join_with ''.'' (map format_nat [b, c, d])"
      by (simp add: print4_def)
    moreover have "\<forall>y \<in> set (format_nat a). \<not> (y = CHR ''.'' \<or> y = CHR '':'' \<or> y = CHR ''%'')"
      using format_nat_digits [of a] by (auto simp: list_all_iff is_digit_def)
    ultimately show ?thesis
      using * [of "format_nat a" "\<lambda>c. c = CHR ''.'' \<or> c = CHR '':'' \<or> c = CHR ''%''" "CHR ''.''"] by (simp only: simp_thms)
  qed
  with assms show ?thesis by (simp add: ParseIP_def parseIPv4Fields_print)
qed

definition private4 :: "nat \<Rightarrow> nat \<Rightarrow> nat \<Rightarrow> nat \<Rightarrow> bool" where
  \<comment> \<open>the IPv4 blocks that the package comment lists, and the unspecified address\<close>
  "private4 a b c d \<longleftrightarrow>
     a = 127 \<or> (a = 169 \<and> b = 254) \<or> a = 10 \<or> (a = 172 \<and> 16 \<le> b \<and> b \<le> 31) \<or> (a = 192 \<and> b = 168) \<or>
     (a = 0 \<and> b = 0 \<and> c = 0 \<and> d = 0)"

lemma ipIsPrivate_private4: "private4 a b c d \<Longrightarrow> ipIsPrivate (v4_in_v6 [int a, int b, int c, int d])"
proof -
  assume p: "private4 a b c d"
  have "int b div 16 = 1" if "16 \<le> b" "b \<le> 31" using that by presburger
  moreover have t4: "To4 (v4_in_v6 f) = Some f" for f by (simp add: To4_def v4_in_v6_def)
  ultimately show ?thesis
    using p by (auto simp: private4_def ipIsPrivate_def IsLoopback_def IsPrivate_def IsLinkLocalUnicast_def IsUnspecified_def)
qed

definition port_suffix :: "string \<Rightarrow> bool" where
  "port_suffix p \<longleftrightarrow> p = [] \<or> (hd p = CHR '':'' \<and> list_all is_digit (tl p))"

lemma bareHost_port:
  assumes "v4_chars h" "h \<noteq> []" "port_suffix p"
  shows "bareHost (h @ p) = h" "trim_brackets h = h"
proof -
  have nb: "c \<in> set h \<Longrightarrow> c \<noteq> CHR ''['' \<and> c \<noteq> CHR '']'' \<and> c \<noteq> CHR '':''" for c
    using assms(1) by (auto simp: v4_chars_def list_all_iff is_digit_def)
  then have hd: "hd h \<noteq> CHR ''[''" "hd h \<noteq> CHR '']''" "last h \<noteq> CHR ''[''" "last h \<noteq> CHR '']''"
    using assms(2) hd_in_set last_in_set by auto
  have dw: "dropWhile P xs = xs" if "xs \<noteq> []" "\<not> P (hd xs)" for P and xs :: string
    using that by (cases xs) auto
  show "trim_brackets h = h"
    using hd assms(2) by (simp add: trim_brackets_def dw hd_rev)
  have pf: "\<not> has_prefix (h @ p) ''[''" using assms(2) hd by (cases h) auto
  show "bareHost (h @ p) = h"
  proof (cases p)
    case Nil
    then show ?thesis using pf nb last_index_byte_None [of h "CHR '':''"] by (auto simp: bareHost_def)
  next
    case (Cons x ds)
    with assms(3) have x: "x = CHR '':''" "CHR '':'' \<notin> set ds" by (auto simp: port_suffix_def list_all_iff is_digit_def)
    from last_index_byte_append [OF x(2), of h] pf Cons x show ?thesis by (simp add: bareHost_def)
  qed
qed

lemma v4_host_normal:
  assumes "v4_chars h" "h \<noteq> []" "is_digit (hd h)" "is_digit (last h)" "port_suffix p"
  shows "to_lower (trim_space (h @ p)) = h @ p"
proof -
  have colon: "printable (CHR '':'')" by (simp add: printable_def)
  have "printable (last (h @ p))"
    using assms colon by (cases p) (auto simp: port_suffix_def list_all_iff last_append intro!: is_digit_printable)
  then have "trim_space (h @ p) = h @ p"
    using assms(2,3) by (intro trim_space_printable) (simp_all add: is_digit_printable)
  moreover have "to_lower (h @ p) = h @ p"
    using assms(1,5) by (intro to_lower_id) (cases p; auto simp: v4_chars_def port_suffix_def list_all_iff is_digit_def)
  ultimately show ?thesis by simp
qed

lemma allow_loop_iff:
  "allow_loop as h bare \<longleftrightarrow>
     (\<exists>a \<in> set as. h = a \<or> has_suffix h (CHR ''.'' # a) \<or> bare = a \<or> has_suffix bare (CHR ''.'' # a))"
  by (induction as) auto

text \<open>C11: the host gate. No allowlist admits an IPv4 literal of a loopback, link-local, private or unspecified
  block, with or without a port; and a host that is admitted is one of the entries or a subdomain of one,
  up to letter case, surrounding white space and a port. (An IPv6 literal without brackets is not recognised as
  an address: \<open>Matcher_ipv6_unbracketed\<close>.)\<close>

theorem Matcher_gate:
  assumes "octet a" "octet b" "octet c" "octet d" "private4 a b c d" "port_suffix port"
  shows "\<not> Matcher allowed (print4 a b c d @ port) \<and>
    (\<forall>host. Matcher allowed host \<longrightarrow>
       (\<exists>x \<in> set allowed. \<exists>h \<in> {to_lower (trim_space host), bareHost (to_lower (trim_space host))}.
          h = x \<or> has_suffix h (CHR ''.'' # x)))"
proof
  let ?h = "print4 a b c d"
  have "is_digit (hd ?h)" "is_digit (last ?h)"
    using format_nat_digits [of a] format_nat_digits [of d] format_nat_ne [of a] format_nat_ne [of d]
    unfolding print4_ne(2,3) list_all_iff by (blast intro: hd_in_set last_in_set)+
  note n = v4_host_normal [OF print4_chars print4_ne(1) this assms(6)]
  note b = bareHost_port [OF print4_chars print4_ne(1) assms(6), of a b c d]
  have "parseHostIP ?h = Some (v4_in_v6 [int a, int b, int c, int d])"
    using assms(1-4) by (simp add: parseHostIP_def b(2) ParseIP_print4)
  with ipIsPrivate_private4 [OF assms(5)] show "\<not> Matcher allowed (?h @ port)"
    by (simp add: Matcher_def Let_def n b(1))
  show "\<forall>host. Matcher allowed host \<longrightarrow>
       (\<exists>x \<in> set allowed. \<exists>h \<in> {to_lower (trim_space host), bareHost (to_lower (trim_space host))}.
          h = x \<or> has_suffix h (CHR ''.'' # x))"
    by (auto simp: Matcher_def Let_def allow_loop_iff split: if_splits)
qed

theorem Matcher_gate_witness:
  "private4 10 0 0 7 \<and> \<not> Matcher [''10.0.0.7''] (print4 10 0 0 7 @ '':443'')"
  using Matcher_gate [of 10 0 0 7 "'':443''" "[''10.0.0.7'']"]
  by (simp add: octet_def private4_def port_suffix_def is_digit_def)

lemma Matcher_ipv6_unbracketed: "Matcher [''::1''] ''::1'' \<and> \<not> Matcher [''::1''] ''[::1]:80''"
  by code_simp

end
