(* ===== verification/Upstream.thy ===== *)
theory Upstream
  imports Http_Header Host_Allow
begin

text \<open>
  The upstream client of \<open>internal/upstream/upstream.go\<close>: the outbound host gate, the URL it builds and the
  headers it sends. What a server answers is a parameter (\<open>net\<close>), a function of the request on the
  wire; timeouts and connection pooling are part of it.
\<close>

record Config =
  DefaultHost :: string
  AllowHost :: "string list"
  UpstreamScheme :: string
  UpstreamHFToken :: string
  Offline :: bool
  StrictOffline :: bool
  InflightAcquireTimeout :: int
  MaxKeyHexEntries :: int

record wire_request =
  wMethod :: string
  wScheme :: string
  wHost :: string
  wPath :: string
  wQuery :: string
  wHeader :: header
  wBody :: string

record up_response =
  upStatus :: int
  upHeader :: header
  upContentLength :: int
  upBody :: "string list"             \<comment> \<open>the chunks the body yields, up to its end or its error\<close>

definition normDefaultHost :: "Config \<Rightarrow> string" where
  "normDefaultHost cfg = to_lower (trim_space (DefaultHost cfg))"

definition hostAllowed :: "Config \<Rightarrow> string \<Rightarrow> bool" where
  "hostAllowed cfg host =
     (let h = to_lower (trim_space host)
      in if h \<noteq> [] \<and> h = normDefaultHost cfg then True else Matcher (AllowHost cfg) h)"

definition hopByHop :: "string list" where
  "hopByHop = [''connection'', ''keep-alive'', ''proxy-connection'', ''upgrade'', ''te'', ''trailer'',
     ''transfer-encoding'', ''host'', ''proxy-authorization'']"

definition upstreamURL :: "Config \<Rightarrow> string \<Rightarrow> string \<Rightarrow> string \<Rightarrow> (string \<times> string \<times> string \<times> string) option" where
  \<comment> \<open>scheme, host, path and query of the URL\<close>
  "upstreamURL cfg host path query =
     (let h = to_lower (trim_space host)
      in if h = [] then None
         else if \<not> hostAllowed cfg h then None
         else Some (UpstreamScheme cfg, h, if path = [] then ''/'' else path, query))"

definition applyHeaders :: "header \<Rightarrow> header" where
  "applyHeaders hdr =
     foldl (\<lambda>acc (k, vv). if to_lower k \<in> set hopByHop then acc else add_all k vv acc) [] hdr"

definition Do ::
  "(wire_request \<Rightarrow> up_response option) \<Rightarrow> Config \<Rightarrow> string \<Rightarrow> string \<Rightarrow> string \<Rightarrow> string \<Rightarrow> header \<Rightarrow> string \<Rightarrow>
   up_response option \<times> wire_request list" where
  \<comment> \<open>the response and the requests that went out\<close>
  "Do net cfg meth host path query hdr bdy =
     (case upstreamURL cfg host path query of
        None \<Rightarrow> (None, [])
      | Some (sch, h, p, q) \<Rightarrow>
          let r = \<lparr>wMethod = meth, wScheme = sch, wHost = h, wPath = p, wQuery = q, wHeader = applyHeaders hdr, wBody = bdy\<rparr>
          in (net r, [r]))"

lemma applyHeaders_fields:
  assumes "all_fields P hdr" "distinct (map fst hdr)"
    "\<And>k v. P k v \<Longrightarrow> P (CanonicalHeaderKey k) v"
  shows "all_fields (\<lambda>k v. P k v \<and> to_lower k \<notin> set hopByHop) (applyHeaders hdr)"
  unfolding applyHeaders_def
proof (rule all_fields_foldl)
  fix a x assume x: "x \<in> set hdr" and a: "all_fields (\<lambda>k v. P k v \<and> to_lower k \<notin> set hopByHop) a"
  obtain k vv where kv: "x = (k, vv)" by (cases x)
  with x assms(2) have "map_of hdr k = Some vv" by simp
  with assms(1) have "\<And>v. v \<in> set vv \<Longrightarrow> P k v" by (auto simp: all_fields_def)
  with a assms(3) show "all_fields (\<lambda>k v. P k v \<and> to_lower k \<notin> set hopByHop)
      (case x of (k, vv) \<Rightarrow> if to_lower k \<in> set hopByHop then a else add_all k vv a)"
    by (auto simp: kv intro!: all_fields_add_all)
qed simp

lemma Do_sent:
  assumes "Do net cfg meth host path query hdr bdy = (resp, rs)" "r \<in> set rs"
  shows "hostAllowed cfg (wHost r) \<and> wHost r = to_lower (trim_space host) \<and> wHeader r = applyHeaders hdr \<and> wMethod r = meth \<and> wQuery r = query"
  using assms by (auto simp: Do_def upstreamURL_def Let_def split: if_splits)

end
