(* ===== verification/Body_Handles.thy ===== *)
theory Body_Handles
  imports Store_Sys
begin

text \<open>
  The shared body files of \<open>internal/cache/bodyhandle.go\<close>: \<open>AcquireBody\<close> on the handle LRU of the store,
  the reference count and the close on last release. A handle is an address into \<open>handles\<close>; acquiring,
  releasing and evicting are single steps, and any number of borrowers may hold a handle.
\<close>

subsection \<open>Operations\<close>

definition open_handle :: "io \<Rightarrow> string \<Rightarrow> store \<Rightarrow> cache_err + bodyHandle" where
  \<comment> \<open>\<open>os.Open(bodyPath)\<close> and \<open>f.Stat()\<close>, with the first reference taken\<close>
  "open_handle io key s =
     (if fails io OpenBodyFile then Inl (IOErr OpenBodyFile)
      else case map_of (disk s) key of
        None \<Rightarrow> Inl (IOErr OpenBodyFile)
      | Some ob \<Rightarrow> (case body ob of
            None \<Rightarrow> Inl (IOErr OpenBodyFile)
          | Some i \<Rightarrow> if fails io StatBody then Inl (IOErr StatBody)
                     else Inr \<lparr>hino = i, hsize = int (length (inodes s i)), refs = 1, evicted = False, fopen = True\<rparr>))"

definition add_ref :: "nat \<Rightarrow> store \<Rightarrow> store" where
  "add_ref a s = s\<lparr>handles := (handles s)(a := (handles s a)\<lparr>refs := refs (handles s a) + 1\<rparr>)\<rparr>"

partial_function (option) AcquireBody :: "io \<Rightarrow> string \<Rightarrow> store \<Rightarrow> ((cache_err + nat) \<times> store) option" where
  \<comment> \<open>\<open>None\<close> is the recursion that does not end\<close>
  "AcquireBody io key s =
     (let (v, c) = Get (bodyHandles s) key; s1 = s\<lparr>bodyHandles := c\<rparr>
      in if v \<noteq> None \<and> \<not> evicted (handles s1 (the v)) then Some (Inr (the v), add_ref (the v) s1)
         else case open_handle io key s1 of
           Inl e \<Rightarrow> Some (Inl e, s1)
         | Inr bh \<Rightarrow>
             let a = nextHandle s1;
                 s2 = s1\<lparr>handles := (handles s1)(a := bh), nextHandle := Suc a\<rparr>;
                 ((old, existed), hs, ev) = GetOrAdd (bodyHandles s2) key a;
                 s3 = evictBodyHandle ev (s2\<lparr>bodyHandles := hs\<rparr>)
             in if existed
                then let s4 = s3\<lparr>handles := (handles s3)(a := (handles s3 a)\<lparr>fopen := False\<rparr>)\<rparr>
                     in if evicted (handles s4 old) then AcquireBody io key s4
                        else Some (Inr old, add_ref old s4)
                else Some (Inr a, s3))"

declare AcquireBody.simps [code]

definition CloseHandle :: "nat \<Rightarrow> store \<Rightarrow> store" where
  \<comment> \<open>\<open>bodyHandle.Close\<close>\<close>
  "CloseHandle a s =
     (let h = (handles s a)\<lparr>refs := refs (handles s a) - 1\<rparr>
      in s\<lparr>handles := (handles s)(a := if refs h = 0 \<and> evicted h then h\<lparr>fopen := False\<rparr> else h)\<rparr>)"

definition read_at :: "nat \<Rightarrow> nat \<Rightarrow> nat \<Rightarrow> store \<Rightarrow> string" where
  \<comment> \<open>what \<open>ReadAt\<close> of \<open>n\<close> bytes at \<open>off\<close> delivers: short at the end of the file\<close>
  "read_at a off n s = take n (drop off (inodes s (hino (handles s a))))"

definition forget_body :: "string \<Rightarrow> store \<Rightarrow> store" where
  \<comment> \<open>\<open>s.bodyHandles.Delete(key)\<close> with its eviction callback, as the purge runs it\<close>
  "forget_body key s =
     (let (_, hs, ev) = Delete (bodyHandles s) key in evictBodyHandle ev (s\<lparr>bodyHandles := hs\<rparr>))"

subsection \<open>Runs\<close>

record bsys =
  bst :: store
  borrows :: "nat list"           \<comment> \<open>the handles out on loan, once per borrow\<close>

inductive bstep :: "bsys \<Rightarrow> bsys \<Rightarrow> bool" where
  b_acquire: "AcquireBody io key (bst S) = Some (Inr a, s') \<Longrightarrow> bstep S \<lparr>bst = s', borrows = a # borrows S\<rparr>"
| b_refused: "AcquireBody io key (bst S) = Some (Inl e, s') \<Longrightarrow> bstep S (S\<lparr>bst := s'\<rparr>)"
| b_close: "a \<in> set (borrows S) \<Longrightarrow> bstep S \<lparr>bst = CloseHandle a (bst S), borrows = remove1 a (borrows S)\<rparr>"
| b_forget: "bstep S (S\<lparr>bst := forget_body key (bst S)\<rparr>)"
| b_disk: "bstep S (S\<lparr>bst := (bst S)\<lparr>disk := d, inodes := i, nextIno := n\<rparr>\<rparr>)"

inductive_cases bstepE: "bstep S T"

subsection \<open>Invariant\<close>

definition bh_inv :: "bsys \<Rightarrow> bool" where
  "bh_inv S \<longleftrightarrow> lru_inv (bodyHandles (bst S)) \<and>
     (\<forall>k a. lru_contents (bodyHandles (bst S)) k = Some a \<longrightarrow>
        a < nextHandle (bst S) \<and> \<not> evicted (handles (bst S) a) \<and> fopen (handles (bst S) a)) \<and>
     inj_on (lru_contents (bodyHandles (bst S))) (dom (lru_contents (bodyHandles (bst S)))) \<and>
     (\<forall>a < nextHandle (bst S). refs (handles (bst S) a) = int (count (mset (borrows S)) a)) \<and>
     (\<forall>a \<in> set (borrows S). a < nextHandle (bst S) \<and> fopen (handles (bst S) a))"

lemma GetOrAdd_contents:
  "lru_inv l \<Longrightarrow> GetOrAdd l k v = (case lru_contents l k of
      Some w \<Rightarrow> ((w, True), snd (Get l k), None) | None \<Rightarrow> ((v, False), Add l k v))"
  by (auto simp: lru_inv_def repr_GetOrAdd lru_contents_repr)

lemma evictBodyHandle_sel [simp]:
  "bodyHandles (evictBodyHandle ev s) = bodyHandles s" "nextHandle (evictBodyHandle ev s) = nextHandle s"
  "disk (evictBodyHandle ev s) = disk s" "inodes (evictBodyHandle ev s) = inodes s" "metaCache (evictBodyHandle ev s) = metaCache s"
  "refs (handles (evictBodyHandle ev s) a) = refs (handles s a)" "fopen (handles (evictBodyHandle ev s) a) = fopen (handles s a)"
  "hino (handles (evictBodyHandle ev s) a) = hino (handles s a)" "hsize (handles (evictBodyHandle ev s) a) = hsize (handles s a)"
  "evicted (handles (evictBodyHandle ev s) a) = (evicted (handles s a) \<or> (\<exists>k. ev = Some (k, a)))"
  by (auto simp: evictBodyHandle_def split: option.splits)

lemma open_handle_Inr:
  "open_handle io key s = Inr bh \<Longrightarrow>
     \<exists>i. disk_body s key = Some i \<and> bh = \<lparr>hino = i, hsize = int (length (inodes s i)), refs = 1, evicted = False, fopen = True\<rparr>"
  by (auto simp: open_handle_def disk_body_def split: if_splits option.splits)

definition acquired :: "io \<Rightarrow> string \<Rightarrow> store \<Rightarrow> (cache_err + nat) \<times> store" where
  \<comment> \<open>what \<open>AcquireBody\<close> computes when no cached handle is marked evicted\<close>
  "acquired io key s =
     (let c = snd (Get (bodyHandles s) key); s1 = s\<lparr>bodyHandles := c\<rparr>
      in case lru_contents (bodyHandles s) key of
           Some a \<Rightarrow> (Inr a, add_ref a s1)
         | None \<Rightarrow> (case open_handle io key s1 of
             Inl e \<Rightarrow> (Inl e, s1)
           | Inr bh \<Rightarrow>
               let a = nextHandle s1; (hs, ev) = Add c key a
               in (Inr a, evictBodyHandle ev (s1\<lparr>handles := (handles s1)(a := bh), nextHandle := Suc a, bodyHandles := hs\<rparr>))))"

lemma AcquireBody_eq:
  assumes "lru_inv (bodyHandles s)" "\<And>a. lru_contents (bodyHandles s) key = Some a \<Longrightarrow> \<not> evicted (handles s a)"
  shows "AcquireBody io key s = Some (acquired io key s)"
proof -
  obtain v c where g: "Get (bodyHandles s) key = (v, c)" by fastforce
  have v: "lru_contents (bodyHandles s) key = v" using lruc.get_value [OF assms(1), of key] g by simp
  have c: "lru_inv c" "lru_contents c = lru_contents (bodyHandles s)"
    using lruc.get_inv [OF assms(1), of key] lruc.get_contents [OF assms(1), of key] g by simp_all
  show ?thesis
  proof (cases v)
    case (Some a)
    with assms(2) v have "\<not> evicted (handles s a)" by simp
    with v g Some show ?thesis by (subst AcquireBody.simps) (simp add: acquired_def)
  next
    case None
    obtain hs ev where ad: "Add c key (nextHandle s) = (hs, ev)" by fastforce
    from None v c GetOrAdd_contents [OF c(1), of key "nextHandle s"]
    have ga: "GetOrAdd c key (nextHandle s) = ((nextHandle s, False), hs, ev)" by (simp add: ad)
    have ga': "GetOrAdd (bodyHandles (s\<lparr>bodyHandles := c, handles := x, nextHandle := y\<rparr>)) key (nextHandle s) =
        ((nextHandle s, False), hs, ev)" for x y by (simp add: ga)
    show ?thesis
      by (subst AcquireBody.simps, cases "open_handle io key (s\<lparr>bodyHandles := c\<rparr>)")
        (simp_all add: acquired_def Let_def g v None ad ga)
  qed
qed

lemma bh_inv_AcquireBody:
  assumes "bh_inv S"
  shows "AcquireBody io key (bst S) = Some (acquired io key (bst S))"
  using assms by (intro AcquireBody_eq) (auto simp: bh_inv_def)

lemma bh_inv_cong:
  assumes "bh_inv S" "bodyHandles s' = bodyHandles (bst S)" "handles s' = handles (bst S)" "nextHandle s' = nextHandle (bst S)"
  shows "bh_inv (S\<lparr>bst := s'\<rparr>)"
  using assms by (simp add: bh_inv_def)

lemma bh_inv_reorder:
  assumes "bh_inv S"
  shows "bh_inv (S\<lparr>bst := (bst S)\<lparr>bodyHandles := snd (Get (bodyHandles (bst S)) key)\<rparr>\<rparr>)"
proof -
  have "lru_inv (bodyHandles (bst S))" using assms by (simp add: bh_inv_def)
  from assms lruc.get_inv [OF this, of key] lruc.get_contents [OF this, of key] show ?thesis by (simp add: bh_inv_def)
qed

lemma bh_inv_hit:
  assumes "bh_inv S" "lru_contents (bodyHandles (bst S)) key = Some a"
  shows "bh_inv \<lparr>bst = add_ref a (bst S), borrows = a # borrows S\<rparr>"
  using assms by (auto simp: bh_inv_def add_ref_def)

lemma fresh_count: "bh_inv S \<Longrightarrow> nextHandle (bst S) \<le> a \<Longrightarrow> count (mset (borrows S)) a = 0"
  by (auto simp: bh_inv_def count_eq_zero_iff)

lemma bh_inv_miss:
  assumes "bh_inv S" "lru_contents (bodyHandles (bst S)) key = None" "refs bh = 1" "\<not> evicted bh" "fopen bh"
    "Add (bodyHandles (bst S)) key (nextHandle (bst S)) = (hs, ev)"
  shows "bh_inv \<lparr>bst = evictBodyHandle ev ((bst S)\<lparr>handles := (handles (bst S))(nextHandle (bst S) := bh),
    nextHandle := Suc (nextHandle (bst S)), bodyHandles := hs\<rparr>), borrows = nextHandle (bst S) # borrows S\<rparr>"
proof -
  let ?s = "bst S" let ?a = "nextHandle (bst S)" let ?C = "lru_contents (bodyHandles ?s)"
  have inv: "lru_inv (bodyHandles ?s)" and old: "\<And>k b. ?C k = Some b \<Longrightarrow> b < ?a \<and> \<not> evicted (handles ?s b) \<and> fopen (handles ?s b)"
    and inj: "inj_on ?C (dom ?C)"
    using assms(1) by (auto simp: bh_inv_def)
  have hs: "lru_inv hs" "lru_contents hs = (case ev of None \<Rightarrow> ?C(key \<mapsto> ?a) | Some (k', w) \<Rightarrow> ?C(key \<mapsto> ?a, k' := None))"
    using lruc.add_inv [OF inv, of key ?a] lruc.add_contents [OF inv, of key ?a] assms(6) by simp_all
  have vic: "k' \<noteq> key \<and> ?C k' = Some w" if "ev = Some (k', w)" for k' w
    using lruc.add_victim [OF inv, of key ?a k' w] assms(6) that by simp
  have cont: "b = ?a \<and> k = key \<or> ?C k = Some b \<and> (\<forall>k' w. ev = Some (k', w) \<longrightarrow> k \<noteq> k' \<and> w \<noteq> b)"
    if "lru_contents hs k = Some b" for k b
  proof (cases ev)
    case None
    with that hs(2) show ?thesis by (auto split: if_splits)
  next
    case (Some p)
    obtain k' w where p: "p = (k', w)" by (cases p)
    with that hs(2) Some vic have k: "k \<noteq> k'" "k = key \<and> b = ?a \<or> ?C k = Some b" by (auto split: if_splits)
    have "w \<noteq> b" if "?C k = Some b"
      using inj_onD [OF inj, of k k'] vic Some p that k(1) by auto
    with k Some p show ?thesis by auto
  qed
  have "inj_on (lru_contents hs) (dom (lru_contents hs))"
  proof (rule inj_onI)
    fix x y assume xy: "x \<in> dom (lru_contents hs)" "y \<in> dom (lru_contents hs)" "lru_contents hs x = lru_contents hs y"
    then obtain b where b: "lru_contents hs x = Some b" "lru_contents hs y = Some b" by auto
    show "x = y"
    proof (cases "b = ?a")
      case True
      with cont [OF b(1)] cont [OF b(2)] old show ?thesis by auto
    next
      case False
      with cont [OF b(1)] cont [OF b(2)] inj show ?thesis by (metis domI inj_onD)
    qed
  qed
  moreover have "b < Suc ?a \<and> \<not> evicted (handles (evictBodyHandle ev (?s\<lparr>handles := (handles ?s)(?a := bh)\<rparr>)) b) \<and>
      fopen (((handles ?s)(?a := bh)) b)" if "lru_contents hs k = Some b" for k b
  proof (cases "b = ?a")
    case True
    have "ev \<noteq> Some (k', ?a)" for k' using vic [of k' ?a] old by auto
    with True assms(4,5) show ?thesis by auto
  next
    case False
    with cont [OF that] old [of k b] show ?thesis by auto
  qed
  moreover have "refs (((handles ?s)(?a := bh)) b) = int (count (mset (?a # borrows S)) b)" if "b < Suc ?a" for b
    using that assms(1,3) fresh_count [OF assms(1), of ?a] by (auto simp: bh_inv_def less_Suc_eq)
  ultimately show ?thesis
    using hs(1) assms(1,5) by (auto simp: bh_inv_def less_Suc_eq)
qed

lemma bh_inv_close:
  assumes "bh_inv S" "a \<in> set (borrows S)"
  shows "bh_inv \<lparr>bst = CloseHandle a (bst S), borrows = remove1 a (borrows S)\<rparr>"
proof -
  let ?s = "bst S" let ?h = "handles (CloseHandle a (bst S))"
  have a: "a < nextHandle ?s" "fopen (handles ?s a)" "refs (handles ?s a) = int (count (mset (borrows S)) a)"
    using assms by (auto simp: bh_inv_def)
  have pos: "count (mset (borrows S)) a > 0" using assms(2) by (simp add: count_greater_zero_iff)
  have sel: "bodyHandles (CloseHandle a ?s) = bodyHandles ?s" "nextHandle (CloseHandle a ?s) = nextHandle ?s"
    by (simp_all add: CloseHandle_def Let_def)
  have ev: "evicted (?h b) = evicted (handles ?s b)" for b by (simp add: CloseHandle_def Let_def)
  have op: "fopen (?h b)" if "fopen (handles ?s b)" "b \<noteq> a \<or> \<not> evicted (handles ?s b) \<or> count (mset (borrows S)) a > 1" for b
    using that a(3) by (auto simp: CloseHandle_def Let_def)
  have rf: "refs (?h b) = int (count (mset (remove1 a (borrows S))) b)" if "b < nextHandle ?s" for b
    using that assms(1) pos a(3) by (auto simp: CloseHandle_def Let_def bh_inv_def)
  have "fopen (?h b)" if "b \<in> set (remove1 a (borrows S))" for b
  proof (rule op)
    show "fopen (handles ?s b)" using that assms(1) set_remove1_subset [of a "borrows S"] by (auto simp: bh_inv_def)
    have "b \<in># mset (remove1 a (borrows S))" using that by (simp only: set_mset_mset)
    then have "count (mset (remove1 a (borrows S))) b > 0" by (simp only: count_greater_zero_iff)
    then show "b \<noteq> a \<or> \<not> evicted (handles ?s b) \<or> count (mset (borrows S)) a > 1" by auto
  qed
  moreover have "b < nextHandle ?s" if "b \<in> set (remove1 a (borrows S))" for b
    using that assms(1) set_remove1_subset [of a "borrows S"] by (auto simp: bh_inv_def)
  ultimately show ?thesis
    using assms(1) rf ev op by (auto simp: bh_inv_def sel)
qed

lemma bh_inv_forget:
  assumes "bh_inv S"
  shows "bh_inv (S\<lparr>bst := forget_body key (bst S)\<rparr>)"
proof -
  let ?s = "bst S" let ?C = "lru_contents (bodyHandles ?s)"
  have inv: "lru_inv (bodyHandles ?s)" and inj: "inj_on ?C (dom ?C)" using assms by (auto simp: bh_inv_def)
  obtain ok hs ev where d: "Delete (bodyHandles ?s) key = (ok, hs, ev)" by (cases "Delete (bodyHandles ?s) key") auto
  have hs: "lru_inv hs" "lru_contents hs = ?C(key := None)" and ev: "ev = map_option (Pair key) (?C key)"
    using lruc.del_inv [OF inv, of key] lruc.del_contents [OF inv, of key] lruc.del_victim [OF inv, of key] d by simp_all
  have fb: "forget_body key ?s = evictBodyHandle ev (?s\<lparr>bodyHandles := hs\<rparr>)" by (simp add: forget_body_def d)
  have "inj_on (lru_contents hs) (dom (lru_contents hs))"
    unfolding hs(2) using inj by (auto simp: inj_on_def dom_def)
  moreover have "\<not> evicted (handles (forget_body key ?s) a)" if "lru_contents hs k = Some a" for k a
  proof -
    from that hs(2) have k: "k \<noteq> key" "?C k = Some a" by (auto split: if_splits)
    with inj have "?C key \<noteq> Some a" by (metis domI inj_onD)
    with k assms show ?thesis by (auto simp: fb ev bh_inv_def)
  qed
  ultimately show ?thesis
    using assms hs by (auto simp: bh_inv_def fb split: if_splits)
qed

lemma bh_inv_step:
  assumes "bh_inv S" "bstep S T"
  shows "bh_inv T"
  using assms(2)
proof (cases rule: bstep.cases)
  case (b_acquire io key a s')
  let ?c = "snd (Get (bodyHandles (bst S)) key)"
  define S1 where "S1 = S\<lparr>bst := (bst S)\<lparr>bodyHandles := ?c\<rparr>\<rparr>"
  have S1: "bh_inv S1" unfolding S1_def by (rule bh_inv_reorder [OF assms(1)])
  have ct: "lru_contents (bodyHandles (bst S1)) = lru_contents (bodyHandles (bst S))"
    using lruc.get_contents [of "bodyHandles (bst S)" key] assms(1) by (simp add: S1_def bh_inv_def)
  have r: "acquired io key (bst S) = (Inr a, s')" using b_acquire bh_inv_AcquireBody [OF assms(1)] by simp
  show ?thesis
  proof (cases "lru_contents (bodyHandles (bst S)) key")
    case (Some b)
    with r have "b = a" "s' = add_ref a (bst S1)" by (auto simp: acquired_def S1_def Let_def)
    with bh_inv_hit [OF S1, of key a] Some ct b_acquire show ?thesis by (simp add: S1_def)
  next
    case None
    obtain hs ev where ad: "Add ?c key (nextHandle (bst S)) = (hs, ev)" by fastforce
    from None r obtain bh where bh: "open_handle io key (bst S1) = Inr bh" "a = nextHandle (bst S)"
      "s' = evictBodyHandle ev ((bst S1)\<lparr>handles := (handles (bst S1))(a := bh), nextHandle := Suc a, bodyHandles := hs\<rparr>)"
      by (auto simp: acquired_def Let_def ad S1_def split: sum.splits)
    from open_handle_Inr [OF bh(1)] have "refs bh = 1" "\<not> evicted bh" "fopen bh" by auto
    from bh_inv_miss [OF S1 _ this, of key hs ev] None ct ad bh b_acquire show ?thesis by (simp add: S1_def)
  qed
next
  case (b_refused io key e s')
  then have "acquired io key (bst S) = (Inl e, s')" using bh_inv_AcquireBody [OF assms(1)] by simp
  then have "s' = (bst S)\<lparr>bodyHandles := snd (Get (bodyHandles (bst S)) key)\<rparr>"
    by (auto simp: acquired_def Let_def split: option.splits sum.splits prod.splits)
  with bh_inv_reorder [OF assms(1), of key] b_refused show ?thesis by simp
next
  case (b_close a)
  with bh_inv_close [OF assms(1)] show ?thesis by simp
next
  case (b_forget key)
  with bh_inv_forget [OF assms(1)] show ?thesis by simp
next
  case (b_disk d i n)
  with bh_inv_cong [OF assms(1)] show ?thesis by simp
qed

inductive breach :: "store \<Rightarrow> bsys \<Rightarrow> bool" for s0 where
  b_start: "breach s0 \<lparr>bst = s0, borrows = []\<rparr>"
| b_next: "breach s0 S \<Longrightarrow> bstep S T \<Longrightarrow> breach s0 T"

lemma bh_inv_start: "bodyHandles s0 = newLRU d c \<Longrightarrow> nextHandle s0 = 0 \<Longrightarrow> bh_inv \<lparr>bst = s0, borrows = []\<rparr>"
  using repr_new [of d c] by (auto simp: bh_inv_def lru_inv_def lru_contents_repr)

lemma NewStore_handles:
  "NewStoreWithOptions io pol mx ck mm mh d inos n = Inr s0 \<Longrightarrow> bodyHandles s0 = newLRU 0 mh \<and> nextHandle s0 = 0"
  by (auto simp: NewStoreWithOptions_def Let_def split: if_splits sum.splits)


definition demo_disk :: "store \<Rightarrow> store" where
  "demo_disk s = s\<lparr>disk := [(''k'', \<lparr>metaf = None, body = Some 0\<rparr>)], inodes := (\<lambda>_. ''abc''), nextIno := 1\<rparr>"

definition demo_borrowed :: store where
  "demo_borrowed = snd (acquired no_faults ''k'' (demo_disk (demo_store 0)))"

lemma demo_acquire: "acquired no_faults ''k'' (demo_disk (demo_store 0)) = (Inr 0, demo_borrowed)"
proof -
  have "fst (acquired no_faults ''k'' (demo_disk (demo_store 0))) = Inr 0" by code_simp
  then show ?thesis unfolding demo_borrowed_def by (metis prod.collapse)
qed

lemma demo_breach: "breach (demo_store 0) \<lparr>bst = demo_borrowed, borrows = [0]\<rparr>"
proof -
  let ?S0 = "\<lparr>bst = demo_store 0, borrows = []\<rparr>"
  have 0: "bh_inv ?S0" using NewStore_handles [OF demo_store_new] bh_inv_start by blast
  have 1: "bstep ?S0 \<lparr>bst = demo_disk (demo_store 0), borrows = []\<rparr>"
    using b_disk [of ?S0] by (simp add: demo_disk_def)
  have "AcquireBody no_faults ''k'' (demo_disk (demo_store 0)) = Some (Inr 0, demo_borrowed)"
    using bh_inv_AcquireBody [OF bh_inv_step [OF 0 1], of no_faults "''k''"] demo_acquire by simp
  from b_acquire [of no_faults "''k''" "\<lparr>bst = demo_disk (demo_store 0), borrows = []\<rparr>", simplified, OF this]
  show ?thesis using b_next [OF b_next [OF b_start 1]] by simp
qed


lemma idle_eviction_leaks:
  \<comment> \<open>a handle evicted while nobody borrows it keeps its file open: only a later \<open>Close\<close> would close it\<close>
  "let s = forget_body ''k'' (CloseHandle 0 demo_borrowed)
   in refs (handles s 0) = 0 \<and> evicted (handles s 0) \<and> fopen (handles s 0)"
  by code_simp

lemma acquire_race:
  \<comment> \<open>a borrower that has seen \<open>evicted = false\<close> but not yet taken its reference is overtaken by an
      eviction and the last close\<close>
  "\<not> evicted (handles demo_borrowed 0) \<and>
   (let s = add_ref 0 (CloseHandle 0 (forget_body ''k'' demo_borrowed))
    in refs (handles s 0) = 1 \<and> \<not> fopen (handles s 0))"
  by code_simp

end
