(* ===== verification/Classify.thy ===== *)
theory Classify
  imports Go_Prelude
begin

text \<open>
  Request classification of \<open>internal/classify/classify.go\<close>: which GETs are file downloads, and so go
  to the disk cache. The search loops are executable as written; \<open>ArtifactGET_iff\<close> restates the
  decision with the ordinary substring predicates.
\<close>

definition equalFoldASCII :: "string \<Rightarrow> string \<Rightarrow> bool" where
  "equalFoldASCII a b \<longleftrightarrow> length a = length b \<and> list_all2 (\<lambda>ca cb. lower_char ca = cb) a b"

function contains_lower_from :: "nat \<Rightarrow> string \<Rightarrow> string \<Rightarrow> bool" where
  \<comment> \<open>the loop of \<open>containsLower\<close> from offset \<open>i\<close> on\<close>
  "contains_lower_from i haystack needleLower =
     (if i + length needleLower \<le> length haystack
      then if equalFoldASCII (take (length needleLower) (drop i haystack)) needleLower then True
           else contains_lower_from (Suc i) haystack needleLower
      else False)"
  by pat_completeness auto
termination by (relation "measure (\<lambda>(i, h, n). Suc (length h) - i)") auto

definition containsLower :: "string \<Rightarrow> string \<Rightarrow> bool" where
  "containsLower haystack needleLower \<longleftrightarrow>
     (if needleLower = [] then True else contains_lower_from 0 haystack needleLower)"

definition containsLowerPrefix :: "string \<Rightarrow> string \<Rightarrow> bool" where
  "containsLowerPrefix haystack prefixLower \<longleftrightarrow>
     (if length haystack < length prefixLower then False
      else equalFoldASCII (take (length prefixLower) haystack) prefixLower)"

definition equalFoldHost :: "string \<Rightarrow> string \<Rightarrow> bool" where
  "equalFoldHost a b \<longleftrightarrow>
     (let a' = trim_space a; b' = trim_space b
      in length a' = length b' \<and> list_all2 (\<lambda>ca cb. lower_char ca = lower_char cb) a' b')"

definition ArtifactGET :: "string \<Rightarrow> string \<Rightarrow> string \<Rightarrow> string \<Rightarrow> bool" where
  "ArtifactGET defaultHost upstreamHost method path =
     (if method \<noteq> ''GET'' then False
      else if has_prefix path ''/_p/'' then True
      else if containsLower path ''/resolve/'' then True
      else if containsLower path ''/info/lfs/'' then True
      else if containsLower path ''/resolve%2f'' then True
      else if containsLowerPrefix path ''/api/resolve-cache/'' then True
      else if \<not> equalFoldHost upstreamHost defaultHost
      then (if containsLowerPrefix path ''/api/'' then False else True)
      else \<not> containsLowerPrefix path ''/api/'')"

declare contains_lower_from.simps [simp del]

lemma equalFoldASCII_iff: "equalFoldASCII a b \<longleftrightarrow> to_lower a = b"
  by (auto simp: equalFoldASCII_def to_lower_def list_all2_conv_all_nth intro!: nth_equalityI)

lemma contains_lower_from_iff:
  "contains_lower_from i h n \<longleftrightarrow> (\<exists>j \<ge> i. j + length n \<le> length h \<and> take (length n) (drop j (to_lower h)) = n)"
proof (induction i h n rule: contains_lower_from.induct)
  case (1 i h n)
  have here: "equalFoldASCII (take (length n) (drop i h)) n \<longleftrightarrow> take (length n) (drop i (to_lower h)) = n"
    by (simp add: equalFoldASCII_iff to_lower_def take_map drop_map)
  show ?case
  proof (cases "i + length n \<le> length h \<and> \<not> equalFoldASCII (take (length n) (drop i h)) n")
    case True
    then have "contains_lower_from i h n = contains_lower_from (Suc i) h n"
      by (subst contains_lower_from.simps) simp
    with 1 True here show ?thesis by (metis Suc_le_eq le_eq_less_or_eq)
  next
    case False
    with here show ?thesis by (subst contains_lower_from.simps) (auto simp: not_le)
  qed
qed

lemma containsLower_iff: "containsLower h n \<longleftrightarrow> contains (to_lower h) n"
proof (cases "n = []")
  case True
  then show ?thesis by (simp add: containsLower_def contains_def index_str.simps) (cases "to_lower h"; simp)
next
  case False
  have "contains (to_lower h) n \<longleftrightarrow> (\<exists>j \<le> length h. has_prefix (drop j (to_lower h)) n)"
    by (simp add: contains_def index_str_None)
  also have "\<dots> \<longleftrightarrow> (\<exists>j. j + length n \<le> length h \<and> take (length n) (drop j (to_lower h)) = n)"
  proof -
    have "take (length n) (drop j (to_lower h)) = n \<Longrightarrow> j \<le> length h \<Longrightarrow> j + length n \<le> length h" for j
    proof -
      assume "take (length n) (drop j (to_lower h)) = n" "j \<le> length h"
      then have "length n \<le> length h - j" by (metis length_drop length_take length_to_lower min.cobounded1)
      with \<open>j \<le> length h\<close> show "j + length n \<le> length h" by simp
    qed
    then show ?thesis unfolding has_prefix_def by (metis add_leD1)
  qed
  finally show ?thesis using False by (simp add: containsLower_def contains_lower_from_iff)
qed

lemma containsLowerPrefix_iff: "containsLowerPrefix h p \<longleftrightarrow> has_prefix (to_lower h) p"
proof -
  have "length p \<le> length h" if "take (length p) (map lower_char h) = p"
    using that by (metis length_map length_take min.cobounded1)
  then show ?thesis
    by (auto simp: containsLowerPrefix_def equalFoldASCII_iff has_prefix_def to_lower_def take_map)
qed

lemma artifact_prefix: "has_prefix path ''/_p/'' \<Longrightarrow> \<not> has_prefix (to_lower path) ''/api/''"
  by (auto simp: has_prefix_iff to_lower_def lower_char_def)

text \<open>Classification decides by URL shape alone and ignores letter case. A GET whose path is not under \<open>/api/\<close> is a
  download; one under \<open>/api/\<close> is a download exactly when the path carries one of the resolve or LFS markers
  anywhere or starts with the resolve-cache prefix; which upstream host it names does not matter, and no other
  method is.\<close>

theorem ArtifactGET_iff:
  "ArtifactGET defaultHost upstreamHost method path \<longleftrightarrow>
     method = ''GET'' \<and>
     (if has_prefix (to_lower path) ''/api/''
      then contains (to_lower path) ''/resolve/'' \<or> contains (to_lower path) ''/info/lfs/'' \<or>
           contains (to_lower path) ''/resolve%2f'' \<or> has_prefix (to_lower path) ''/api/resolve-cache/''
      else True)"
  using artifact_prefix [of path]
  by (auto simp: ArtifactGET_def containsLower_iff containsLowerPrefix_iff)

end
