(* ===== verification/Rewrite.thy ===== *)
theory Rewrite
  imports Go_Prelude
begin

text \<open>
  The origin marker of \<open>internal/rewrite/rewrite.go\<close>: how a rewritten redirect carries the path of the
  request that caused it in a reserved query parameter, and how the marker is read and removed when
  the redirect is followed. \<open>url.QueryEscape\<close> and \<open>url.QueryUnescape\<close> are written out.
\<close>

subsection \<open>Query escaping\<close>

definition hex_upper :: "nat \<Rightarrow> char" where
  "hex_upper d = (if d < 10 then char_of (48 + d) else char_of (55 + d))"

definition hex_of :: "char \<Rightarrow> nat option" where
  "hex_of c =
     (if 48 \<le> byte c \<and> byte c \<le> 57 then Some (byte c - 48)
      else if 97 \<le> byte c \<and> byte c \<le> 102 then Some (byte c - 87)
      else if 65 \<le> byte c \<and> byte c \<le> 70 then Some (byte c - 55) else None)"

definition unreserved :: "char \<Rightarrow> bool" where
  "unreserved c \<longleftrightarrow>
     97 \<le> byte c \<and> byte c \<le> 122 \<or> 65 \<le> byte c \<and> byte c \<le> 90 \<or> 48 \<le> byte c \<and> byte c \<le> 57 \<or>
     c \<in> set ''-_.~''"

fun QueryEscape :: "string \<Rightarrow> string" where
  "QueryEscape [] = []"
| "QueryEscape (c # cs) =
     (if unreserved c then [c]
      else if c = SP then ''+''
      else [CHR ''%'', hex_upper (byte c div 16), hex_upper (byte c mod 16)]) @ QueryEscape cs"

fun QueryUnescape :: "string \<Rightarrow> string option" where
  "QueryUnescape [] = Some []"
| "QueryUnescape (c # cs) =
     (if c = CHR ''%'' then
        (case cs of
           a # b # ds \<Rightarrow>
             (case (hex_of a, hex_of b) of
                (Some h, Some l) \<Rightarrow> map_option (\<lambda>r. char_of (h * 16 + l) # r) (QueryUnescape ds)
              | _ \<Rightarrow> None)
         | _ \<Rightarrow> None)
      else if c = CHR ''+'' then map_option (\<lambda>r. SP # r) (QueryUnescape cs)
      else map_option (\<lambda>r. c # r) (QueryUnescape cs))"

subsection \<open>The marker\<close>

definition OriginQueryParam :: string where
  "OriginQueryParam = ''__pulsys_origin''"

definition append_origin :: "string \<Rightarrow> string \<Rightarrow> string" where
  \<comment> \<open>the query of the rewritten URL\<close>
  "append_origin rawq origin =
     (if origin \<noteq> [] then
        (let p = OriginQueryParam @ ''='' @ QueryEscape origin
         in if rawq = [] then p else rawq @ ''&'' @ p)
      else rawq)"

fun strip_segs :: "string list \<Rightarrow> string \<Rightarrow> string list \<Rightarrow> string \<times> string list" where
  "strip_segs [] origin kept = (origin, kept)"
| "strip_segs (s # segs) origin kept =
     (case cut_prefix s (OriginQueryParam @ ''='') of
        Some v \<Rightarrow>
          strip_segs segs
            (if origin = [] then (case QueryUnescape v of Some dec \<Rightarrow> dec | None \<Rightarrow> origin) else origin) kept
      | None \<Rightarrow> if s = OriginQueryParam then strip_segs segs origin kept
               else strip_segs segs origin (kept @ [s]))"

definition ExtractAndStripOrigin :: "string \<Rightarrow> string \<times> string" where
  "ExtractAndStripOrigin rawQuery =
     (if rawQuery = [] \<or> \<not> contains rawQuery OriginQueryParam then ([], rawQuery)
      else case strip_segs (split_on (CHR ''&'') rawQuery) [] [] of
        (origin, kept) \<Rightarrow> (origin, join_with ''&'' kept))"

subsection \<open>Lemmas\<close>

lemma hex_of_upper: "d < 16 \<Longrightarrow> hex_of (hex_upper d) = Some d"
  by (auto simp: hex_of_def hex_upper_def)

lemma hex_upper_not_amp: "d < 16 \<Longrightarrow> hex_upper d \<noteq> CHR ''&''"
  by (auto simp: hex_upper_def char_eq_byte)

lemma QueryUnescape_Escape: "QueryUnescape (QueryEscape s) = Some s"
proof (induction s)
  case (Cons c cs)
  have "byte c div 16 < 16" "byte c mod 16 < 16" using byte_less [of c] by presburger+
  moreover have "char_of (byte c div 16 * 16 + byte c mod 16) = c" by (simp add: div_mult_mod_eq)
  moreover have "unreserved c \<Longrightarrow> c \<noteq> CHR ''%'' \<and> c \<noteq> CHR ''+''" by (auto simp: unreserved_def)
  ultimately show ?case using Cons by (auto simp: hex_of_upper)
qed simp

lemma QueryEscape_not_amp: "CHR ''&'' \<notin> set (QueryEscape s)"
proof (induction s)
  case (Cons c cs)
  have "byte c div 16 < 16" "byte c mod 16 < 16" using byte_less [of c] by presburger+
  moreover have "unreserved c \<Longrightarrow> c \<noteq> CHR ''&''" by (auto simp: unreserved_def)
  ultimately show ?case using Cons hex_upper_not_amp [of "byte c div 16"] hex_upper_not_amp [of "byte c mod 16"] by auto
qed simp

definition is_marker :: "string \<Rightarrow> bool" where
  "is_marker s \<longleftrightarrow> has_prefix s (OriginQueryParam @ ''='') \<or> s = OriginQueryParam"

lemma strip_segs_kept: "snd (strip_segs segs o1 kept) = kept @ filter (\<lambda>s. \<not> is_marker s) segs"
  by (induction segs o1 kept rule: strip_segs.induct) (auto simp: cut_prefix_def is_marker_def)

lemma strip_segs_plain:
  "list_all (\<lambda>s. \<not> is_marker s) segs \<Longrightarrow> strip_segs (segs @ rest) o1 kept = strip_segs rest o1 (kept @ segs)"
  by (induction segs arbitrary: kept) (auto simp: cut_prefix_def is_marker_def)

lemma split_on_snoc: "c \<notin> set b \<Longrightarrow> split_on c (a @ c # b) = split_on c a @ [b]"
proof (induction a)
  case (Cons x xs)
  then show ?case by (cases "split_on c xs") auto
qed (simp add: split_on_id)

lemma contains_append: "contains (a @ p @ b) p"
proof -
  have "has_prefix (drop (length a) (a @ p @ b)) p" by simp
  then show ?thesis unfolding contains_def by (metis index_str_None le_add1 length_append)
qed

lemma in_split_contains: "s \<in> set (split_on c q) \<Longrightarrow> has_prefix s p \<Longrightarrow> contains q p"
proof -
  assume s: "s \<in> set (split_on c q)" "has_prefix s p"
  then obtain xs ys where "split_on c q = xs @ s # ys" by (meson split_list)
  then have "q = join_with [c] (xs @ s # ys)" using join_split_on by metis
  moreover have "\<exists>a b. join_with [c] (xs @ s # ys) = a @ s @ b" for xs
  proof (induction xs)
    case Nil
    then show ?case by (cases ys) (auto intro: exI [of _ "[]"])
  next
    case (Cons x xs)
    then obtain a b where "join_with [c] (xs @ s # ys) = a @ s @ b" by blast
    then have "join_with [c] ((x # xs) @ s # ys) = (x @ [c] @ a) @ s @ b" by (simp add: join_with_Cons)
    then show ?case by blast
  qed
  moreover from s(2) obtain t where "s = p @ t" by (auto simp: has_prefix_iff)
  ultimately show "contains q p" using contains_append by (metis append.assoc)
qed

text \<open>C30: the marker survives the trip through a client and leaves no trace. Whatever query an upstream
  redirect has, if no part of it is itself a marker then appending the origin and stripping it again gives
  back the origin and the query byte for byte, which is what signature-covered CDN queries need. And on
  every query whatsoever stripping removes all marker segments, keeps the others unchanged and in
  order, and is idempotent.\<close>

theorem origin_roundtrip:
  "(list_all (\<lambda>s. \<not> is_marker s) (split_on (CHR ''&'') q) \<longrightarrow> origin \<noteq> [] \<longrightarrow>
      ExtractAndStripOrigin (append_origin q origin) = (origin, q)) \<and>
   snd (ExtractAndStripOrigin r) = join_with ''&'' (filter (\<lambda>s. \<not> is_marker s) (split_on (CHR ''&'') r)) \<and>
   snd (ExtractAndStripOrigin (snd (ExtractAndStripOrigin r))) = snd (ExtractAndStripOrigin r)"
proof (intro conjI impI)
  let ?A = "CHR ''&''"
  let ?f = "filter (\<lambda>s. \<not> is_marker s)"
  have norm: "snd (ExtractAndStripOrigin r) = join_with ''&'' (?f (split_on ?A r))" for r
  proof (cases "r = [] \<or> \<not> contains r OriginQueryParam")
    case True
    have "s \<notin> set (split_on ?A r)" if "is_marker s" for s
    proof
      assume s: "s \<in> set (split_on ?A r)"
      from that have "has_prefix s OriginQueryParam" unfolding is_marker_def has_prefix_iff by auto
      from in_split_contains [OF s this] True s show False
        by (auto simp: contains_def OriginQueryParam_def)
    qed
    then have "?f (split_on ?A r) = split_on ?A r" by (auto intro: filter_True)
    with True join_split_on [of ?A r] show ?thesis by (simp add: ExtractAndStripOrigin_def)
  next
    case False
    then show ?thesis
      using strip_segs_kept [of "split_on ?A r" "[]" "[]"]
      by (auto simp: ExtractAndStripOrigin_def split: prod.splits)
  qed
  show "snd (ExtractAndStripOrigin r) = join_with ''&'' (?f (split_on ?A r))" by (rule norm)
  show "snd (ExtractAndStripOrigin (snd (ExtractAndStripOrigin r))) = snd (ExtractAndStripOrigin r)"
  proof (cases "?f (split_on ?A r) = []")
    case True
    then show ?thesis by (simp add: norm)
  next
    case False
    then have "split_on ?A (join_with ''&'' (?f (split_on ?A r))) = ?f (split_on ?A r)"
      by (intro split_on_join) (auto dest: split_on_no_sep)
    then show ?thesis by (simp add: norm)
  qed
  assume q: "list_all (\<lambda>s. \<not> is_marker s) (split_on ?A q)" and o: "origin \<noteq> []"
  let ?m = "OriginQueryParam @ ''='' @ QueryEscape origin"
  have m: "?A \<notin> set ?m" using QueryEscape_not_amp by (simp add: OriginQueryParam_def)
  have strip: "strip_segs (segs @ [?m]) [] [] = (origin, segs)" if "list_all (\<lambda>s. \<not> is_marker s) segs" for segs
  proof -
    have "cut_prefix ?m (OriginQueryParam @ ''='') = Some (QueryEscape origin)"
      by (simp add: cut_prefix_def has_prefix_def)
    with o strip_segs_plain [OF that, of "[?m]" "[]" "[]"] show ?thesis by (simp add: QueryUnescape_Escape)
  qed
  have c: "contains (a @ ?m) OriginQueryParam" for a using contains_append [of a OriginQueryParam] by simp
  show "ExtractAndStripOrigin (append_origin q origin) = (origin, q)"
  proof (cases "q = []")
    case True
    with o strip [of "[]"] m c [of "[]"] show ?thesis
      by (simp add: append_origin_def ExtractAndStripOrigin_def Let_def split_on_id OriginQueryParam_def)
  next
    case False
    have "split_on ?A (append_origin q origin) = split_on ?A q @ [?m]"
      using False o split_on_snoc [OF m, of q] by (simp add: append_origin_def Let_def)
    with strip [OF q] False o c [of "q @ ''&''"] join_split_on [of ?A q] show ?thesis
      by (simp add: ExtractAndStripOrigin_def append_origin_def Let_def)
  qed
qed

theorem origin_roundtrip_witness:
  "ExtractAndStripOrigin (append_origin ''X-Sig=a%2Fb&z'' ''/org/m/resolve/main/f'') =
     (''/org/m/resolve/main/f'', ''X-Sig=a%2Fb&z'')"
  using origin_roundtrip [of "''X-Sig=a%2Fb&z''" "''/org/m/resolve/main/f''"]
  by (simp add: is_marker_def OriginQueryParam_def)

lemma origin_undecodable: "ExtractAndStripOrigin ''__pulsys_origin=%zz'' = ([], [])"
  by code_simp

end
