(* ===== verification/Proxy_Handler.thy ===== *)
theory Proxy_Handler
  imports Upstream Body_Handles Cache_Key Classify Rewrite
begin

text \<open>
  The reverse-proxy handler of \<open>internal/proxy/handler.go\<close>, from \<open>ServeHTTP\<close> down: routing, the cache
  lookup, the forwarding of a miss, the streaming of a response to disk and client, redirects and
  aliases, and the header hygiene. A request is answered by one evaluation of \<open>ServeHTTP\<close> on the state
  of the process (\<open>ctx\<close>: the store, the key memo and the log of requests sent upstream). What other requests
  do while this one waits for its byte range, what the network answers, and which writes fail are
  arguments. \<open>net/url\<close> enters through \<open>url_ops\<close>.
\<close>

subsection \<open>Header tables\<close>

definition hopRequestHeaders :: "string list" where
  "hopRequestHeaders = [''connection'', ''keep-alive'', ''proxy-connection'', ''upgrade'', ''te'', ''trailer'',
     ''transfer-encoding'', ''host'', ''accept-encoding'']"

definition hopResponseHeaders :: "string list" where
  "hopResponseHeaders = [''connection'', ''keep-alive'', ''proxy-connection'', ''upgrade'', ''transfer-encoding'']"

definition preservedResponseHeaders :: "string list" where
  "preservedResponseHeaders = [''X-Repo-Commit'', ''X-Linked-Etag'', ''X-Linked-Size'', ''X-Xet-Hash'', ''Accept-Ranges'']"

definition pickPreservedHeaders :: "header \<Rightarrow> (string \<times> string) list" where
  "pickPreservedHeaders src =
     foldl (\<lambda>out k. let v = hdr_get src k in if v = [] then out else AList.update k v out) [] preservedResponseHeaders"

definition applyExtraHeaders :: "(string \<times> string) list \<Rightarrow> header \<Rightarrow> header" where
  "applyExtraHeaders extra dst = foldl (\<lambda>h (k, v). if v = [] then h else hdr_set k v h) dst extra"

subsection \<open>Link headers\<close>

definition seg :: "string \<Rightarrow> nat \<Rightarrow> nat \<Rightarrow> string" where
  \<comment> \<open>\<open>v[i:j]\<close>\<close>
  "seg v i j = take (j - i) (drop i v)"

function split_link_loop :: "string \<Rightarrow> nat \<Rightarrow> nat \<Rightarrow> nat \<Rightarrow> bool \<Rightarrow> string list \<Rightarrow> string list" where
  "split_link_loop v i start depth inQuote out =
     (if i \<ge> length v then (if start \<le> length v then out @ [trim_space (drop start v)] else out)
      else let c = v ! i in
        if c = CHR ''<'' then split_link_loop v (Suc i) start (if inQuote then depth else Suc depth) inQuote out
        else if c = CHR ''>'' then
          split_link_loop v (Suc i) start (if \<not> inQuote \<and> depth > 0 then depth - 1 else depth) inQuote out
        else if c = DQ then split_link_loop v (Suc i) start depth (\<not> inQuote) out
        else if c = CHR '','' \<and> depth = 0 \<and> \<not> inQuote then
          split_link_loop v (Suc i) (Suc i) depth inQuote (out @ [trim_space (seg v start i)])
        else split_link_loop v (Suc i) start depth inQuote out)"
  by pat_completeness auto
termination by (relation "measure (\<lambda>(v, i, _). length v - i)") auto

definition splitLinkValues :: "string \<Rightarrow> string list" where
  "splitLinkValues v = split_link_loop v 0 0 0 False []"

function fields_loop :: "string \<Rightarrow> string \<Rightarrow> string list" where
  \<comment> \<open>\<open>strings.Fields\<close>: \<open>cur\<close> is the reversed field being read\<close>
  "fields_loop cur s =
     (if s = [] then (if cur = [] then [] else [rev cur])
      else case find (\<lambda>w. w \<noteq> [] \<and> has_prefix s w) unicode_spaces of
        None \<Rightarrow> fields_loop (hd s # cur) (tl s)
      | Some w \<Rightarrow> (if cur = [] then [] else [rev cur]) @ fields_loop [] (drop (length w) s))"
  by pat_completeness auto
termination
  by (relation "measure (length \<circ> snd)") (auto simp: find_Some_iff has_prefix_def intro: diff_less)

definition Fields :: "string \<Rightarrow> string list" where
  "Fields s = fields_loop [] s"

definition index_any :: "string \<Rightarrow> string \<Rightarrow> nat option" where
  \<comment> \<open>\<open>strings.IndexAny\<close> with ASCII characters\<close>
  "index_any s cs = (let n = length (takeWhile (\<lambda>c. c \<notin> set cs) s) in if n < length s then Some n else None)"

definition linkValueIsXet :: "string \<Rightarrow> bool" where
  "linkValueIsXet part =
     (let rel = to_lower part
      in case index_str rel ''rel='' of
           None \<Rightarrow> False
         | Some idx \<Rightarrow>
             let rest = drop (idx + 4) rel;
                 rest' = (if rest \<noteq> [] \<and> hd rest = DQ
                          then (case index_byte (tl rest) DQ of None \<Rightarrow> tl rest | Some e \<Rightarrow> take e (tl rest))
                          else (case index_any rest '';,'' of None \<Rightarrow> rest | Some e \<Rightarrow> take e rest))
             in list_ex (\<lambda>tok. has_prefix (to_lower tok) ''xet-'') (Fields rest'))"

definition stripXetLinks :: "string list \<Rightarrow> string list" where
  "stripXetLinks vs =
     (if vs = [] then vs
      else foldl (\<lambda>out v. let kept = filter (\<lambda>p. \<not> linkValueIsXet p) (splitLinkValues v)
                          in if kept = [] then out else out @ [join_with '', '' kept]) [] vs)"

definition sanitiseHeaderValue :: "string \<Rightarrow> string option" where
  "sanitiseHeaderValue v = (if CR \<in> set v \<or> LF \<in> set v \<or> CHR 0x00 \<in> set v then None else Some v)"

subsection \<open>Locations\<close>

record url_ops =
  \<comment> \<open>\<open>net/url\<close>: \<open>Parse\<close> (scheme, host with port, \<open>Hostname\<close>, \<open>EscapedPath\<close>, raw query), and
      \<open>JoinPath\<close> on the public base followed by \<open>String\<close> with the given raw query\<close>
  url_parse :: "string \<Rightarrow> (string \<times> string \<times> string \<times> string \<times> string) option"
  url_join :: "string list \<Rightarrow> string \<Rightarrow> string option"

definition LocationToProxyWithOrigin :: "url_ops \<Rightarrow> Config \<Rightarrow> string \<Rightarrow> string \<Rightarrow> string option" where
  "LocationToProxyWithOrigin U cfg location origin =
     (case url_parse U location of
        None \<Rightarrow> None
      | Some (scheme, hostport, hostname, epath, rawq) \<Rightarrow>
          if scheme = [] \<or> hostport = [] then None
          else if scheme \<noteq> ''https'' \<and> scheme \<noteq> ''http'' then None
          else let host = to_lower hostname
               in if \<not> Matcher (AllowHost cfg) host then None
                  else let path = (if epath = [] then ''/'' else epath)
                       in url_join U [''_p'', host, trim_prefix path ''/''] (append_origin rawq origin))"

definition rewritten :: "url_ops \<Rightarrow> Config \<Rightarrow> string \<Rightarrow> string \<Rightarrow> string" where
  \<comment> \<open>the rewritten location, or the location itself when it is not rewritten\<close>
  "rewritten U cfg loc origin = (case LocationToProxyWithOrigin U cfg loc origin of Some nl \<Rightarrow> nl | None \<Rightarrow> loc)"

definition set_sanitised :: "string \<Rightarrow> string \<Rightarrow> header \<Rightarrow> header" where
  "set_sanitised k v h = (case sanitiseHeaderValue v of Some s \<Rightarrow> hdr_set k s h | None \<Rightarrow> h)"

definition copy_one :: "header \<Rightarrow> string \<times> string list \<Rightarrow> header" where
  \<comment> \<open>the body of the loop of \<open>copyAndRewriteHeaders\<close>\<close>
  "copy_one dst kv =
     (case kv of (k, vv) \<Rightarrow>
        let kk = to_lower k in
        if kk \<in> set hopResponseHeaders then dst
        else if kk = ''content-length'' then dst
        else if kk = ''location'' \<or> kk = ''content-location'' then dst
        else if CR \<in> set k \<or> LF \<in> set k \<or> CHR 0x00 \<in> set k then dst
        else let vs = (if kk = ''link'' then stripXetLinks vv else vv)
             in foldl (\<lambda>h v. case sanitiseHeaderValue v of Some s \<Rightarrow> hdr_add k s h | None \<Rightarrow> h) dst vs)"

definition copyAndRewriteHeaders :: "url_ops \<Rightarrow> Config \<Rightarrow> header \<Rightarrow> up_response \<Rightarrow> string \<Rightarrow> header" where
  "copyAndRewriteHeaders U cfg dst resp originPath =
     (let h1 = foldl copy_one dst (upHeader resp);
          loc = hdr_get (upHeader resp) ''Location'';
          h2 = (if loc \<noteq> [] then set_sanitised ''Location'' (rewritten U cfg loc originPath) h1 else h1);
          cloc = hdr_get (upHeader resp) ''Content-Location''
      in if cloc \<noteq> [] then set_sanitised ''Content-Location'' (rewritten U cfg cloc originPath) h2 else h2)"

subsection \<open>Requests, process state\<close>

record http_request =
  qMethod :: string
  qPath :: string                     \<comment> \<open>\<open>r.URL.Path\<close>\<close>
  qRawQuery :: string
  qHeader :: header
  qBody :: "string option"            \<comment> \<open>what reading the body gives, if reading succeeds\<close>

record ctx =
  cstore :: store
  ckeys :: khc
  clog :: "wire_request list"         \<comment> \<open>requests sent upstream, oldest first\<close>

record env =
  \<comment> \<open>what the surroundings do while one request is served\<close>
  eio :: io                           \<comment> \<open>failing system calls of the store\<close>
  epick :: nat                        \<comment> \<open>victim of a full key memo\<close>
  eshort :: "nat \<Rightarrow> nat option"       \<comment> \<open>disk write \<open>i\<close> of the stream fails after so many bytes\<close>
  egone :: "nat \<Rightarrow> bool"              \<comment> \<open>client write \<open>i\<close> of the stream fails\<close>
  eacquired :: bool                   \<comment> \<open>the byte range was claimed within the budget\<close>
  ewait :: "store \<Rightarrow> store"           \<comment> \<open>what other requests did to the store meanwhile\<close>
  enet :: "wire_request \<Rightarrow> up_response option"

definition key_get :: "Config \<Rightarrow> env \<Rightarrow> string \<Rightarrow> string \<Rightarrow> string \<Rightarrow> string \<Rightarrow> ctx \<Rightarrow> string \<times> ctx" where
  \<comment> \<open>\<open>h.keyHexC.Get(method, host, path, query, "")\<close>\<close>
  "key_get cfg E meth host path query c =
     (case khc_Get (MaxKeyHexEntries cfg) (epick E) (ckeys c) meth host path query [] of
        (k, m) \<Rightarrow> (k, c\<lparr>ckeys := m\<rparr>))"

definition up_Do ::
  "Config \<Rightarrow> env \<Rightarrow> string \<Rightarrow> string \<Rightarrow> string \<Rightarrow> string \<Rightarrow> header \<Rightarrow> string \<Rightarrow> ctx \<Rightarrow> up_response option \<times> ctx" where
  "up_Do cfg E meth host path query hdr bdy c =
     (case Do (enet E) cfg meth host path query hdr bdy of (r, rs) \<Rightarrow> (r, c\<lparr>clog := clog c @ rs\<rparr>))"

subsection \<open>Serving from the cache\<close>

definition formatContentRange :: "int \<Rightarrow> int \<Rightarrow> int \<Rightarrow> string" where
  "formatContentRange start end tot =
     (let l = wrap64 (end - 1)
      in if tot \<ge> 0 then ''bytes '' @ format_int start @ ''-'' @ format_int l @ ''/'' @ format_int tot
         else ''bytes '' @ format_int start @ ''-'' @ format_int l @ ''/*'')"

definition acquire_body :: "io \<Rightarrow> string \<Rightarrow> store \<Rightarrow> (cache_err + nat) \<times> store" where
  \<comment> \<open>\<open>AcquireBody\<close>, which returns in every state of a running store\<close>
  "acquire_body io key s = (case AcquireBody io key s of Some r \<Rightarrow> r | None \<Rightarrow> (Inl (IOErr OpenBodyFile), s))"

definition meta_headers :: "Meta \<Rightarrow> header \<Rightarrow> header" where
  \<comment> \<open>Content-Type, ETag and the preserved headers of a cached entry\<close>
  "meta_headers m h =
     (let h1 = (if ContentType m \<noteq> [] then hdr_set ''Content-Type'' (ContentType m) h else h);
          h2 = (if ETag m \<noteq> [] then hdr_set ''ETag'' (ETag m) h1 else h1)
      in applyExtraHeaders (ExtraHeaders m) h2)"

definition serveCachedHead :: "Meta \<Rightarrow> header \<Rightarrow> response" where
  "serveCachedHead m h0 =
     (let h1 = meta_headers m h0;
          h2 = (case Total m of Some t \<Rightarrow> if t \<ge> 0 then hdr_set ''Content-Length'' (format_int t) h1 else h1 | None \<Rightarrow> h1)
      in \<lparr>rStatus = 200, rHeader = h2, rBody = []\<rparr>)"

definition serveCachedRedirect :: "url_ops \<Rightarrow> Config \<Rightarrow> Meta \<Rightarrow> header \<Rightarrow> response" where
  "serveCachedRedirect U cfg m h0 =
     (let loc = rewritten U cfg (Location m) (MPath m);
          h1 = meta_headers m (hdr_set ''Location'' loc h0)
      in \<lparr>rStatus = StatusCode m, rHeader = hdr_set ''Content-Length'' ''0'' h1, rBody = []\<rparr>)"

definition wanted :: "string \<Rightarrow> int \<Rightarrow> (int \<times> int) option" where
  \<comment> \<open>the byte range a request asks of an entry; \<open>None\<close> is a miss\<close>
  "wanted rangeHdr tot =
     (if rangeHdr = [] then (if tot < 0 then None else Some (0, tot))
      else case ParseSingleRange rangeHdr tot of
        None \<Rightarrow> None
      | Some (a, b) \<Rightarrow> if b < 0 then None else Some (a, b))"

definition section_bytes :: "string \<Rightarrow> int \<Rightarrow> int \<Rightarrow> string" where
  \<comment> \<open>all that \<open>io.NewSectionReader(f, off, n)\<close> yields\<close>
  "section_bytes f off n = (if off < 0 \<or> n \<le> 0 then [] else take (nat n) (drop (nat off) f))"

definition serve_body :: "env \<Rightarrow> string \<Rightarrow> string \<Rightarrow> Meta \<Rightarrow> header \<Rightarrow> store \<Rightarrow> response option \<times> store" where
  \<comment> \<open>\<open>tryServeFromCache\<close> from the span check on\<close>
  "serve_body E rangeHdr key m h0 s =
     (if Spans m = [] then (None, s)
      else let tot = (case Total m of None \<Rightarrow> -1 | Some t \<Rightarrow> t)
           in case wanted rangeHdr tot of
                None \<Rightarrow> (None, s)
              | Some (a, b) \<Rightarrow>
                  if \<not> Covers (Spans m) a b then (None, s)
                  else case acquire_body (eio E) key s of
                    (Inl _, s1) \<Rightarrow> (None, s1)
                  | (Inr bh, s1) \<Rightarrow>
                      let n = wrap64 (b - a);
                          h1 = hdr_set ''Content-Length'' (format_int n) (meta_headers m h0);
                          f = inodes s1 (hino (handles s1 bh))
                      in (Some (if rangeHdr \<noteq> []
                                then \<lparr>rStatus = 206, rHeader = hdr_set ''Content-Range'' (formatContentRange a b tot) h1,
                                      rBody = section_bytes f a n\<rparr>
                                else \<lparr>rStatus = 200, rHeader = h1, rBody = section_bytes f a n\<rparr>),
                          CloseHandle bh s1))"

definition tryServeFromCache ::
  "url_ops \<Rightarrow> Config \<Rightarrow> env \<Rightarrow> string \<Rightarrow> string \<Rightarrow> bool \<Rightarrow> header \<Rightarrow> store \<Rightarrow> response option \<times> store" where
  "tryServeFromCache U cfg E rangeHdr keyHex headOnly h0 s =
     (case LoadMeta (eio E) keyHex s of
        (Inr (Some m0), s1) \<Rightarrow>
          (case (if AliasOf m0 \<noteq> []
                 then (case LoadMeta (eio E) (AliasOf m0) s1 of
                         (Inr (Some m), s2) \<Rightarrow> (Some (m, AliasOf m0), s2)
                       | (_, s2) \<Rightarrow> (None, s2))
                 else (Some (m0, keyHex), s1)) of
             (None, s2) \<Rightarrow> (None, s2)
           | (Some (m, key), s2) \<Rightarrow>
               if IsCacheableRedirectStatus (StatusCode m) \<and> Location m \<noteq> []
               then (Some (serveCachedRedirect U cfg m h0), s2)
               else if headOnly then (Some (serveCachedHead m h0), s2)
               else serve_body E rangeHdr key m h0 s2)
      | (_, s1) \<Rightarrow> (None, s1))"

subsection \<open>Streaming a miss\<close>

definition resolveRevAliasPath :: "string \<Rightarrow> string \<Rightarrow> string option" where
  "resolveRevAliasPath path newRev =
     (case index_str path ''/resolve/'' of
        None \<Rightarrow> None
      | Some i \<Rightarrow>
          let rest = drop (i + 9) path
          in case index_byte rest (CHR ''/'') of
               None \<Rightarrow> None
             | Some j \<Rightarrow>
                 if j = 0 then None
                 else if take j rest = newRev then Some path
                 else Some (take (i + 9) path @ newRev @ drop j rest))"

definition maybeWriteRevAlias ::
  "Config \<Rightarrow> env \<Rightarrow> string \<Rightarrow> string \<Rightarrow> string \<Rightarrow> string \<Rightarrow> string \<Rightarrow> header \<Rightarrow> ctx \<Rightarrow> ctx" where
  "maybeWriteRevAlias cfg E meth upstreamHost path rawQuery canonicalKey hdrs c =
     (let sha = hdr_get hdrs ''X-Repo-Commit''
      in if sha = [] then c
         else case resolveRevAliasPath path sha of
           None \<Rightarrow> c
         | Some aliasPath \<Rightarrow>
             if aliasPath = path then c
             else let keyQuery = (if IsContentAddressedHost upstreamHost then [] else rawQuery)
                  in case key_get cfg E meth upstreamHost aliasPath keyQuery c of
                       (aliasKey, c1) \<Rightarrow>
                         if aliasKey = canonicalKey then c1
                         else c1\<lparr>cstore := snd (StoreAlias (eio E) aliasKey canonicalKey upstreamHost aliasPath rawQuery (cstore c1))\<rparr>)"

fun tee_copy :: "env \<Rightarrow> nat \<Rightarrow> string list \<Rightarrow> SegmentWriter \<Rightarrow> store \<Rightarrow> string \<times> SegmentWriter \<times> store" where
  \<comment> \<open>\<open>io.Copy(w, teed)\<close>: \<open>diskTeeReader.Read\<close> writes a chunk to disk and hands it on even when that fails\<close>
  "tee_copy E i [] w s = ([], w, s)"
| "tee_copy E i (c # cs) w s =
     (case Write (eio E) (eshort E i) w c s of
        ((_, err), w1, s1) \<Rightarrow>
          if egone E i then ([], w1, s1)
          else if err \<noteq> None then (c, w1, s1)
          else (case tee_copy E (Suc i) cs w1 s1 of (sent, w2, s2) \<Rightarrow> (c @ sent, w2, s2)))"

fun plain_copy :: "env \<Rightarrow> nat \<Rightarrow> string list \<Rightarrow> string" where
  "plain_copy E i [] = []"
| "plain_copy E i (c # cs) = (if egone E i then [] else c @ plain_copy E (Suc i) cs)"

definition setArtifactHeaders :: "int \<Rightarrow> header \<Rightarrow> header" where
  "setArtifactHeaders contentLength h =
     (if contentLength \<ge> 0 then hdr_set ''Content-Length'' (format_int contentLength) h else hdr_del ''Content-Length'' h)"

definition streamMetadata :: "env \<Rightarrow> header \<Rightarrow> up_response \<Rightarrow> response" where
  "streamMetadata E h resp =
     \<lparr>rStatus = upStatus resp, rHeader = setArtifactHeaders (upContentLength resp) h, rBody = plain_copy E 0 (upBody resp)\<rparr>"

definition begin_failed :: "header \<Rightarrow> cache_err \<Rightarrow> response" where
  "begin_failed h e =
     (if e = QuotaExceeded then http_Error h ''cache storage quota exceeded'' 507
      else http_Error h ''cache write failed'' 500)"

definition stream_segment ::
  "Config \<Rightarrow> env \<Rightarrow> header \<Rightarrow> int \<Rightarrow> SegmentParams \<Rightarrow> header \<Rightarrow> up_response \<Rightarrow> string \<Rightarrow> string \<Rightarrow> string \<Rightarrow> string \<Rightarrow> ctx \<Rightarrow>
   response \<times> ctx" where
  \<comment> \<open>the common part of \<open>streamCacheable200\<close> and \<open>streamCacheable206\<close>: \<open>h\<close> are the headers before, \<open>h'\<close> those after a
      successful \<open>BeginSegment\<close>\<close>
  "stream_segment cfg E h status sp h' resp keyHex upstreamHost path rawQuery c =
     (case BeginSegment (eio E) keyHex sp (cstore c) of
        (Inl e, s1) \<Rightarrow> (begin_failed h e, c\<lparr>cstore := s1\<rparr>)
      | (Inr dw, s1) \<Rightarrow>
          (case tee_copy E 0 (upBody resp) dw s1 of (sent, dw1, s2) \<Rightarrow>
           (case CloseSegment (eio E) dw1 s2 of (_, _, s3) \<Rightarrow>
              (\<lparr>rStatus = status, rHeader = h', rBody = sent\<rparr>,
               maybeWriteRevAlias cfg E ''GET'' upstreamHost path rawQuery keyHex (upHeader resp) (c\<lparr>cstore := s3\<rparr>)))))"

definition segment_params ::
  "int \<Rightarrow> string \<Rightarrow> string \<Rightarrow> string \<Rightarrow> header \<Rightarrow> int \<Rightarrow> int \<Rightarrow> int \<Rightarrow> string \<Rightarrow> SegmentParams" where
  "segment_params status host path rawQuery hdr start len tot originPath =
     \<lparr>pStatus = status, pUpstreamHost = host, pPath = path, pRawQuery = rawQuery, pETag = hdr_get hdr ''ETag'',
      pContentType = hdr_get hdr ''Content-Type'', pStart = start, pLength = len, pTotal = tot,
      pExtraHeaders = pickPreservedHeaders hdr, pOriginPath = originPath\<rparr>"

definition streamCacheable200 ::
  "Config \<Rightarrow> env \<Rightarrow> header \<Rightarrow> up_response \<Rightarrow> string \<Rightarrow> string \<Rightarrow> string \<Rightarrow> string \<Rightarrow> string \<Rightarrow> ctx \<Rightarrow> response \<times> ctx" where
  "streamCacheable200 cfg E h resp keyHex upstreamHost path rawQuery originPath c =
     stream_segment cfg E h 200
       (segment_params 200 upstreamHost path rawQuery (upHeader resp) 0 (upContentLength resp) (upContentLength resp) originPath)
       (setArtifactHeaders (upContentLength resp) h) resp keyHex upstreamHost path rawQuery c"

definition parseContentRangeResponse :: "string \<Rightarrow> (int \<times> int \<times> int) option" where
  "parseContentRangeResponse s =
     (let s1 = trim_space s
      in if \<not> has_prefix (to_lower s1) ''bytes '' then None
         else case split_on (CHR ''/'') (drop 6 s1) of
           [p0, p1] \<Rightarrow>
             (let se = trim_space p0; totalStr = trim_space p1
              in case index_byte se (CHR ''-'') of
                   None \<Rightarrow> None
                 | Some dash \<Rightarrow>
                     (case (parse_int (take dash se), parse_int (drop (Suc dash) se)) of
                        (Some a, Some b) \<Rightarrow>
                          if a < 0 \<or> b < a then None
                          else if totalStr = ''*'' then Some (a, wrap64 (b + 1), -1)
                          else (case parse_int totalStr of
                                  None \<Rightarrow> None
                                | Some t \<Rightarrow> if t < 0 then None else Some (a, wrap64 (b + 1), t))
                      | _ \<Rightarrow> None))
         | _ \<Rightarrow> None)"

definition streamCacheable206 ::
  "Config \<Rightarrow> env \<Rightarrow> header \<Rightarrow> up_response \<Rightarrow> string \<Rightarrow> string \<Rightarrow> string \<Rightarrow> string \<Rightarrow> string \<Rightarrow> ctx \<Rightarrow> response \<times> ctx" where
  "streamCacheable206 cfg E h resp keyHex upstreamHost path rawQuery originPath c =
     (case parseContentRangeResponse (hdr_get (upHeader resp) ''Content-Range'') of
        None \<Rightarrow> (streamMetadata E h resp, c)
      | Some (start, end, tot) \<Rightarrow>
          stream_segment cfg E h 206
            (segment_params 206 upstreamHost path rawQuery (upHeader resp) start (wrap64 (end - start)) tot originPath)
            (setArtifactHeaders (wrap64 (end - start)) (hdr_set ''Content-Range'' (formatContentRange start end tot) h))
            resp keyHex upstreamHost path rawQuery c)"

definition streamCacheable ::
  "Config \<Rightarrow> env \<Rightarrow> header \<Rightarrow> up_response \<Rightarrow> string \<Rightarrow> string \<Rightarrow> string \<Rightarrow> string \<Rightarrow> string \<Rightarrow> ctx \<Rightarrow> response \<times> ctx" where
  "streamCacheable cfg E h resp keyHex upstreamHost path rawQuery originPath c =
     (if upStatus resp = 200 then streamCacheable200 cfg E h resp keyHex upstreamHost path rawQuery originPath c
      else if upStatus resp = 206 then streamCacheable206 cfg E h resp keyHex upstreamHost path rawQuery originPath c
      else (streamMetadata E h resp, c))"

definition forwardRedirect :: "header \<Rightarrow> up_response \<Rightarrow> response" where
  "forwardRedirect h resp = \<lparr>rStatus = upStatus resp, rHeader = hdr_set ''Content-Length'' ''0'' h, rBody = []\<rparr>"

definition cacheableLocation ::
  "Config \<Rightarrow> env \<Rightarrow> up_response \<Rightarrow> string \<Rightarrow> string \<Rightarrow> string \<Rightarrow> header \<Rightarrow> ctx \<Rightarrow> (string \<times> header) option \<times> ctx" where
  "cacheableLocation cfg E resp upstreamHost path rawQuery reqHdr c =
     (if hdr_get reqHdr ''Range'' = [] then (Some (hdr_get (upHeader resp) ''Location'', upHeader resp), c)
      else case up_Do cfg E ''GET'' upstreamHost path rawQuery (hdr_del ''Range'' reqHdr) [] c of
        (None, c1) \<Rightarrow> (None, c1)
      | (Some fresh, c1) \<Rightarrow>
          let loc = hdr_get (upHeader fresh) ''Location''
          in if \<not> IsCacheableRedirectStatus (upStatus fresh) \<or> loc = [] then (None, c1)
             else (Some (loc, upHeader fresh), c1))"

definition cacheRedirect ::
  "Config \<Rightarrow> env \<Rightarrow> header \<Rightarrow> up_response \<Rightarrow> string \<Rightarrow> string \<Rightarrow> string \<Rightarrow> string \<Rightarrow> header \<Rightarrow> ctx \<Rightarrow> response \<times> ctx" where
  "cacheRedirect cfg E h resp keyHex upstreamHost path rawQuery reqHdr c =
     (if hdr_get (upHeader resp) ''Location'' = [] then (streamMetadata E h resp, c)
      else case cacheableLocation cfg E resp upstreamHost path rawQuery reqHdr c of
        (None, c1) \<Rightarrow> (forwardRedirect h resp, c1)
      | (Some (cacheLoc, cacheHdr), c1) \<Rightarrow>
          let s1 = snd (StoreRedirect (eio E) keyHex (upStatus resp) upstreamHost path rawQuery cacheLoc
                         (hdr_get cacheHdr ''Content-Type'') (hdr_get cacheHdr ''ETag'') (pickPreservedHeaders cacheHdr)
                         (cstore c1))
          in (forwardRedirect h resp,
              maybeWriteRevAlias cfg E ''GET'' upstreamHost path rawQuery keyHex cacheHdr (c1\<lparr>cstore := s1\<rparr>)))"

subsection \<open>Forwarding and dispatch\<close>

definition forward_headers :: "Config \<Rightarrow> string \<Rightarrow> header \<Rightarrow> header" where
  \<comment> \<open>the header set \<open>forward\<close> sends upstream\<close>
  "forward_headers cfg upstreamHost inHdr =
     (let h = foldl (\<lambda>acc (k, vv). let kk = to_lower k
                      in if kk \<in> set hopRequestHeaders then acc
                         else if kk = ''authorization'' then acc else add_all k vv acc) [] inHdr
      in if \<not> IsContentAddressedHost upstreamHost \<and> UpstreamHFToken cfg \<noteq> []
         then hdr_set ''Authorization'' (''Bearer '' @ UpstreamHFToken cfg) h else h)"

definition forward_body :: "http_request \<Rightarrow> string \<Rightarrow> string" where
  "forward_body r meth =
     (if meth \<noteq> ''GET'' \<and> meth \<noteq> ''HEAD''
      then (case qBody r of None \<Rightarrow> [] | Some b \<Rightarrow> take 268435456 b) else [])"

definition deliver ::
  "url_ops \<Rightarrow> Config \<Rightarrow> env \<Rightarrow> http_request \<Rightarrow> string \<Rightarrow> string \<Rightarrow> string \<Rightarrow> string \<Rightarrow> string \<Rightarrow> string \<Rightarrow> header \<Rightarrow> bool \<Rightarrow> header \<Rightarrow>
   ctx \<Rightarrow> response \<times> ctx" where
  \<comment> \<open>\<open>forward\<close> from the upstream call on\<close>
  "deliver U cfg E r upstreamHost path rawQuery keyHex meth originPath hdr passthrough h0 c =
     (case up_Do cfg E meth upstreamHost path rawQuery hdr (forward_body r meth) c of
        (None, c1) \<Rightarrow> (http_Error h0 ''upstream error'' 502, c1)
      | (Some resp, c1) \<Rightarrow>
          let outboundOrigin = (if originPath = [] \<and> \<not> has_prefix (qPath r) ''/_p/'' then qPath r else originPath);
              h = copyAndRewriteHeaders U cfg h0 resp outboundOrigin
          in if passthrough then (streamMetadata E h resp, c1)
             else if meth = ''GET'' \<and> (upStatus resp = 200 \<or> upStatus resp = 206)
             then streamCacheable cfg E h resp keyHex upstreamHost path rawQuery originPath c1
             else if meth = ''GET'' \<and> IsCacheableRedirectStatus (upStatus resp)
             then cacheRedirect cfg E h resp keyHex upstreamHost path rawQuery hdr c1
             else (streamMetadata E h resp, c1))"

definition forward ::
  "url_ops \<Rightarrow> Config \<Rightarrow> env \<Rightarrow> http_request \<Rightarrow> string \<Rightarrow> string \<Rightarrow> string \<Rightarrow> string \<Rightarrow> bool \<Rightarrow> string \<Rightarrow> string \<Rightarrow> header \<Rightarrow> ctx \<Rightarrow>
   response \<times> ctx" where
  "forward U cfg E r upstreamHost path rawQuery keyHex artifact meth originPath h0 c =
     (let hdr = forward_headers cfg upstreamHost (qHeader r) in
      if artifact \<and> meth = ''GET''
      then let passthrough = (InflightAcquireTimeout cfg > 0 \<and> \<not> eacquired E)
           in case tryServeFromCache U cfg E (hdr_get (qHeader r) ''Range'') keyHex False h0 (ewait E (cstore c)) of
                (Some resp, s1) \<Rightarrow> (resp, c\<lparr>cstore := s1\<rparr>)
              | (None, s1) \<Rightarrow>
                  deliver U cfg E r upstreamHost path rawQuery keyHex meth originPath hdr passthrough h0 (c\<lparr>cstore := s1\<rparr>)
      else deliver U cfg E r upstreamHost path rawQuery keyHex meth originPath hdr False h0 c)"

definition routeUpstream :: "Config \<Rightarrow> string \<Rightarrow> header \<Rightarrow> response + string \<times> string" where
  "routeUpstream cfg path h0 =
     (if \<not> has_prefix path ''/_p/'' then Inr (normDefaultHost cfg, path)
      else let rest = trim_prefix path ''/_p/''
           in case index_byte rest (CHR ''/'') of
                None \<Rightarrow> Inl (http_Error h0 ''bad /_p/ path'' 400)
              | Some i \<Rightarrow>
                  if i = 0 \<or> i = length rest - 1 then Inl (http_Error h0 ''bad /_p/ path'' 400)
                  else let prefHost = to_lower (take i rest)
                       in if \<not> Matcher (AllowHost cfg) prefHost then Inl (http_Error h0 ''host not allowed'' 403)
                          else Inr (prefHost, drop i rest))"

definition respondOffline :: "header \<Rightarrow> string \<Rightarrow> string \<Rightarrow> string \<Rightarrow> string \<Rightarrow> bool \<Rightarrow> string \<Rightarrow> response" where
  "respondOffline h0 host path rangeHdr keyHex artifact meth =
     \<lparr>rStatus = 504,
      rHeader = hdr_set ''X-Pulsys-KeyHex'' keyHex (hdr_set ''X-Pulsys-Offline'' ''1''
        (hdr_set ''Content-Type'' ''text/plain; charset=utf-8'' h0)),
      rBody = ''offline=1'' @ [LF] @ ''reason=cache-miss-in-offline-mode'' @ [LF] @ ''method='' @ meth @ [LF] @
        ''upstream_host='' @ host @ [LF] @ ''path='' @ path @ [LF] @ ''range='' @ rangeHdr @ [LF] @
        ''key_hex='' @ keyHex @ [LF] @ ''artifact='' @ (if artifact then ''true'' else ''false'') @ [LF]\<rparr>"

definition ServeHTTP :: "url_ops \<Rightarrow> Config \<Rightarrow> env \<Rightarrow> http_request \<Rightarrow> ctx \<Rightarrow> response \<times> ctx" where
  "ServeHTTP U cfg E r c =
     (let h0 = hdr_set ''X-Content-Type-Options'' ''nosniff'' [] in
      if qPath r = ''/healthz'' then (\<lparr>rStatus = 200, rHeader = h0, rBody = ''ok''\<rparr>, c)
      else case routeUpstream cfg (qPath r) h0 of
        Inl resp \<Rightarrow> (resp, c)
      | Inr (upstreamHost, path) \<Rightarrow>
          (case ExtractAndStripOrigin (qRawQuery r) of (originPath, cleaned) \<Rightarrow>
           let rawQuery = (if originPath \<noteq> [] then cleaned else qRawQuery r);
               meth = qMethod r;
               keyQuery = (if IsContentAddressedHost upstreamHost then [] else rawQuery)
           in case key_get cfg E meth upstreamHost path keyQuery c of (keyHex, c1) \<Rightarrow>
              let isHead = (meth = ''HEAD'');
                  artifact0 = ArtifactGET (DefaultHost cfg) upstreamHost meth path;
                  artifact = (if isHead \<and> \<not> artifact0 then ArtifactGET (DefaultHost cfg) upstreamHost ''GET'' path else artifact0);
                  rangeHdr = hdr_get (qHeader r) ''Range''
              in case (if (meth = ''GET'' \<or> isHead) \<and> (artifact \<or> Offline cfg)
                       then (case (if isHead then key_get cfg E ''GET'' upstreamHost path keyQuery c1 else (keyHex, c1)) of
                               (lookupKey, c2) \<Rightarrow>
                                 (case tryServeFromCache U cfg E rangeHdr lookupKey isHead h0 (cstore c2) of
                                    (resp, s1) \<Rightarrow> (resp, c2\<lparr>cstore := s1\<rparr>)))
                       else (None, c1)) of
                   (Some resp, c3) \<Rightarrow> (resp, c3)
                 | (None, c3) \<Rightarrow>
                     if StrictOffline cfg
                     then (respondOffline h0 upstreamHost path rangeHdr keyHex artifact meth, c3)
                     else forward U cfg E r upstreamHost path rawQuery keyHex artifact meth originPath h0 c3))"

end
