(* ===== verification/Proxy_Props.thy ===== *)
theory Proxy_Props
  imports Proxy_Handler
begin

text \<open>
  Properties of the handler: what it sends upstream, what it relays back, and when it leaves the cache alone.
\<close>

subsection \<open>What goes upstream\<close>

definition own_credentials :: "Config \<Rightarrow> string \<Rightarrow> string \<Rightarrow> string \<Rightarrow> bool" where
  \<comment> \<open>a header that may go to \<open>host\<close>: not hop-by-hop, and an Authorization only with the proxy's own token and
      only to a host that is not content-addressed\<close>
  "own_credentials cfg host k v \<longleftrightarrow>
     to_lower k \<notin> set hopRequestHeaders \<and>
     (to_lower k = ''authorization'' \<longrightarrow>
        v = ''Bearer '' @ UpstreamHFToken cfg \<and> UpstreamHFToken cfg \<noteq> [] \<and> \<not> IsContentAddressedHost host)"

lemma own_credentials_canon [simp]: "own_credentials cfg host (CanonicalHeaderKey k) v = own_credentials cfg host k v"
  by (simp add: own_credentials_def)

lemma distinct_add_all: "distinct (map fst h) \<Longrightarrow> distinct (map fst (add_all k vs h))"
  unfolding add_all_def by (induction vs arbitrary: h) (auto simp: hdr_add_def intro: distinct_update)

lemma forward_headers_fields:
  "all_fields (own_credentials cfg host) (forward_headers cfg host inHdr)"
  "distinct (map fst (forward_headers cfg host inHdr))"
proof -
  let ?f = "\<lambda>acc (k, vv). let kk = to_lower k in if kk \<in> set hopRequestHeaders then acc
      else if kk = ''authorization'' then acc else add_all k vv acc"
  have 1: "all_fields (own_credentials cfg host) (foldl ?f [] inHdr)"
    by (rule all_fields_foldl) (auto simp: Let_def own_credentials_def intro!: all_fields_add_all)
  have 2: "distinct (map fst (foldl ?f h inHdr))" if "distinct (map fst h)" for h
    using that by (induction inHdr arbitrary: h) (auto simp: Let_def distinct_add_all)
  have "own_credentials cfg host (CanonicalHeaderKey ''Authorization'') (''Bearer '' @ UpstreamHFToken cfg)"
    if "\<not> IsContentAddressedHost host" "UpstreamHFToken cfg \<noteq> []"
  proof -
    have "to_lower ''Authorization'' = ''authorization''" by code_simp
    with that show ?thesis by (simp add: own_credentials_def hopRequestHeaders_def)
  qed
  with 1 show "all_fields (own_credentials cfg host) (forward_headers cfg host inHdr)"
    by (auto simp: forward_headers_def Let_def intro!: all_fields_set)
  from 2 [of "[]"] show "distinct (map fst (forward_headers cfg host inHdr))"
    by (auto simp: forward_headers_def Let_def hdr_set_def intro!: distinct_update)
qed

definition wire_ok :: "Config \<Rightarrow> string \<Rightarrow> wire_request \<Rightarrow> bool" where
  "wire_ok cfg host r \<longleftrightarrow> hostAllowed cfg (wHost r) \<and> wHost r = to_lower (trim_space host) \<and> all_fields (own_credentials cfg host) (wHeader r)"

definition sends :: "Config \<Rightarrow> string \<Rightarrow> ctx \<Rightarrow> ctx \<Rightarrow> nat \<Rightarrow> bool" where
  \<comment> \<open>at most \<open>n\<close> requests went out between two states, all of them in order\<close>
  "sends cfg host c c' n \<longleftrightarrow> (\<exists>rs. clog c' = clog c @ rs \<and> length rs \<le> n \<and> list_all (wire_ok cfg host) rs)"

lemma sends_refl [simp]: "clog c' = clog c \<Longrightarrow> sends cfg host c c' n"
  by (auto simp: sends_def)

lemma sends_trans: "sends cfg host c c1 m \<Longrightarrow> sends cfg host c1 c2 n \<Longrightarrow> sends cfg host c c2 (m + n)"
  by (fastforce simp: sends_def)

lemma sends_mono: "sends cfg host c c' m \<Longrightarrow> m \<le> n \<Longrightarrow> sends cfg host c c' n"
  by (auto simp: sends_def)

lemma sends_eq: "clog c1 = clog c \<Longrightarrow> sends cfg host c c' n = sends cfg host c1 c' n"
  "clog c2 = clog c' \<Longrightarrow> sends cfg host c c' n = sends cfg host c c2 n"
  by (auto simp: sends_def)

lemma up_Do_sends:
  assumes "up_Do cfg E meth host path query hdr bdy c = (r, c')" "all_fields (own_credentials cfg host) hdr" "distinct (map fst hdr)"
  shows "sends cfg host c c' 1" "cstore c' = cstore c"
proof -
  obtain rs where d: "Do (enet E) cfg meth host path query hdr bdy = (r, rs)" "c' = c\<lparr>clog := clog c @ rs\<rparr>"
    using assms(1) by (auto simp: up_Do_def split: prod.splits)
  have "wire_ok cfg host x" if "x \<in> set rs" for x
    using Do_sent [OF d(1) that] applyHeaders_fields [OF assms(2,3)]
    by (auto simp: wire_ok_def intro: all_fields_mono)
  moreover have "length rs \<le> 1" using d(1) by (auto simp: Do_def Let_def split: option.splits prod.splits)
  ultimately show "sends cfg host c c' 1" using d(2) by (auto simp: sends_def list_all_iff)
  show "cstore c' = cstore c" using d(2) by simp
qed

lemma key_get_sel [simp]:
  "clog (snd (key_get cfg E m h p q c)) = clog c" "cstore (snd (key_get cfg E m h p q c)) = cstore c"
  by (simp_all add: key_get_def split: prod.splits)

lemma key_get_pair: "key_get cfg E m h p q c = (k, c') \<Longrightarrow> clog c' = clog c \<and> cstore c' = cstore c"
  using key_get_sel [of cfg E m h p q c] by simp

lemma maybeWriteRevAlias_log [simp]: "clog (maybeWriteRevAlias cfg E meth host path q key hdrs c) = clog c"
  by (auto simp: maybeWriteRevAlias_def Let_def dest!: key_get_pair split: option.splits prod.splits)

lemma stream_segment_log: "clog (snd (stream_segment cfg E h code sp h' resp key host path q c)) = clog c"
  by (simp add: stream_segment_def split: prod.splits sum.splits)

lemma streamCacheable_log: "clog (snd (streamCacheable cfg E h resp key host path q og c)) = clog c"
  by (simp add: streamCacheable_def streamCacheable200_def streamCacheable206_def stream_segment_log split: option.splits prod.splits)

lemma cacheRedirect_sends:
  assumes "all_fields (own_credentials cfg host) hdr" "distinct (map fst hdr)"
  shows "sends cfg host c (snd (cacheRedirect cfg E h resp key host path q hdr c)) 1"
proof -
  obtain r c1 where l: "cacheableLocation cfg E resp host path q hdr c = (r, c1)" by fastforce
  have d: "all_fields (own_credentials cfg host) (hdr_del ''Range'' hdr)" "distinct (map fst (hdr_del ''Range'' hdr))"
    using assms by (auto simp: hdr_del_def intro: all_fields_del [unfolded hdr_del_def] distinct_delete)
  obtain x c2 where u: "up_Do cfg E ''GET'' host path q (hdr_del ''Range'' hdr) [] c = (x, c2)" by fastforce
  have "c1 = c \<or> c1 = c2"
    using l by (auto simp: cacheableLocation_def u Let_def split: if_splits option.splits)
  with up_Do_sends(1) [OF u d] have s: "sends cfg host c c1 1" by auto
  have "clog (snd (cacheRedirect cfg E h resp key host path q hdr c)) \<in> {clog c, clog c1}"
    by (auto simp: cacheRedirect_def l Let_def split: option.splits prod.splits)
  with s show ?thesis by (auto simp: sends_def)
qed

lemma deliver_sends:
  assumes "all_fields (own_credentials cfg host) hdr" "distinct (map fst hdr)"
  shows "sends cfg host c (snd (deliver U cfg E r host path q key meth og hdr pt h0 c)) 2"
proof -
  obtain x c1 where u: "up_Do cfg E meth host path q hdr (forward_body r meth) c = (x, c1)" by fastforce
  note s = up_Do_sends(1) [OF u assms]
  show ?thesis
  proof (cases x)
    case None
    with u s show ?thesis by (simp add: deliver_def sends_mono)
  next
    case (Some resp)
    let ?d = "snd (deliver U cfg E r host path q key meth og hdr pt h0 c)"
    have "sends cfg host c1 ?d 1"
      using cacheRedirect_sends [OF assms] streamCacheable_log
      by (auto simp: deliver_def u Some Let_def)
    from sends_trans [OF s this] show ?thesis by (simp add: numeral_2_eq_2)
  qed
qed

lemma sends_start: "clog c1 = clog c \<Longrightarrow> sends cfg host c1 c' n \<Longrightarrow> sends cfg host c c' n"
  by (simp add: sends_def)

lemma forward_sends: "sends cfg host c (snd (forward U cfg E r host path q key art meth og h0 c)) 2"
proof -
  let ?H = "forward_headers cfg host (qHeader r)"
  obtain x s1 where t: "tryServeFromCache U cfg E (hdr_get (qHeader r) ''Range'') key False h0 (ewait E (cstore c)) = (x, s1)"
    by fastforce
  have D: "sends cfg host c' (snd (deliver U cfg E r host path q key meth og ?H pt h0 c')) 2" for pt c'
    by (rule deliver_sends [OF forward_headers_fields])
  from D [of "c\<lparr>cstore := s1\<rparr>"] D [of c] show ?thesis
    by (cases x) (auto simp: forward_def Let_def t intro: sends_start [where ?c1.0 = "c\<lparr>cstore := s1\<rparr>"])
qed

definition cache_attempt ::
  "url_ops \<Rightarrow> Config \<Rightarrow> env \<Rightarrow> http_request \<Rightarrow> string \<Rightarrow> string \<Rightarrow> string \<Rightarrow> string \<Rightarrow> bool \<Rightarrow> header \<Rightarrow> ctx \<Rightarrow> response option \<times> ctx" where
  \<comment> \<open>the cache lookup of \<open>ServeHTTP\<close>\<close>
  "cache_attempt U cfg E r host path keyQuery keyHex artifact h0 c1 =
     (if (qMethod r = ''GET'' \<or> qMethod r = ''HEAD'') \<and> (artifact \<or> Offline cfg)
      then (case (if qMethod r = ''HEAD'' then key_get cfg E ''GET'' host path keyQuery c1 else (keyHex, c1)) of
              (lookupKey, c2) \<Rightarrow>
                (case tryServeFromCache U cfg E (hdr_get (qHeader r) ''Range'') lookupKey (qMethod r = ''HEAD'') h0 (cstore c2) of
                   (resp, s1) \<Rightarrow> (resp, c2\<lparr>cstore := s1\<rparr>)))
      else (None, c1))"

lemma cache_attempt_log: "cache_attempt U cfg E r host path kq key art h0 c1 = (x, c3) \<Longrightarrow> clog c3 = clog c1"
  by (auto simp: cache_attempt_def dest!: key_get_pair split: if_splits prod.splits)

lemma ServeHTTP_cases:
  assumes "ServeHTTP U cfg E r c = (resp, c')"
  obtains "clog c' = clog c" | host path q key art meth og c3 where "\<not> StrictOffline cfg" "clog c3 = clog c"
      "c' = snd (forward U cfg E r host path q key art meth og (hdr_set ''X-Content-Type-Options'' ''nosniff'' []) c3)"
proof -
  let ?h0 = "hdr_set ''X-Content-Type-Options'' ''nosniff'' []"
  show thesis
  proof (cases "qPath r = ''/healthz''")
    case True
    with assms that(1) show ?thesis by (simp add: ServeHTTP_def)
  next
    case nh: False
    show ?thesis
    proof (cases "routeUpstream cfg (qPath r) ?h0")
      case (Inl x)
      with assms nh that(1) show ?thesis by (simp add: ServeHTTP_def)
    next
      case (Inr hp)
      obtain host path where hp: "hp = (host, path)" by (cases hp)
      obtain og cl where og: "ExtractAndStripOrigin (qRawQuery r) = (og, cl)" by fastforce
      define q where "q = (if og \<noteq> [] then cl else qRawQuery r)"
      define kq where "kq = (if IsContentAddressedHost host then [] else q)"
      obtain key c1 where k: "key_get cfg E (qMethod r) host path kq c = (key, c1)" by fastforce
      define art0 where "art0 = ArtifactGET (DefaultHost cfg) host (qMethod r) path"
      define art where "art = (if qMethod r = ''HEAD'' \<and> \<not> art0 then ArtifactGET (DefaultHost cfg) host ''GET'' path else art0)"
      obtain x c3 where a: "cache_attempt U cfg E r host path kq key art ?h0 c1 = (x, c3)" by fastforce
      have eq: "ServeHTTP U cfg E r c = (case cache_attempt U cfg E r host path kq key art ?h0 c1 of
          (Some resp, c3) \<Rightarrow> (resp, c3)
        | (None, c3) \<Rightarrow> if StrictOffline cfg
            then (respondOffline ?h0 host path (hdr_get (qHeader r) ''Range'') key art (qMethod r), c3)
            else forward U cfg E r host path q key art (qMethod r) og ?h0 c3)"
        using nh Inr hp og
        by (simp only: ServeHTTP_def Let_def if_False sum.case prod.case cache_attempt_def q_def [symmetric] kq_def [symmetric]
            k art0_def [symmetric] art_def [symmetric])
      have c3: "clog c3 = clog c" using cache_attempt_log [OF a] key_get_pair [OF k] by simp
      show ?thesis
      proof (cases "x = None \<and> \<not> StrictOffline cfg")
        case True
        with assms eq a c3 that(2) [of c3 host path q key art "qMethod r" og] show ?thesis by simp
      next
        case False
        with assms eq a have "c' = c3" by (cases x) auto
        with c3 that(1) show ?thesis by simp
      qed
    qed
  qed
qed

definition may_send :: "Config \<Rightarrow> wire_request \<Rightarrow> bool" where
  "may_send cfg x \<longleftrightarrow>
     (wHost x = normDefaultHost cfg \<or> Matcher (AllowHost cfg) (wHost x)) \<and>
     all_fields (\<lambda>k v. to_lower k \<notin> set hopRequestHeaders \<and>
       (to_lower k = ''authorization'' \<longrightarrow>
          v = ''Bearer '' @ UpstreamHFToken cfg \<and> UpstreamHFToken cfg \<noteq> [] \<and> \<not> IsContentAddressedHost (wHost x)))
      (wHeader x)"

lemma wire_ok_may_send:
  assumes "wire_ok cfg host x"
  shows "may_send cfg x"
proof -
  have h: "hostAllowed cfg (wHost x)" "wHost x = to_lower (trim_space host)" "all_fields (own_credentials cfg host) (wHeader x)"
    using assms unfolding wire_ok_def by blast+
  have "IsContentAddressedHost (wHost x) = IsContentAddressedHost host"
    by (simp add: IsContentAddressedHost_def h(2))
  with h(3) have "all_fields (\<lambda>k v. to_lower k \<notin> set hopRequestHeaders \<and>
       (to_lower k = ''authorization'' \<longrightarrow>
          v = ''Bearer '' @ UpstreamHFToken cfg \<and> UpstreamHFToken cfg \<noteq> [] \<and> \<not> IsContentAddressedHost (wHost x)))
      (wHeader x)"
    by (auto simp: own_credentials_def elim: all_fields_mono)
  moreover have "to_lower (trim_space (wHost x)) = wHost x" by (simp add: h(2))
  then have "wHost x = normDefaultHost cfg \<or> Matcher (AllowHost cfg) (wHost x)"
    using h(1) by (auto simp: hostAllowed_def Let_def split: if_splits)
  ultimately show ?thesis by (simp add: may_send_def)
qed

text \<open>C1: what a client's request can make the proxy send. Serving any request sends at most two requests upstream,
  and none at all in strict offline mode; each goes to the configured upstream or to a host that passes the
  allowlist and deny gate; none carries the caller's Authorization: an Authorization header, if
  there is one, is the proxy's own token and goes only to a host that is not content-addressed; and no
  hop-by-hop header is forwarded.\<close>

theorem serve_sends:
  "\<exists>rs. clog (snd (ServeHTTP U cfg E r c)) = clog c @ rs \<and> length rs \<le> (if StrictOffline cfg then 0 else 2) \<and>
     list_all (may_send cfg) rs"
proof -
  let ?h0 = "hdr_set ''X-Content-Type-Options'' ''nosniff'' []"
  obtain resp c' where eq: "ServeHTTP U cfg E r c = (resp, c')" by fastforce
  consider "clog c' = clog c" | host path q key art meth og c3 where "\<not> StrictOffline cfg" "clog c3 = clog c"
      "c' = snd (forward U cfg E r host path q key art meth og ?h0 c3)"
    by (rule ServeHTTP_cases [OF eq])
  then show ?thesis
  proof cases
    case 1
    then show ?thesis by (intro exI [of _ "[]"]) (simp add: eq)
  next
    case 2
    with forward_sends [of cfg host c3 U E r path q key art meth og ?h0]
    obtain rs where "clog c' = clog c @ rs" "length rs \<le> 2" "list_all (wire_ok cfg host) rs"
      by (auto simp: sends_def)
    with 2(1) show ?thesis
      by (intro exI [of _ rs]) (auto simp: eq list_all_iff wire_ok_may_send)
  qed
qed

subsection \<open>What is relayed back\<close>

definition relayable :: "string \<Rightarrow> string \<Rightarrow> bool" where
  \<comment> \<open>neither name nor value can split the response, and the header is not hop-by-hop\<close>
  "relayable k v \<longleftrightarrow> CR \<notin> set v \<and> LF \<notin> set v \<and> CHR 0x00 \<notin> set v \<and>
     CR \<notin> set k \<and> LF \<notin> set k \<and> CHR 0x00 \<notin> set k \<and> to_lower k \<notin> set hopResponseHeaders"

lemma sanitise_Some: "sanitiseHeaderValue v = Some s \<Longrightarrow> s = v \<and> CR \<notin> set v \<and> LF \<notin> set v \<and> CHR 0x00 \<notin> set v"
  by (auto simp: sanitiseHeaderValue_def split: if_splits)

lemma in_set_canon_loop:
  "\<not> (65 \<le> byte d \<and> byte d \<le> 90) \<Longrightarrow> \<not> (97 \<le> byte d \<and> byte d \<le> 122) \<Longrightarrow> d \<in> set (canon_loop up k) \<longleftrightarrow> d \<in> set k"
  using upper_char_eq [of d] lower_char_eq [of d]
  by (induction up k rule: canon_loop.induct) (simp_all add: eq_commute [of d])

lemma canon_ctl:
  "CR \<in> set (CanonicalHeaderKey k) \<longleftrightarrow> CR \<in> set k" "LF \<in> set (CanonicalHeaderKey k) \<longleftrightarrow> LF \<in> set k"
  "CHR 0x00 \<in> set (CanonicalHeaderKey k) \<longleftrightarrow> CHR 0x00 \<in> set k"
  by (simp_all add: CanonicalHeaderKey_def in_set_canon_loop)

lemma relayable_canon [simp]: "relayable (CanonicalHeaderKey k) v = relayable k v"
  by (simp add: relayable_def canon_ctl)

lemma copy_one_relayable: "all_fields relayable h \<Longrightarrow> all_fields relayable (copy_one h kv)"
proof -
  assume h: "all_fields relayable h"
  obtain k vv where kv: "kv = (k, vv)" by (cases kv)
  have add: "all_fields relayable (foldl (\<lambda>h v. case sanitiseHeaderValue v of Some s \<Rightarrow> hdr_add k s h | None \<Rightarrow> h) g vs)"
    if "all_fields relayable g" "to_lower k \<notin> set hopResponseHeaders" "CR \<notin> set k" "LF \<notin> set k" "CHR 0x00 \<notin> set k" for g vs
    using that(1)
    by (rule all_fields_foldl) (auto simp: relayable_def [of k] that(2-) dest!: sanitise_Some intro!: all_fields_add split: option.splits)
  show ?thesis
    using h add unfolding kv copy_one_def by (simp add: Let_def)
qed

lemma copy_relayable:
  assumes "all_fields relayable h"
  shows "all_fields relayable (copyAndRewriteHeaders U cfg h resp og)"
proof -
  have "relayable ''Location'' v" "relayable ''Content-Location'' v"
    if "CR \<notin> set v" "LF \<notin> set v" "CHR 0x00 \<notin> set v" for v
    using that by (simp_all add: relayable_def hopResponseHeaders_def to_lower_def)
  then have "all_fields relayable (set_sanitised ''Location'' v g)" "all_fields relayable (set_sanitised ''Content-Location'' v g)"
    if "all_fields relayable g" for v g
    using that by (auto simp: set_sanitised_def dest!: sanitise_Some intro!: all_fields_set split: option.splits)
  moreover have "all_fields relayable (foldl copy_one h (upHeader resp))"
    using assms copy_one_relayable by (rule all_fields_foldl)
  ultimately show ?thesis by (simp add: copyAndRewriteHeaders_def Let_def)
qed

definition own_link :: "string list \<Rightarrow> string \<Rightarrow> bool" where
  \<comment> \<open>a Link value made of link-values of one upstream header, none of them judged a Xet relation\<close>
  "own_link us v \<longleftrightarrow> (\<exists>u \<in> set us. v = join_with '', '' (filter (\<lambda>p. \<not> linkValueIsXet p) (splitLinkValues u)))"

lemma stripXetLinks_own: "v \<in> set (stripXetLinks us) \<Longrightarrow> own_link us v"
proof -
  let ?f = "\<lambda>out v. let kept = filter (\<lambda>p. \<not> linkValueIsXet p) (splitLinkValues v) in if kept = [] then out else out @ [join_with '', '' kept]"
  have "v \<in> set (foldl ?f out us) \<Longrightarrow> v \<in> set out \<or> own_link us v" for out
  proof (induction us arbitrary: out)
    case (Cons u us)
    from Cons.prems have "v \<in> set (foldl ?f (?f out u) us)" by simp
    from Cons.IH [OF this] consider "v \<in> set (?f out u)" | "own_link us v" by blast
    then show ?case
    proof cases
      case 1
      then show ?thesis by (auto simp: own_link_def Let_def split: if_splits)
    next
      case 2
      then show ?thesis by (auto simp: own_link_def)
    qed
  qed simp
  from this [of "[]"] show "v \<in> set (stripXetLinks us) \<Longrightarrow> own_link us v"
    by (cases "us = []") (simp_all add: stripXetLinks_def)
qed

definition link_ok :: "header \<Rightarrow> string \<Rightarrow> string \<Rightarrow> bool" where
  "link_ok up k v \<longleftrightarrow> (to_lower k = ''link'' \<longrightarrow> own_link (concat (map snd (filter (\<lambda>(k, vv). to_lower k = ''link'') up))) v)"

lemma own_link_mono: "own_link us v \<Longrightarrow> set us \<subseteq> set us2 \<Longrightarrow> own_link us2 v"
  by (auto simp: own_link_def)

lemma copy_one_link:
  assumes "all_fields (link_ok up) h" "kv \<in> set up"
  shows "all_fields (link_ok up) (copy_one h kv)"
proof -
  obtain k vv where kv: "kv = (k, vv)" by (cases kv)
  let ?us = "concat (map snd (filter (\<lambda>(k, vv). to_lower k = ''link'') up))"
  let ?vs = "if to_lower k = ''link'' then stripXetLinks vv else vv"
  have sub: "set vv \<subseteq> set ?us" if "to_lower k = ''link''" using assms(2) that by (force simp: kv)
  have ok: "link_ok up (CanonicalHeaderKey k) v" if "v \<in> set ?vs" for v
    using that stripXetLinks_own [of v vv] own_link_mono [OF _ sub] by (auto simp: link_ok_def split: if_splits)
  have "all_fields (link_ok up) (foldl (\<lambda>h v. case sanitiseHeaderValue v of Some s \<Rightarrow> hdr_add k s h | None \<Rightarrow> h) h ?vs)"
    using assms(1)
    by (rule all_fields_foldl) (auto dest!: sanitise_Some intro!: all_fields_add ok split: option.splits)
  with assms(1) show ?thesis unfolding kv copy_one_def by (simp add: Let_def)
qed


lemma xet_link_missed:
  \<comment> \<open>the first occurrence of \<open>rel=\<close> counts, even inside the target\<close>
  "linkValueIsXet ''<https://hf.co/x>; rel=xet-auth'' \<and> \<not> linkValueIsXet ''<https://hf.co/x?rel=1>; rel=xet-auth''"
  by code_simp

subsection \<open>Content-Range\<close>

lemma format_int_digits: "0 \<le> v \<Longrightarrow> list_all is_digit (format_int v)"
  by (simp add: format_int_def format_nat_digits)

lemma digits_no: "list_all is_digit s \<Longrightarrow> \<not> is_digit c \<Longrightarrow> c \<notin> set s"
  by (auto simp: list_all_iff)

lemma digits_printable: "list_all is_digit s \<Longrightarrow> list_all printable s"
  by (auto simp: list_all_iff is_digit_printable)

text \<open>C32: the Content-Range header the proxy writes for a byte range is read back by its own parser as that range, for
  every non-empty range of 64-bit offsets and every known or unknown total.\<close>

theorem content_range_roundtrip:
  assumes "0 \<le> a" "a < b" "int64 b" "t = -1 \<or> 0 \<le> t \<and> int64 t"
  shows "parseContentRangeResponse (formatContentRange a b t) = Some (a, b, t)"
proof -
  define A where "A = format_int a"
  define B where "B = format_int (b - 1)"
  define T where "T = (if 0 \<le> t then format_int t else ''*'')"
  have dA: "list_all is_digit A" and dB: "list_all is_digit B"
    using assms(1,2) by (simp_all add: A_def B_def format_int_digits)
  have pT: "list_all printable T" "CHR ''/'' \<notin> set T"
    using digits_printable [OF format_int_digits [of t]] digits_no [OF format_int_digits [of t]]
    by (auto simp: T_def printable_def is_digit_def)
  have no: "CHR ''/'' \<notin> set (A @ CHR ''-'' # B)" "CHR ''-'' \<notin> set A"
    using digits_no [OF dA] digits_no [OF dB] by (auto simp: is_digit_def)
  have pR: "list_all printable (A @ CHR ''-'' # B)"
    using digits_printable [OF dA] digits_printable [OF dB] by (simp add: printable_def)
  have "wrap64 (b - 1) = b - 1" using assms(1-3) by (simp add: int64_def wrap64_id)
  then have eq: "formatContentRange a b t = ''bytes '' @ (A @ CHR ''-'' # B) @ CHR ''/'' # T"
    by (simp add: formatContentRange_def A_def B_def T_def Let_def)
  define R where "R = A @ CHR ''-'' # B"
  have ne: "T \<noteq> []" "R \<noteq> []" by (simp_all add: T_def R_def format_int_def)
  have "trim_space (''bytes '' @ R @ CHR ''/'' # T) = ''bytes '' @ R @ CHR ''/'' # T"
    using ne(1) pT(1) by (intro trim_space_printable) (simp_all add: printable_def list_all_iff)
  moreover have "has_prefix (to_lower (''bytes '' @ R @ CHR ''/'' # T)) ''bytes ''"
    by (simp add: to_lower_def has_prefix_iff lower_char_def)
  moreover have "split_on (CHR ''/'') (R @ CHR ''/'' # T) = [R, T]"
    using no(1) pT(2) by (simp add: R_def [symmetric] split_on_append split_on_id)
  moreover have "trim_space R = R" "trim_space T = T"
    using ne pR pT(1) by (simp_all add: trim_space_printable list_all_iff R_def [symmetric])
  moreover have "index_byte R (CHR ''-'') = Some (length A)"
    using no(2) by (simp add: R_def index_byte_append)
  moreover have "parse_int A = Some a" "parse_int B = Some (b - 1)" "0 \<le> t \<Longrightarrow> parse_int T = Some t"
    using assms by (auto simp: A_def B_def T_def int64_def intro!: parse_format_int)
  moreover have "take (length A) R = A" "drop (Suc (length A)) R = B" by (simp_all add: R_def)
  moreover have "0 \<le> t \<Longrightarrow> T \<noteq> ''*''"
    using format_int_digits [of t] by (auto simp: T_def is_digit_def)
  moreover have "wrap64 b = b" using assms(3) by (simp add: wrap64_id)
  ultimately show ?thesis
    using assms(1,2,4) unfolding eq R_def [symmetric]
    by (cases "0 \<le> t") (auto simp: parseContentRangeResponse_def Let_def T_def)
qed

theorem content_range_roundtrip_witness:
  "parseContentRangeResponse (formatContentRange 0 5 10) = Some (0, 5, 10)"
  by (rule content_range_roundtrip) (simp_all add: int64_def)

end
