(* ===== verification/Conn_Loop.thy ===== *)
theory Conn_Loop
  imports Http_Parser Host_Allow
begin

text \<open>
  The connection side of \<open>internal/coreserver/server.go\<close>: the per-address connection cap of the accept loop, the
  responses the server writes itself, and the loop of \<open>serveConn\<close> that reads requests off one connection and
  hands each to the gate, the warm path and the fallback. The gate, the warm path and the fallback are fields of
  \<open>Server\<close>, functions over a state \<open>'s\<close> of their own. The input of a connection is the string of all bytes the
  peer sends until it closes or a deadline passes.
\<close>

subsection \<open>Connections per address\<close>

type_synonym slots = "int list \<rightharpoonup> int"

definition slot_addr :: "int list option \<Rightarrow> int list option" where
  \<comment> \<open>the counted address of a peer: \<open>None\<close> for a peer that is no TCP address; \<open>AddrFromSlice\<close>, then \<open>Unmap\<close>\<close>
  "slot_addr remote =
     (case remote of
        None \<Rightarrow> None
      | Some ip \<Rightarrow>
          if length ip = 4 then Some ip
          else if length ip = 16 then (case To4 ip of Some f \<Rightarrow> Some f | None \<Rightarrow> Some ip)
          else None)"

definition acquirePerIPSlot :: "int \<Rightarrow> int list option \<Rightarrow> slots \<Rightarrow> int list option option \<times> slots" where
  \<comment> \<open>\<open>None\<close>: refused; \<open>Some a\<close>: admitted, with the address to release, if one is counted\<close>
  "acquirePerIPSlot maxPerIP remote m =
     (if maxPerIP \<le> 0 then (Some None, m)
      else case slot_addr remote of
        None \<Rightarrow> (Some None, m)
      | Some a \<Rightarrow>
          let n = (case m a of None \<Rightarrow> 0 | Some n \<Rightarrow> n)
          in if n \<ge> maxPerIP then (None, m) else (Some (Some a), m(a \<mapsto> n + 1)))"

definition releasePerIPSlot :: "int list option \<Rightarrow> slots \<Rightarrow> slots" where
  "releasePerIPSlot slot m =
     (case slot of
        None \<Rightarrow> m
      | Some a \<Rightarrow>
          let n = (case m a of None \<Rightarrow> 0 | Some n \<Rightarrow> n) - 1
          in if n \<le> 0 then m(a := None) else m(a \<mapsto> n))"

record accept_state =
  connsPerIP :: slots
  serving :: "int list option list"      \<comment> \<open>one entry per connection being served, with its slot\<close>
  dropped :: nat

definition accept_conn :: "int \<Rightarrow> int list option \<Rightarrow> accept_state \<Rightarrow> accept_state" where
  \<comment> \<open>one turn of \<open>acceptLoop\<close>\<close>
  "accept_conn maxPerIP remote A =
     (case acquirePerIPSlot maxPerIP remote (connsPerIP A) of
        (None, m) \<Rightarrow> A\<lparr>connsPerIP := m, dropped := dropped A + 1\<rparr>
      | (Some slot, m) \<Rightarrow> A\<lparr>connsPerIP := m, serving := slot # serving A\<rparr>)"

definition finish_conn :: "nat \<Rightarrow> accept_state \<Rightarrow> accept_state" where
  \<comment> \<open>the deferred release when connection \<open>i\<close> ends\<close>
  "finish_conn i A =
     A\<lparr>connsPerIP := releasePerIPSlot (serving A ! i) (connsPerIP A),
       serving := take i (serving A) @ drop (Suc i) (serving A)\<rparr>"

inductive accept_step :: "int \<Rightarrow> accept_state \<Rightarrow> accept_state \<Rightarrow> bool" for mx where
  as_accept: "accept_step mx A (accept_conn mx remote A)"
| as_finish: "i < length (serving A) \<Longrightarrow> accept_step mx A (finish_conn i A)"

inductive_cases accept_stepE: "accept_step mx A B"

definition accept_start :: accept_state where
  "accept_start = \<lparr>connsPerIP = Map.empty, serving = [], dropped = 0\<rparr>"

definition live :: "int list \<Rightarrow> accept_state \<Rightarrow> int" where
  "live a A = int (count_list (serving A) (Some a))"

definition slots_inv :: "int \<Rightarrow> accept_state \<Rightarrow> bool" where
  "slots_inv mx A \<longleftrightarrow>
     (\<forall>a. live a A \<le> mx \<and> connsPerIP A a = (if live a A = 0 then None else Some (live a A)))"

lemma slots_inv_count: "slots_inv mx A \<Longrightarrow> (case connsPerIP A a of None \<Rightarrow> 0 | Some n \<Rightarrow> n) = live a A"
  by (simp add: slots_inv_def)

lemma slots_inv_accept:
  assumes "0 < mx" "slots_inv mx A"
  shows "slots_inv mx (accept_conn mx remote A)"
proof (cases "slot_addr remote")
  case None
  with assms show ?thesis by (auto simp: accept_conn_def acquirePerIPSlot_def slots_inv_def live_def)
next
  case (Some a)
  with assms slots_inv_count [OF assms(2), of a] show ?thesis
    by (auto simp: accept_conn_def acquirePerIPSlot_def slots_inv_def live_def Let_def)
qed

lemma count_list_remove_nth:
  assumes "i < length xs"
  shows "int (count_list (take i xs @ drop (Suc i) xs) y) = int (count_list xs y) - (if xs ! i = y then 1 else 0)"
proof -
  have "count_list xs y = count_list (take i xs @ xs ! i # drop (Suc i) xs) y"
    by (simp add: id_take_nth_drop [OF assms, symmetric])
  then show ?thesis by (simp add: count_list_append)
qed

lemma slots_inv_finish:
  assumes "slots_inv mx A" "i < length (serving A)"
  shows "slots_inv mx (finish_conn i A)"
proof -
  let ?s = "serving A ! i"
  have l: "live a (finish_conn i A) = live a A - (if ?s = Some a then 1 else 0)" for a
    using count_list_remove_nth [OF assms(2)] by (simp add: finish_conn_def live_def)
  have le: "live x A \<le> mx" and eq: "connsPerIP A x = (if live x A = 0 then None else Some (live x A))" for x
    using assms(1) by (simp_all add: slots_inv_def)
  have nn: "0 \<le> live x B" for x B by (simp add: live_def)
  have 1: "live x (finish_conn i A) \<le> mx" for x using l [of x] le [of x] by (simp split: if_splits)
  have 2: "connsPerIP (finish_conn i A) x = (if live x (finish_conn i A) = 0 then None else Some (live x (finish_conn i A)))" for x
  proof (cases "?s = Some x")
    case True
    with l [of x] nn [of x "finish_conn i A"] have "0 < live x A" by simp
    with True l [of x] eq [of x] show ?thesis
      by (auto simp: finish_conn_def releasePerIPSlot_def Let_def)
  next
    case False
    then have "connsPerIP (finish_conn i A) x = connsPerIP A x"
      by (cases ?s) (auto simp: finish_conn_def releasePerIPSlot_def Let_def)
    with False l [of x] eq [of x] show ?thesis by simp
  qed
  from 1 2 show ?thesis unfolding slots_inv_def by blast
qed

text \<open>C21: the per-address cap. With a cap of \<open>mx > 0\<close>, after any sequence of accepts and connection ends the table
  holds for every address exactly the number of its connections being served and no entry for an address without
  one (it does not leak), no address ever has more than \<open>mx\<close>, and the next connection of a counted
  address is dropped exactly when it has \<open>mx\<close>.\<close>

theorem per_ip_cap:
  assumes "0 < mx" "(accept_step mx)\<^sup>*\<^sup>* accept_start A"
  shows "live a A \<le> mx \<and> connsPerIP A a = (if live a A = 0 then None else Some (live a A)) \<and>
    (slot_addr r = Some a \<longrightarrow> (fst (acquirePerIPSlot mx r (connsPerIP A)) = None \<longleftrightarrow> live a A = mx))"
proof -
  from assms(2) have inv: "slots_inv mx A"
  proof (induction rule: rtranclp_induct)
    case base
    show ?case using assms(1) by (simp add: slots_inv_def accept_start_def live_def)
  next
    case (step B C)
    from step.hyps(2) step.IH show ?case
      by (cases rule: accept_step.cases) (simp_all add: slots_inv_accept [OF assms(1)] slots_inv_finish)
  qed
  then have "live a A \<le> mx" "connsPerIP A a = (if live a A = 0 then None else Some (live a A))"
    by (simp_all add: slots_inv_def)
  moreover have "slot_addr r = Some a \<Longrightarrow> (fst (acquirePerIPSlot mx r (connsPerIP A)) = None \<longleftrightarrow> live a A = mx)"
    using assms(1) slots_inv_count [OF inv, of a] calculation(1) by (auto simp: acquirePerIPSlot_def Let_def)
  ultimately show ?thesis by blast
qed

lemma demo_accept:
  "(accept_step 1)\<^sup>*\<^sup>* accept_start (accept_conn 1 (Some [1,2,3,4]) accept_start)"
  using as_accept by blast

theorem per_ip_cap_witness:
  "fst (acquirePerIPSlot 1 (Some [1,2,3,4]) (connsPerIP (accept_conn 1 (Some [1,2,3,4]) accept_start))) = None"
proof -
  have "live [1,2,3,4] (accept_conn 1 (Some [1,2,3,4]) accept_start) = 1" by code_simp
  moreover have "slot_addr (Some [1,2,3,4]) = Some [1,2,3,4]" by code_simp
  ultimately show ?thesis
    using per_ip_cap [OF _ demo_accept, of "[1,2,3,4]" "Some [1,2,3,4]"] by simp
qed

subsection \<open>Responses the server writes itself\<close>

definition writeStatus :: "int \<Rightarrow> string \<Rightarrow> string" where
  "writeStatus code reason =
     ''HTTP/1.1 '' @ format_int code @ '' '' @ reason @ CRLF @ ''Content-Length: 0'' @ CRLF @ ''Connection: close'' @ CRLF @ CRLF"

definition writeParserErrorResponse :: "parse_err \<Rightarrow> string" where
  "writeParserErrorResponse e =
     (case e of
        HeaderTooLarge \<Rightarrow> writeStatus 431 ''Request Header Fields Too Large''
      | SmugglingSuspect \<Rightarrow> writeStatus 400 ''Bad Request''
      | BadRequest \<Rightarrow> writeStatus 400 ''Bad Request''
      | _ \<Rightarrow> [])"

definition statusText :: "int \<Rightarrow> string" where
  "statusText code =
     (if code = 400 then ''Bad Request'' else if code = 401 then ''Unauthorized'' else if code = 403 then ''Forbidden''
      else if code = 404 then ''Not Found'' else if code = 500 then ''Internal Server Error''
      else if code = 503 then ''Service Unavailable'' else [])"

definition renderAuthRejectWithKeepAlive :: "int \<Rightarrow> string \<Rightarrow> bool \<Rightarrow> string" where
  "renderAuthRejectWithKeepAlive status reason keepAlive =
     ''HTTP/1.1 '' @ format_int status @ '' '' @ statusText status @ CRLF @
     ''WWW-Authenticate: Bearer error='' @ CHR 0x22 # ''invalid_token'' @ CHR 0x22 # CRLF @
     ''Content-Type: text/plain; charset=utf-8'' @ CRLF @
     ''Content-Length: '' @ format_nat (length reason) @ CRLF @
     ''Connection: '' @ (if keepAlive then ''keep-alive'' else ''close'') @ CRLF @ CRLF @ reason"

definition writeAuthReject :: "int \<Rightarrow> string \<Rightarrow> string" where
  \<comment> \<open>as \<open>serveConn\<close> calls it: never keep-alive\<close>
  "writeAuthReject status reason = renderAuthRejectWithKeepAlive status reason False"

definition effectiveIdleTimeout :: "int \<Rightarrow> int" where
  \<comment> \<open>nanoseconds\<close>
  "effectiveIdleTimeout t = (if t > 0 then t else 60000000000)"

definition effectiveReadHeaderTimeout :: "int \<Rightarrow> int" where
  "effectiveReadHeaderTimeout t = (if t > 0 then t else 5000000000)"

subsection \<open>The connection loop\<close>

record 's server =
  AuthGate :: "(string \<Rightarrow> string \<Rightarrow> 's \<Rightarrow> (int \<times> string) \<times> 's) option"
  RequireAuth :: bool
  warmPath :: "Request \<Rightarrow> 's \<Rightarrow> string option \<times> 's"
    \<comment> \<open>\<open>tryServeWarm\<close>: the bytes it wrote, if it served\<close>
  Fallback :: "(Request \<Rightarrow> string \<Rightarrow> 's \<Rightarrow> (string \<times> nat \<times> bool) \<times> 's) option"
    \<comment> \<open>bytes written, bytes it took off the connection, success\<close>

datatype action =
    Malformed parse_err               \<comment> \<open>answered (or not) and closed\<close>
  | Rejected Request int              \<comment> \<open>by the gate\<close>
  | WarmHit Request
  | FellBack Request
  | Unavailable Request               \<comment> \<open>no fallback\<close>

definition admit :: "'s server \<Rightarrow> Request \<Rightarrow> 's \<Rightarrow> (int \<times> string) option \<times> 's" where
  "admit S req s =
     (case AuthGate S of
        Some g \<Rightarrow> (case g (Auth req) (Path req) s of
                    ((status, reason), s1) \<Rightarrow> (if status \<noteq> 0 then Some (status, reason) else None, s1))
      | None \<Rightarrow> (if RequireAuth S
                 then Some (503, ''data plane requires authentication but no gate is configured'') else None, s))"

lemma readRequest_shrinks: "readRequest inp = Inr (req, rest) \<Longrightarrow> length rest < length inp"
  by (auto simp: readRequest_iff request_block_def)

function serveConn :: "'s server \<Rightarrow> string \<Rightarrow> 's \<Rightarrow> (action list \<times> string) \<times> 's" where
  "serveConn S inp s =
     (if inp = [] then (([], []), s)
      else case readRequest inp of
        Inl e \<Rightarrow> (([Malformed e], writeParserErrorResponse e), s)
      | Inr (req, rest) \<Rightarrow>
          (case admit S req s of
             (Some (status, reason), s1) \<Rightarrow> (([Rejected req status], writeAuthReject status reason), s1)
           | (None, s1) \<Rightarrow>
               (case warmPath S req s1 of
                  (Some out, s2) \<Rightarrow>
                    if \<not> KeepAlive req then (([WarmHit req], out), s2)
                    else (case serveConn S rest s2 of ((as, o2), s3) \<Rightarrow> ((WarmHit req # as, out @ o2), s3))
                | (None, s2) \<Rightarrow>
                    (case Fallback S of
                       None \<Rightarrow> (([Unavailable req], writeStatus 503 ''Service Unavailable''), s2)
                     | Some fb \<Rightarrow>
                         (case fb req rest s2 of ((out, n, okay), s3) \<Rightarrow>
                            if \<not> okay \<or> \<not> KeepAlive req then (([FellBack req], out), s3)
                            else (case serveConn S (drop n rest) s3 of
                                    ((as, o2), s4) \<Rightarrow> ((FellBack req # as, out @ o2), s4)))))))"
  by pat_completeness auto
termination
  by (relation "measure (\<lambda>(S, inp, s). length inp)") (auto dest: readRequest_shrinks)

declare serveConn.simps [simp del]

fun handled :: "action \<Rightarrow> Request option" where
  \<comment> \<open>the request an action served from the cache or passed on\<close>
  "handled (WarmHit r) = Some r"
| "handled (FellBack r) = Some r"
| "handled _ = None"

definition authorised :: "'s server \<Rightarrow> Request \<Rightarrow> bool" where
  \<comment> \<open>the gate admitted the request's own credential for its own path; without a gate, none is required\<close>
  "authorised S r \<longleftrightarrow>
     (case AuthGate S of
        Some g \<Rightarrow> \<exists>s. fst (fst (g (Auth r) (Path r) s)) = 0
      | None \<Rightarrow> \<not> RequireAuth S)"

lemma admit_authorised: "admit S req s = (None, s1) \<Longrightarrow> authorised S req"
  by (cases "AuthGate S")
    (auto simp: admit_def authorised_def split: prod.splits if_splits intro!: exI [of _ s])

fun good_trace :: "'s server \<Rightarrow> action list \<Rightarrow> bool" where
  \<comment> \<open>served requests are authorised and, to be followed by another, keep-alive; anything else ends the connection\<close>
  "good_trace S [] \<longleftrightarrow> True"
| "good_trace S (a # as) \<longleftrightarrow>
     (case handled a of
        Some r \<Rightarrow> authorised S r \<and> (as \<noteq> [] \<longrightarrow> KeepAlive r) \<and> good_trace S as
      | None \<Rightarrow> as = [])"

lemma serveConn_cases:
  \<comment> \<open>one turn of the loop\<close>
  obtains (eof) "inp = []" "serveConn S inp s = (([], []), s)"
  | (malformed) e where "readRequest inp = Inl e" "serveConn S inp s = (([Malformed e], writeParserErrorResponse e), s)"
  | (rejected) req rest status reason s1 where "readRequest inp = Inr (req, rest)" "admit S req s = (Some (status, reason), s1)"
      "serveConn S inp s = (([Rejected req status], writeAuthReject status reason), s1)"
  | (warm) req rest s1 out s2 where "readRequest inp = Inr (req, rest)" "admit S req s = (None, s1)"
      "warmPath S req s1 = (Some out, s2)"
      "serveConn S inp s = (if \<not> KeepAlive req then (([WarmHit req], out), s2)
         else (case serveConn S rest s2 of ((as, o2), s3) \<Rightarrow> ((WarmHit req # as, out @ o2), s3)))"
  | (unavailable) req rest s1 s2 where "readRequest inp = Inr (req, rest)" "admit S req s = (None, s1)"
      "warmPath S req s1 = (None, s2)" "Fallback S = None"
      "serveConn S inp s = (([Unavailable req], writeStatus 503 ''Service Unavailable''), s2)"
  | (fallback) req rest s1 s2 fb out n okay s3 where "readRequest inp = Inr (req, rest)" "admit S req s = (None, s1)"
      "warmPath S req s1 = (None, s2)" "Fallback S = Some fb" "fb req rest s2 = ((out, n, okay), s3)"
      "serveConn S inp s = (if \<not> okay \<or> \<not> KeepAlive req then (([FellBack req], out), s3)
         else (case serveConn S (drop n rest) s3 of ((as, o2), s4) \<Rightarrow> ((FellBack req # as, out @ o2), s4)))"
proof (cases "inp = []")
  case True
  then show ?thesis by (intro eof) (simp_all add: serveConn.simps)
next
  case ne: False
  show ?thesis
  proof (cases "readRequest inp")
    case (Inl e)
    with ne show ?thesis by (intro malformed) (simp_all add: serveConn.simps [of S inp])
  next
    case (Inr rr)
    obtain req rest where r: "readRequest inp = Inr (req, rest)" using Inr by (cases rr) auto
    obtain verdict s1 where a: "admit S req s = (verdict, s1)" by fastforce
    obtain w s2 where w: "warmPath S req s1 = (w, s2)" by fastforce
    show ?thesis
    proof (cases verdict)
      case (Some v)
      with a obtain status reason where v: "admit S req s = (Some (status, reason), s1)" by (cases v) auto
      with ne r show ?thesis by (intro rejected [OF r v]) (simp add: serveConn.simps [of S inp])
    next
      case None
      with a have a': "admit S req s = (None, s1)" by simp
      show ?thesis
      proof (cases w)
        case (Some out)
        with w have w': "warmPath S req s1 = (Some out, s2)" by simp
        show ?thesis by (rule warm [OF r a' w']) (simp add: serveConn.simps [of S inp] ne r a' w')
      next
        case None
        with w have w': "warmPath S req s1 = (None, s2)" by simp
        show ?thesis
        proof (cases "Fallback S")
          case None
          show ?thesis by (rule unavailable [OF r a' w' None]) (simp add: serveConn.simps [of S inp] ne r a' w' None)
        next
          case (Some fb)
          obtain out n okay s3 where f: "fb req rest s2 = ((out, n, okay), s3)" by (metis prod.exhaust)
          show ?thesis by (rule fallback [OF r a' w' Some f]) (simp add: serveConn.simps [of S inp] ne r a' w' Some f)
        qed
      qed
    qed
  qed
qed


subsection \<open>Framing\<close>

lemma readRequest_prefix: "readRequest (b @ x) = Inr (req, x) \<Longrightarrow> readRequest (b @ y) = Inr (req, y)"
  by (auto simp: readRequest_iff)

definition message :: "string \<Rightarrow> Request \<Rightarrow> string \<Rightarrow> bool" where
  \<comment> \<open>a header block that parses as \<open>req\<close> and a body of the announced length\<close>
  "message b req bd \<longleftrightarrow> readRequest b = Inr (req, []) \<and> int (length bd) = ContentLen req"

definition takes_bodies :: "'s server \<Rightarrow> bool" where
  \<comment> \<open>the fallback reads exactly the body, and the warm path only serves requests that have none\<close>
  "takes_bodies S \<longleftrightarrow>
     (\<forall>fb. Fallback S = Some fb \<longrightarrow> (\<forall>req rest s. \<exists>out s'. fb req rest s = ((out, nat (ContentLen req), True), s'))) \<and>
     (\<forall>req s out s'. warmPath S req s = (Some out, s') \<longrightarrow> ContentLen req = 0)"

fun action_request :: "action \<Rightarrow> Request option" where
  "action_request (WarmHit r) = Some r"
| "action_request (FellBack r) = Some r"
| "action_request (Rejected r _) = Some r"
| "action_request (Unavailable r) = Some r"
| "action_request (Malformed _) = None"


definition demo_server :: "unit server" where
  "demo_server = \<lparr>AuthGate = None, RequireAuth = False, warmPath = (\<lambda>req s. (None, s)),
     Fallback = Some (\<lambda>req rest s. ((''ok'', nat (ContentLen req), True), s))\<rparr>"


lemma warm_body_is_next_request:
  \<comment> \<open>the warm path does not look at the announced length: the body of a request it answers is read as further requests\<close>
  assumes "readRequest b = Inr (req, [])" "KeepAlive req" "admit S req s = (None, s1)" "warmPath S req s1 = (Some out, s2)"
  shows "fst (fst (serveConn S (b @ bd) s)) = WarmHit req # fst (fst (serveConn S bd s2))"
proof -
  have r: "readRequest (b @ bd) = Inr (req, bd)" using readRequest_prefix [of b "[]" req bd] assms(1) by simp
  have "b @ bd \<noteq> []" using readRequest_shrinks [OF r] by force
  with r assms(2-) show ?thesis by (simp add: serveConn.simps [of S "b @ bd"] split: prod.splits)
qed

end
