(* ===== verification/Warm_Path.thy ===== *)
theory Warm_Path
  imports Proxy_Handler
begin

text \<open>
  The warm-hit fast path of \<open>internal/coreserver/server.go\<close>: the response head it writes, once through the buffered
  writer of the connection and once into the fixed 512-byte buffer of \<open>header_buf.go\<close>, and
  \<open>tryServeWarm\<close> itself. A \<open>bufio.Writer\<close> is the string written so far; a \<open>headerBuf\<close> is its filled part.
  The body leaves through \<open>sendfile\<close> or a copy loop over \<open>fileSection\<close>; the client is taken to read all of it.
\<close>

subsection \<open>The head through the buffered writer\<close>

fun writeUint :: "string \<Rightarrow> nat \<Rightarrow> string" where
  "writeUint bw v = (if v \<ge> 10 then writeUint bw (v div 10) else bw) @ [digit_char (v mod 10)]"

declare writeUint.simps [simp del]

definition writeInt :: "string \<Rightarrow> int \<Rightarrow> string" where
  \<comment> \<open>\<open>uint64(-v)\<close> is \<open>-v\<close> for every negative 64-bit number, the least one included\<close>
  "writeInt bw v = (if v < 0 then writeUint (bw @ ''-'') (nat (- v)) else writeUint bw (nat v))"

definition writeContentMeta :: "string \<Rightarrow> Meta \<Rightarrow> string" where
  "writeContentMeta bw m =
     (let b1 = (if ContentType m \<noteq> [] then bw @ ''Content-Type: '' @ ContentType m @ CRLF else bw)
      in if ETag m \<noteq> [] then b1 @ ''ETag: '' @ ETag m @ CRLF else b1)"

definition writeContentLength :: "string \<Rightarrow> int \<Rightarrow> string" where
  "writeContentLength bw n = writeInt (bw @ ''Content-Length: '') n @ CRLF"

definition writeConnection :: "string \<Rightarrow> bool \<Rightarrow> string" where
  "writeConnection bw keepAlive =
     bw @ (if keepAlive then ''Connection: keep-alive'' @ CRLF else ''Connection: close'' @ CRLF)"

definition writeWarmHead200 :: "string \<Rightarrow> int \<Rightarrow> Meta \<Rightarrow> bool \<Rightarrow> string" where
  "writeWarmHead200 bw n m keepAlive =
     writeConnection (writeContentLength (writeContentMeta (bw @ ''HTTP/1.1 200 OK'' @ CRLF) m) n) keepAlive @ CRLF"

definition writeWarmHead206 :: "string \<Rightarrow> int \<Rightarrow> int \<Rightarrow> int \<Rightarrow> int \<Rightarrow> Meta \<Rightarrow> bool \<Rightarrow> string" where
  "writeWarmHead206 bw start end tot n m keepAlive =
     (let b1 = writeContentMeta (bw @ ''HTTP/1.1 206 Partial Content'' @ CRLF) m;
          b2 = writeInt (b1 @ ''Content-Range: bytes '') start;
          b3 = writeInt (b2 @ ''-'') (wrap64 (end - 1)) @ ''/'';
          b4 = (if tot \<ge> 0 then writeInt b3 tot else b3 @ ''*'') @ CRLF
      in writeConnection (writeContentLength b4 n) keepAlive @ CRLF)"

subsection \<open>The head in the fixed buffer\<close>

definition headerBufSize :: nat where "headerBufSize = 512"

definition hb_writeString :: "string \<Rightarrow> string \<Rightarrow> string" where
  \<comment> \<open>\<open>copy\<close> stops at the end of the array\<close>
  "hb_writeString h s = h @ take (headerBufSize - length h) s"

definition hb_writeByte :: "string \<Rightarrow> char \<Rightarrow> string" where
  "hb_writeByte h c = (if length h < headerBufSize then h @ [c] else h)"

fun hb_writeUint :: "string \<Rightarrow> nat \<Rightarrow> string" where
  "hb_writeUint h v = hb_writeByte (if v \<ge> 10 then hb_writeUint h (v div 10) else h) (digit_char (v mod 10))"

declare hb_writeUint.simps [simp del]

definition hb_writeInt :: "string \<Rightarrow> int \<Rightarrow> string" where
  "hb_writeInt h v = (if v < 0 then hb_writeUint (hb_writeByte h (CHR ''-'')) (nat (- v)) else hb_writeUint h (nat v))"

definition writeContentMetaBuf :: "string \<Rightarrow> Meta \<Rightarrow> string" where
  "writeContentMetaBuf h m =
     (let h1 = (if ContentType m \<noteq> []
                then hb_writeString (hb_writeString (hb_writeString h ''Content-Type: '') (ContentType m)) CRLF else h)
      in if ETag m \<noteq> [] then hb_writeString (hb_writeString (hb_writeString h1 ''ETag: '') (ETag m)) CRLF else h1)"

definition writeContentLengthBuf :: "string \<Rightarrow> int \<Rightarrow> string" where
  "writeContentLengthBuf h n = hb_writeString (hb_writeInt (hb_writeString h ''Content-Length: '') n) CRLF"

definition writeConnectionBuf :: "string \<Rightarrow> bool \<Rightarrow> string" where
  "writeConnectionBuf h keepAlive =
     hb_writeString h (if keepAlive then ''Connection: keep-alive'' @ CRLF else ''Connection: close'' @ CRLF)"

definition writeWarmHead200Buf :: "string \<Rightarrow> int \<Rightarrow> Meta \<Rightarrow> bool \<Rightarrow> string" where
  "writeWarmHead200Buf h n m keepAlive =
     hb_writeString (writeConnectionBuf (writeContentLengthBuf
       (writeContentMetaBuf (hb_writeString h (''HTTP/1.1 200 OK'' @ CRLF)) m) n) keepAlive) CRLF"

definition writeWarmHead206Buf :: "string \<Rightarrow> int \<Rightarrow> int \<Rightarrow> int \<Rightarrow> int \<Rightarrow> Meta \<Rightarrow> bool \<Rightarrow> string" where
  "writeWarmHead206Buf h start end tot n m keepAlive =
     (let h1 = writeContentMetaBuf (hb_writeString h (''HTTP/1.1 206 Partial Content'' @ CRLF)) m;
          h2 = hb_writeInt (hb_writeString h1 ''Content-Range: bytes '') start;
          h3 = hb_writeByte (hb_writeInt (hb_writeByte h2 (CHR ''-'')) (wrap64 (end - 1))) (CHR ''/'');
          h4 = hb_writeString (if tot \<ge> 0 then hb_writeInt h3 tot else hb_writeByte h3 (CHR ''*'')) CRLF
      in hb_writeString (writeConnectionBuf (writeContentLengthBuf h4 n) keepAlive) CRLF)"

subsection \<open>The fast path\<close>

definition warm_head :: "bool \<Rightarrow> Request \<Rightarrow> int \<Rightarrow> int \<Rightarrow> int \<Rightarrow> int \<Rightarrow> Meta \<Rightarrow> string" where
  \<comment> \<open>\<open>fused\<close>: the connection has a raw descriptor and the file one, so the head goes into a \<open>headerBuf\<close>\<close>
  "warm_head fused req start end tot n m =
     (if fused
      then (if RangeHdr req = [] then writeWarmHead200Buf [] n m (KeepAlive req)
            else writeWarmHead206Buf [] start end tot n m (KeepAlive req))
      else (if RangeHdr req = [] then writeWarmHead200 [] n m (KeepAlive req)
            else writeWarmHead206 [] start end tot n m (KeepAlive req)))"

definition tryServeWarm :: "Config \<Rightarrow> env \<Rightarrow> bool \<Rightarrow> Request \<Rightarrow> ctx \<Rightarrow> string option \<times> ctx" where
  "tryServeWarm cfg E fused req c =
     (if Method req \<noteq> ''GET'' then (None, c)
      else let host = DefaultHost cfg in
      if \<not> ArtifactGET host host ''GET'' (Path req) then (None, c)
      else let keyQuery = (if IsContentAddressedHost host then [] else Query req)
      in case key_get cfg E ''GET'' host (Path req) keyQuery c of (keyHex, c1) \<Rightarrow>
         (case LoadMeta (eio E) keyHex (cstore c1) of
            (Inr (Some m), s1) \<Rightarrow>
              if Spans m = [] then (None, c1\<lparr>cstore := s1\<rparr>)
              else let tot = (case Total m of None \<Rightarrow> -1 | Some t \<Rightarrow> t)
                   in (case wanted (RangeHdr req) tot of
                         None \<Rightarrow> (None, c1\<lparr>cstore := s1\<rparr>)
                       | Some (a, b) \<Rightarrow>
                           if \<not> Covers (Spans m) a b then (None, c1\<lparr>cstore := s1\<rparr>)
                           else (case acquire_body (eio E) keyHex s1 of
                                   (Inl _, s2) \<Rightarrow> (None, c1\<lparr>cstore := s2\<rparr>)
                                 | (Inr bh, s2) \<Rightarrow>
                                     let n = wrap64 (b - a);
                                         f = inodes s2 (hino (handles s2 bh))
                                     in (Some (warm_head fused req a b tot n m @ section_bytes f a n),
                                         c1\<lparr>cstore := CloseHandle bh s2\<rparr>)))
          | (_, s1) \<Rightarrow> (None, c1\<lparr>cstore := s1\<rparr>)))"

subsection \<open>Lemmas\<close>

lemma writeUint_format: "writeUint bw v = bw @ format_nat v"
  by (induction bw v rule: writeUint.induct) (subst writeUint.simps, subst format_nat.simps, simp)

lemma writeInt_format: "writeInt bw v = bw @ format_int v"
  by (simp add: writeInt_def format_int_def writeUint_format)

definition trunc :: "string \<Rightarrow> string" where
  "trunc s = take headerBufSize s"

lemma hb_string [simp]: "hb_writeString (trunc x) s = trunc (x @ s)"
  by (cases "length x \<le> headerBufSize") (simp_all add: hb_writeString_def trunc_def min_def)

lemma hb_byte [simp]: "hb_writeByte (trunc x) c = trunc (x @ [c])"
  by (auto simp: hb_writeByte_def trunc_def not_less)

lemma hb_uint [simp]: "hb_writeUint (trunc x) v = trunc (writeUint x v)"
  by (induction x v rule: writeUint.induct) (subst hb_writeUint.simps, subst writeUint.simps, simp)

lemma hb_int [simp]: "hb_writeInt (trunc x) v = trunc (writeInt x v)"
  by (simp add: hb_writeInt_def writeInt_def)

lemma hb_meta [simp]: "writeContentMetaBuf (trunc x) m = trunc (writeContentMeta x m)"
  by (simp add: writeContentMetaBuf_def writeContentMeta_def Let_def)

lemma hb_length [simp]: "writeContentLengthBuf (trunc x) n = trunc (writeContentLength x n)"
  by (simp add: writeContentLengthBuf_def writeContentLength_def)

lemma hb_connection [simp]: "writeConnectionBuf (trunc x) k = trunc (writeConnection x k)"
  by (simp add: writeConnectionBuf_def writeConnection_def)

lemma hb_start: "trunc [] = []" by (simp add: trunc_def)

lemma writeContentMeta_append: "writeContentMeta bw m = bw @ writeContentMeta [] m"
  by (simp add: writeContentMeta_def Let_def)

lemma length_format_nat: "n < 10 ^ k \<Longrightarrow> 0 < k \<Longrightarrow> length (format_nat n) \<le> k"
proof (induction k arbitrary: n)
  case (Suc k)
  show ?case
  proof (cases "n < 10")
    case True
    then show ?thesis by (simp add: format_nat.simps [of n])
  next
    case False
    with Suc.prems have "n div 10 < 10 ^ k" "0 < k" by (auto simp: less_mult_imp_div_less mult.commute intro: Nat.gr0I)
    from Suc.IH [OF this] False show ?thesis by (simp add: format_nat.simps [of n])
  qed
qed simp

lemma length_format_int: "int64 v \<Longrightarrow> length (format_int v) \<le> 20"
proof -
  assume "int64 v"
  then have "nat \<bar>v\<bar> < 10 ^ 19" by (auto simp: int64_def nat_less_iff)
  with length_format_nat [of "nat \<bar>v\<bar>" 19] show ?thesis by (auto simp: format_int_def)
qed

lemma warm_buffered:
  "writeWarmHead200Buf [] n m k = trunc (writeWarmHead200 [] n m k)"
  "writeWarmHead206Buf [] a b t n m k = trunc (writeWarmHead206 [] a b t n m k)"
  by (subst hb_start [symmetric],
    simp add: writeWarmHead200Buf_def writeWarmHead200_def writeWarmHead206Buf_def writeWarmHead206_def Let_def del: append.simps)+

lemma warm_text:
  "writeWarmHead200 [] n m k =
     ''HTTP/1.1 200 OK'' @ CRLF @ writeContentMeta [] m @ ''Content-Length: '' @ format_int n @ CRLF @
     ''Connection: '' @ (if k then ''keep-alive'' else ''close'') @ CRLF @ CRLF"
  "writeWarmHead206 [] a b t n m k =
     ''HTTP/1.1 206 Partial Content'' @ CRLF @ writeContentMeta [] m @
     ''Content-Range: '' @ formatContentRange a b t @ CRLF @ ''Content-Length: '' @ format_int n @ CRLF @
     ''Connection: '' @ (if k then ''keep-alive'' else ''close'') @ CRLF @ CRLF"
  by (simp_all add: writeWarmHead200_def writeWarmHead206_def writeConnection_def writeContentLength_def writeInt_format
    writeContentMeta_append [of "_ # _"] formatContentRange_def Let_def)

text \<open>The two head writers agree. The head rendered into the fixed buffer is the first 512 bytes of the head the
  buffered writer produces, for every entry and range; the latter is the status line, Content-Type and ETag if
  known, for a range the same Content-Range the handler sends, Content-Length and Connection, each on a CRLF line,
  and an empty line.\<close>

theorem warm_heads:
  "writeWarmHead200Buf [] n m k = take 512 (writeWarmHead200 [] n m k) \<and>
   writeWarmHead206Buf [] a b t n m k = take 512 (writeWarmHead206 [] a b t n m k) \<and>
   writeWarmHead200 [] n m k =
     ''HTTP/1.1 200 OK'' @ CRLF @ writeContentMeta [] m @ ''Content-Length: '' @ format_int n @ CRLF @
     ''Connection: '' @ (if k then ''keep-alive'' else ''close'') @ CRLF @ CRLF \<and>
   writeWarmHead206 [] a b t n m k =
     ''HTTP/1.1 206 Partial Content'' @ CRLF @ writeContentMeta [] m @
     ''Content-Range: '' @ formatContentRange a b t @ CRLF @ ''Content-Length: '' @ format_int n @ CRLF @
     ''Connection: '' @ (if k then ''keep-alive'' else ''close'') @ CRLF @ CRLF"
  unfolding warm_buffered warm_text trunc_def headerBufSize_def by blast

text \<open>The fixed buffer is large enough for ordinary entries: when Content-Type and ETag together have at most 300
  bytes and the numbers are 64-bit, neither head is cut.\<close>

theorem warm_head_fits:
  assumes "length (ContentType m) + length (ETag m) \<le> 300" "int64 a" "int64 t" "int64 n"
  shows "writeWarmHead200Buf [] n m k = writeWarmHead200 [] n m k \<and>
    writeWarmHead206Buf [] a b t n m k = writeWarmHead206 [] a b t n m k"
proof -
  have "length (writeContentMeta [] m) \<le> 324" using assms(1) by (simp add: writeContentMeta_def Let_def)
  moreover have "length (formatContentRange a b t) \<le> 68"
    using length_format_int [OF assms(2)] length_format_int [OF assms(3)] length_format_int [of "wrap64 (b - 1)"]
    by (simp add: formatContentRange_def Let_def)
  moreover note length_format_int [OF assms(4)]
  ultimately have "length (writeWarmHead200 [] n m k) \<le> 512" "length (writeWarmHead206 [] a b t n m k) \<le> 512"
    unfolding warm_text by simp_all
  then show ?thesis by (simp add: warm_buffered trunc_def headerBufSize_def)
qed

definition demo_meta :: Meta where
  "demo_meta = zero_meta\<lparr>ContentType := ''text/plain'', ETag := ''abc''\<rparr>"

theorem warm_head_fits_witness:
  "writeWarmHead206Buf [] 0 5 9 5 demo_meta True = writeWarmHead206 [] 0 5 9 5 demo_meta True"
  using warm_head_fits [of demo_meta 0 9 5] by (simp add: demo_meta_def int64_def)

lemma warm_head_cut:
  \<comment> \<open>a long Content-Type: the head ends in the middle of it, and the body follows\<close>
  "ContentType m = replicate 600 (CHR ''a'') \<Longrightarrow>
   writeWarmHead200Buf [] n m k = ''HTTP/1.1 200 OK'' @ CRLF @ ''Content-Type: '' @ replicate 481 (CHR ''a'')"
  by (simp add: warm_buffered warm_text writeContentMeta_def Let_def trunc_def headerBufSize_def)

subsection \<open>Agreement with the handler\<close>


definition demo_cfg :: Config where
  "demo_cfg = \<lparr>DefaultHost = ''h'', AllowHost = [], UpstreamScheme = ''https'', UpstreamHFToken = [], Offline = False,
     StrictOffline = False, InflightAcquireTimeout = 0, MaxKeyHexEntries = 0\<rparr>"

definition demo_env :: env where
  "demo_env = \<lparr>eio = no_faults, epick = 0, eshort = (\<lambda>_. None), egone = (\<lambda>_. False), eacquired = True, ewait = (\<lambda>s. s),
     enet = (\<lambda>_. None)\<rparr>"

definition demo_req :: Request where
  "demo_req = zero_request\<lparr>Method := ''GET'', Path := ''/m'', RangeHdr := ''bytes=1-2'', KeepAlive := True\<rparr>"

definition demo_entry :: Meta where
  "demo_entry = demo_meta\<lparr>Spans := [Span 0 3], Total := Some 3\<rparr>"

definition demo_ctx :: ctx where
  "demo_ctx = \<lparr>cstore = (demo_disk (demo_store 0))\<lparr>disk := [(''k'', \<lparr>metaf = Some (MetaOK demo_entry), body = Some 0\<rparr>)]\<rparr>,
     ckeys = [(''GET|h|/m||'', ''k'')], clog = []\<rparr>"

lemma demo_key: "key_get demo_cfg demo_env ''GET'' ''h'' ''/m'' [] demo_ctx = (''k'', demo_ctx)"
  by (simp add: key_get_def khc_Get_def demo_ctx_def lookup_key_def keyHexStackBufSize_def)

lemma demo_load: "fst (LoadMeta no_faults ''k'' (cstore demo_ctx)) = Inr (Some demo_entry)"
  by code_simp

lemma demo_warm: "map_option (drop 140) (fst (tryServeWarm demo_cfg demo_env True demo_req demo_ctx)) = Some ''bc''"
  by code_simp


subsection \<open>The copy loop\<close>

record fileSection =
  fsr :: string                       \<comment> \<open>the file behind \<open>r\<close>\<close>
  off :: int
  fend :: int

definition copyBufSize :: int where "copyBufSize = 65536"

definition fileSection_reset :: "string \<Rightarrow> int \<Rightarrow> int \<Rightarrow> fileSection" where
  "fileSection_reset f o1 n = \<lparr>fsr = f, off = o1, fend = wrap64 (o1 + n)\<rparr>"

definition ReadAt :: "string \<Rightarrow> int \<Rightarrow> int \<Rightarrow> string \<times> bool" where
  \<comment> \<open>\<open>pread\<close> of at most \<open>len\<close> bytes; \<open>True\<close> comes with an error, which a short read has\<close>
  "ReadAt f o1 len =
     (if o1 < 0 then ([], True)
      else let bs = take (nat len) (drop (nat o1) f) in (bs, int (length bs) < len))"

definition fileSection_Read :: "fileSection \<Rightarrow> int \<Rightarrow> (string \<times> bool) \<times> fileSection" where
  "fileSection_Read s len =
     (if off s \<ge> fend s then (([], True), s)
      else let mx = fend s - off s;
               len1 = (if len > mx then mx else len)
           in case ReadAt (fsr s) (off s) len1 of
                (bs, err) \<Rightarrow>
                  let off1 = off s + int (length bs)
                  in ((bs, err \<or> off1 \<ge> fend s), s\<lparr>off := off1\<rparr>))"

function copy_section :: "fileSection \<Rightarrow> string" where
  \<comment> \<open>\<open>io.CopyBuffer\<close> from the section\<close>
  "copy_section s =
     (case fileSection_Read s copyBufSize of
        ((bs, stop), s1) \<Rightarrow> if stop then bs else bs @ copy_section s1)"
  by pat_completeness auto
termination
  by (relation "measure (\<lambda>s. nat (fend s - off s))")
    (auto simp: fileSection_Read_def ReadAt_def copyBufSize_def Let_def split: if_splits)

declare copy_section.simps [simp del]

lemma copy_section_bytes:
  assumes "0 \<le> off s"
  shows "copy_section s = section_bytes (fsr s) (off s) (fend s - off s)"
  using assms
proof (induction "nat (fend s - off s)" arbitrary: s rule: less_induct)
  case (less s)
  show ?case
  proof (cases "off s \<ge> fend s")
    case True
    then show ?thesis by (subst copy_section.simps) (simp add: fileSection_Read_def section_bytes_def)
  next
    case more: False
    define len where "len = min copyBufSize (fend s - off s)"
    define bs where "bs = take (nat len) (drop (nat (off s)) (fsr s))"
    define s1 where "s1 = s\<lparr>off := off s + int (length bs)\<rparr>"
    have len: "0 < len" "len \<le> fend s - off s" using more by (auto simp: len_def copyBufSize_def)
    have rd: "fileSection_Read s copyBufSize = ((bs, int (length bs) < len \<or> off s1 \<ge> fend s), s1)"
      using more less(2) by (simp add: fileSection_Read_def ReadAt_def len_def bs_def s1_def Let_def min_def)
    show ?thesis
    proof (cases "int (length bs) < len \<or> off s1 \<ge> fend s")
      case True
      have "bs = take (nat (fend s - off s)) (drop (nat (off s)) (fsr s))"
      proof (cases "int (length bs) < len")
        case True
        then have "length (drop (nat (off s)) (fsr s)) < nat len" by (auto simp: bs_def)
        with len show ?thesis by (simp add: bs_def)
      next
        case False
        with True have "fend s - off s \<le> int (length bs)" by (simp add: s1_def)
        moreover have "length bs \<le> nat len" by (simp add: bs_def)
        ultimately have "len = fend s - off s" using len by linarith
        then show ?thesis by (simp add: bs_def)
      qed
      with True rd more less(2) show ?thesis by (subst copy_section.simps) (simp add: section_bytes_def)
    next
      case False
      have l: "int (length bs) = len" using False len(1) by (auto simp: bs_def)
      have "0 \<le> off s1" using less(2) by (simp add: s1_def)
      with less(1) [of s1] l len more
      have "copy_section s1 = section_bytes (fsr s1) (off s1) (fend s1 - off s1)" by (simp add: s1_def)
      moreover have "section_bytes (fsr s1) (off s1) (fend s1 - off s1) =
          take (nat (fend s - off s) - nat len) (drop (nat (off s) + nat len) (fsr s))"
        using False l len less(2) by (auto simp: section_bytes_def s1_def nat_add_distrib nat_diff_distrib)
      moreover have "take (nat (fend s - off s)) (drop (nat (off s)) (fsr s)) =
          bs @ take (nat (fend s - off s) - nat len) (drop (nat (off s) + nat len) (fsr s))"
        using len take_add [of "nat len" "nat (fend s - off s) - nat len" "drop (nat (off s)) (fsr s)"]
        by (simp add: bs_def add.commute)
      ultimately show ?thesis
        using False rd more less(2) by (subst copy_section.simps) (simp add: section_bytes_def)
    qed
  qed
qed

text \<open>C40: the copy loop that finishes a transfer without \<open>sendfile\<close> terminates, and for a window \<open>[a, a + n)\<close> of 64-bit
  offsets it yields exactly the bytes of the file in that window, in order, cut at the end of the file.\<close>

theorem copy_loop_window:
  assumes "0 \<le> a" "0 \<le> n" "int64 (a + n)"
  shows "copy_section (fileSection_reset f a n) = take (nat n) (drop (nat a) f)"
  using copy_section_bytes [of "fileSection_reset f a n"] assms
  by (simp add: fileSection_reset_def section_bytes_def)

theorem copy_loop_window_witness: "copy_section (fileSection_reset ''abcdef'' 2 3) = ''cde''"
  using copy_loop_window [of 2 3 "''abcdef''"] by (simp add: int64_def)

end
