(* ===== verification/Resp_Writer.thy ===== *)
theory Resp_Writer
  imports Http_Header Host_Allow
begin

text \<open>
  The response writer of \<open>internal/coreserver/bridge.go\<close>, through which the slow path answers on a core-server
  connection: framing by Content-Length or in chunks, the forced Connection header, and the sliding write
  deadline. The buffered writer below it is the string written so far; a peer that has gone away is not modelled
  here. Times are nanoseconds.
\<close>

subsection \<open>Writing a response\<close>

datatype rwMode = ModeUnknown | ModeContentLength | ModeChunked

record respWriter =
  bw :: string
  hdr :: header
  mode :: rwMode
  wroteHd :: bool
  keep :: bool
  status :: int
  cl :: int

definition acquireRespWriter :: "string \<Rightarrow> bool \<Rightarrow> respWriter" where
  "acquireRespWriter out keepAlive =
     \<lparr>bw = out, hdr = [], mode = ModeUnknown, wroteHd = False, keep = keepAlive, status = 200, cl = -1\<rparr>"

definition StatusText :: "int \<Rightarrow> string" where
  \<comment> \<open>\<open>http.StatusText\<close>\<close>
  "StatusText code =
     (case map_of
       [(100, ''Continue''), (101, ''Switching Protocols''), (102, ''Processing''), (103, ''Early Hints''), (200, ''OK''),
        (201, ''Created''), (202, ''Accepted''), (203, ''Non-Authoritative Information''), (204, ''No Content''),
        (205, ''Reset Content''), (206, ''Partial Content''), (207, ''Multi-Status''), (208, ''Already Reported''),
        (226, ''IM Used''), (300, ''Multiple Choices''), (301, ''Moved Permanently''), (302, ''Found''), (303, ''See Other''),
        (304, ''Not Modified''), (305, ''Use Proxy''), (307, ''Temporary Redirect''), (308, ''Permanent Redirect''),
        (400, ''Bad Request''), (401, ''Unauthorized''), (402, ''Payment Required''), (403, ''Forbidden''), (404, ''Not Found''),
        (405, ''Method Not Allowed''), (406, ''Not Acceptable''), (407, ''Proxy Authentication Required''),
        (408, ''Request Timeout''), (409, ''Conflict''), (410, ''Gone''), (411, ''Length Required''),
        (412, ''Precondition Failed''), (413, ''Request Entity Too Large''), (414, ''Request URI Too Long''),
        (415, ''Unsupported Media Type''), (416, ''Requested Range Not Satisfiable''), (417, ''Expectation Failed''),
        (418, ''I'' @ CHR 0x27 # ''m a teapot''), (421, ''Misdirected Request''), (422, ''Unprocessable Entity''), (423, ''Locked''),
        (424, ''Failed Dependency''), (425, ''Too Early''), (426, ''Upgrade Required''), (428, ''Precondition Required''),
        (429, ''Too Many Requests''), (431, ''Request Header Fields Too Large''), (451, ''Unavailable For Legal Reasons''),
        (500, ''Internal Server Error''), (501, ''Not Implemented''), (502, ''Bad Gateway''), (503, ''Service Unavailable''),
        (504, ''Gateway Timeout''), (505, ''HTTP Version Not Supported''), (506, ''Variant Also Negotiates''),
        (507, ''Insufficient Storage''), (508, ''Loop Detected''), (510, ''Not Extended''),
        (511, ''Network Authentication Required'')] code of None \<Rightarrow> [] | Some t \<Rightarrow> t)"

definition header_lines :: "header \<Rightarrow> string" where
  "header_lines h = concat (map (\<lambda>(k, vv). concat (map (\<lambda>v. k @ '': '' @ v @ CRLF) vv)) h)"

definition framing :: "respWriter \<Rightarrow> respWriter" where
  \<comment> \<open>the first half of \<open>WriteHeader\<close>: mode and Content-Length / Transfer-Encoding, then Connection\<close>
  "framing rw =
     (let c = hdr_get (hdr rw) ''Content-Length'';
          rw1 = (if c \<noteq> [] then (case parse_int c of
                     Some v \<Rightarrow> if v \<ge> 0 then rw\<lparr>cl := v, mode := ModeContentLength\<rparr> else rw
                   | None \<Rightarrow> rw) else rw);
          rw2 = (if mode rw1 = ModeUnknown
                 then rw1\<lparr>mode := ModeChunked, hdr := hdr_set ''Transfer-Encoding'' ''chunked'' (hdr_del ''Content-Length'' (hdr rw1))\<rparr>
                 else rw1)
      in rw2\<lparr>hdr := hdr_set ''Connection'' (if keep rw2 then ''keep-alive'' else ''close'') (hdr_del ''Connection'' (hdr rw2))\<rparr>)"

definition WriteHeader :: "int \<Rightarrow> respWriter \<Rightarrow> respWriter" where
  "WriteHeader code rw =
     (if wroteHd rw then rw
      else let rw1 = framing (rw\<lparr>wroteHd := True, status := code\<rparr>)
           in rw1\<lparr>bw := bw rw1 @ ''HTTP/1.1 '' @ format_int code @ '' '' @ StatusText code @ CRLF @ header_lines (hdr rw1) @ CRLF\<rparr>)"

fun format_hex :: "nat \<Rightarrow> string" where
  \<comment> \<open>\<open>strconv.FormatInt(n, 16)\<close>\<close>
  "format_hex n =
     (if n \<ge> 16 then format_hex (n div 16) else []) @
     [(if n mod 16 < 10 then char_of (48 + n mod 16) else char_of (87 + n mod 16))]"

declare format_hex.simps [simp del]

definition respWrite :: "string \<Rightarrow> respWriter \<Rightarrow> respWriter" where
  "respWrite p rw0 =
     (let rw = (if wroteHd rw0 then rw0 else WriteHeader 200 rw0)
      in case mode rw of
           ModeContentLength \<Rightarrow> rw\<lparr>bw := bw rw @ p\<rparr>
         | ModeChunked \<Rightarrow> if p = [] then rw else rw\<lparr>bw := bw rw @ format_hex (length p) @ CRLF @ p @ CRLF\<rparr>
         | ModeUnknown \<Rightarrow> rw)"

definition respReadFrom :: "string list \<Rightarrow> respWriter \<Rightarrow> respWriter" where
  \<comment> \<open>the source yields the given blocks\<close>
  "respReadFrom blocks rw0 =
     (let rw = (if wroteHd rw0 then rw0 else WriteHeader 200 rw0)
      in if mode rw = ModeContentLength then rw\<lparr>bw := bw rw @ concat blocks\<rparr>
         else foldl (\<lambda>r p. if p = [] then r else respWrite p r) rw blocks)"

definition finalize :: "respWriter \<Rightarrow> respWriter" where
  "finalize rw =
     (if \<not> wroteHd rw then WriteHeader 200 (rw\<lparr>hdr := hdr_set ''Content-Length'' ''0'' (hdr rw)\<rparr>)
      else if mode rw = ModeChunked then rw\<lparr>bw := bw rw @ ''0'' @ CRLF @ CRLF\<rparr>
      else rw)"

subsection \<open>The write deadline\<close>

definition extensionInterval :: "int \<Rightarrow> int" where
  "extensionInterval writeTimeout =
     (if writeTimeout \<le> 0 then 0
      else let iv = writeTimeout div 4;
               iv1 = (if iv > 60000000000 then 60000000000 else iv)
           in if iv1 < 50000000 then 50000000 else iv1)"

record deadline_state =
  writeTimeout :: int
  extEvery :: int
  lastExt :: "int option"             \<comment> \<open>\<open>None\<close>: the zero time\<close>
  deadline :: int                     \<comment> \<open>as last set on the connection\<close>

definition maybeExtend :: "int \<Rightarrow> deadline_state \<Rightarrow> deadline_state" where
  "maybeExtend now d =
     (if writeTimeout d \<le> 0 then d
      else case lastExt d of
        Some l \<Rightarrow> if now - l < extEvery d then d else d\<lparr>lastExt := Some now, deadline := now + writeTimeout d\<rparr>
      | None \<Rightarrow> d\<lparr>lastExt := Some now, deadline := now + writeTimeout d\<rparr>)"

subsection \<open>A reader of chunked bodies\<close>

function dechunk :: "string \<Rightarrow> (string \<times> string) option" where
  \<comment> \<open>RFC 9112, 7.1, without extensions and trailers: the body and what follows it\<close>
  "dechunk s =
     (case index_str s CRLF of
        None \<Rightarrow> None
      | Some i \<Rightarrow>
          if i = 0 \<or> \<not> list_all (\<lambda>c. hex_digit c \<noteq> None) (take i s) then None
          else let n = nat (hex_val (take i s)); rest = drop (i + 2) s
               in if n = 0 then (if has_prefix rest CRLF then Some ([], drop 2 rest) else None)
                  else if length rest < n + 2 \<or> take 2 (drop n rest) \<noteq> CRLF then None
                  else (case dechunk (drop (n + 2) rest) of
                          None \<Rightarrow> None
                        | Some (b, r) \<Rightarrow> Some (take n rest @ b, r)))"
  by pat_completeness auto
termination
  by (relation "measure length") auto

declare dechunk.simps [simp del]

lemma hex_val_snoc: "hex_val (s @ [c]) = hex_val s * 16 + (case hex_digit c of Some d \<Rightarrow> d | None \<Rightarrow> 0)"
  by (simp add: hex_val_def)

lemma hex_digit_char:
  "d < 10 \<Longrightarrow> hex_digit (char_of (48 + d)) = Some (int d)"
  "10 \<le> d \<Longrightarrow> d < 16 \<Longrightarrow> hex_digit (char_of (87 + d)) = Some (int d)"
  by (auto simp: hex_digit_def is_digit_def digit_val_def)

lemma format_hex_digits: "list_all (\<lambda>c. hex_digit c \<noteq> None) (format_hex n)"
  by (induction n rule: format_hex.induct) (subst format_hex.simps, simp add: hex_digit_char)

lemma hex_val_format: "hex_val (format_hex n) = int n"
proof (induction n rule: format_hex.induct)
  case (1 n)
  show ?case
  proof (cases "n \<ge> 16")
    case True
    have "int (n div 16) * 16 + int (n mod 16) = int n"
      by (metis div_mult_mod_eq of_nat_add of_nat_mult of_nat_numeral)
    with True 1 show ?thesis by (subst format_hex.simps) (simp add: hex_val_snoc hex_digit_char)
  next
    case False
    then show ?thesis by (subst format_hex.simps) (simp add: hex_val_def hex_digit_char)
  qed
qed

lemma format_hex_ne [simp]: "format_hex n \<noteq> []"
  by (subst format_hex.simps) simp

lemma format_hex_CR: "CR \<notin> set (format_hex n)"
proof
  assume "CR \<in> set (format_hex n)"
  with format_hex_digits [of n] have "hex_digit CR \<noteq> None" by (auto simp: list_all_iff)
  then show False by (simp add: hex_digit_def is_digit_def)
qed

lemma index_size_line: "CR \<notin> set h \<Longrightarrow> index_str (h @ CRLF @ r) CRLF = Some (length h)"
  by (induction h) auto

lemma dechunk_end: "dechunk (''0'' @ CRLF @ CRLF @ r) = Some ([], r)"
proof -
  have "index_str (''0'' @ CRLF @ CRLF @ r) CRLF = Some 1" using index_size_line [of "''0''" "CRLF @ r"] by simp
  moreover have "hex_val ''0'' = 0" "hex_digit (CHR ''0'') \<noteq> None" by code_simp+
  ultimately show ?thesis by (subst dechunk.simps) (simp add: has_prefix_def)
qed

lemma dechunk_chunk:
  assumes "p \<noteq> []"
  shows "dechunk (format_hex (length p) @ CRLF @ p @ CRLF @ r) = map_option (\<lambda>(b, x). (p @ b, x)) (dechunk r)"
proof -
  define h where "h = format_hex (length p)"
  define R where "R = p @ CRLF @ r"
  define S where "S = h @ CRLF @ R"
  have "index_str S CRLF = Some (length h)" unfolding S_def h_def by (rule index_size_line [OF format_hex_CR])
  moreover have "take (length h) S = h" "drop (length h + 2) S = R" by (simp_all add: S_def)
  moreover have "length R = length p + 2 + length r" "take 2 (drop (length p) R) = CRLF" "drop (length p + 2) R = r"
      "take (length p) R = p" by (simp_all add: R_def)
  moreover have "h \<noteq> []" "list_all (\<lambda>c. hex_digit c \<noteq> None) h" "nat (hex_val h) = length p"
    using format_hex_digits [of "length p"] by (simp_all only: h_def format_hex_ne hex_val_format nat_int) simp
  ultimately have "dechunk S = (case dechunk r of None \<Rightarrow> None | Some (b, x) \<Rightarrow> Some (p @ b, x))"
    using assms by (subst dechunk.simps) (simp add: Let_def del: append.simps split: option.splits)
  then show ?thesis unfolding S_def R_def h_def by (cases "dechunk r") auto
qed

subsection \<open>Properties\<close>

definition chunks :: "string list \<Rightarrow> string" where
  "chunks ps = concat (map (\<lambda>p. if p = [] then [] else format_hex (length p) @ CRLF @ p @ CRLF) ps)"

lemma dechunk_chunks: "dechunk (chunks ps @ ''0'' @ CRLF @ CRLF @ r) = Some (concat ps, r)"
proof (induction ps)
  case Nil
  then show ?case using dechunk_end [of r] by (simp add: chunks_def)
next
  case (Cons p ps)
  show ?case
  proof (cases "p = []")
    case True
    with Cons show ?thesis by (simp add: chunks_def)
  next
    case False
    have "chunks (p # ps) @ ''0'' @ CRLF @ CRLF @ r = format_hex (length p) @ CRLF @ p @ CRLF @ (chunks ps @ ''0'' @ CRLF @ CRLF @ r)"
      using False by (simp add: chunks_def)
    with dechunk_chunk [OF False, of "chunks ps @ ''0'' @ CRLF @ CRLF @ r"] Cons show ?thesis by simp
  qed
qed

definition respond :: "int \<Rightarrow> header \<Rightarrow> bool \<Rightarrow> string list \<Rightarrow> respWriter" where
  \<comment> \<open>a handler that sets its headers, calls \<open>WriteHeader\<close> and writes the given blocks\<close>
  "respond code h keepAlive ps =
     finalize (foldl (\<lambda>r p. respWrite p r) (WriteHeader code ((acquireRespWriter [] keepAlive)\<lparr>hdr := h\<rparr>)) ps)"

lemma respWrite_all:
  assumes "wroteHd rw"
  shows "mode rw = ModeContentLength \<Longrightarrow> foldl (\<lambda>r p. respWrite p r) rw ps = rw\<lparr>bw := bw rw @ concat ps\<rparr>"
    "mode rw = ModeChunked \<Longrightarrow> foldl (\<lambda>r p. respWrite p r) rw ps = rw\<lparr>bw := bw rw @ chunks ps\<rparr>"
  using assms by (induction ps arbitrary: rw) (auto simp: respWrite_def chunks_def)

definition announced :: "header \<Rightarrow> bool" where
  \<comment> \<open>the handler set a Content-Length that is a number\<close>
  "announced h \<longleftrightarrow> (case parse_int (hdr_get h ''Content-Length'') of Some v \<Rightarrow> v \<ge> 0 | None \<Rightarrow> False)"

definition out_header :: "header \<Rightarrow> bool \<Rightarrow> header" where
  "out_header h keepAlive =
     hdr_set ''Connection'' (if keepAlive then ''keep-alive'' else ''close'') (hdr_del ''Connection''
       (if announced h then h else hdr_set ''Transfer-Encoding'' ''chunked'' (hdr_del ''Content-Length'' h)))"

definition head_text :: "int \<Rightarrow> header \<Rightarrow> string" where
  "head_text code h = ''HTTP/1.1 '' @ format_int code @ '' '' @ StatusText code @ CRLF @ header_lines h @ CRLF"

lemma WriteHeader_start:
  "WriteHeader code ((acquireRespWriter [] keepAlive)\<lparr>hdr := h\<rparr>) =
     \<lparr>bw = head_text code (out_header h keepAlive), hdr = out_header h keepAlive,
      mode = (if announced h then ModeContentLength else ModeChunked), wroteHd = True, keep = keepAlive, status = code,
      cl = (case parse_int (hdr_get h ''Content-Length'') of Some v \<Rightarrow> if v \<ge> 0 then v else -1 | None \<Rightarrow> -1)\<rparr>"
  by (simp add: WriteHeader_def framing_def acquireRespWriter_def out_header_def announced_def head_text_def Let_def
    split: option.splits)


lemma bodyless_terminator:
  \<comment> \<open>a response that must not have a body, such as one to HEAD, still ends with the last-chunk marker unless its
      length was announced\<close>
  "\<not> announced h \<Longrightarrow> bw (respond code h keepAlive []) = head_text code (out_header h keepAlive) @ ''0'' @ CRLF @ CRLF"
  by (simp add: respond_def WriteHeader_start finalize_def)



lemma short_timeout_interval: "extensionInterval 40000000 = 50000000"
  by code_simp

end
