(* ===== verification/Auth_Db.thy ===== *)
theory Auth_Db
  imports Sha256
begin

text \<open>
  Identities and their storage: roles, actors, scopes and tokens of \<open>internal/auth\<close>, and the Postgres queries of
  \<open>internal/auth/store/pg.go\<close> and \<open>internal/admin/store/admin.go\<close>. A table is the list of its rows; a statement
  selects with \<open>filter\<close>, takes the first row where the code scans one, and may fail (\<open>down\<close>, one
  flag per statement in order). Identifiers and secrets that the database or the random source produces are
  arguments. Times are nanoseconds.
\<close>

subsection \<open>Roles, actors, tokens\<close>

datatype ActorType = Anonymous | ActorUser | ActorToken | ActorSystem

definition RoleOwner :: string where "RoleOwner = ''owner''"
definition RoleAdmin :: string where "RoleAdmin = ''admin''"
definition RoleMember :: string where "RoleMember = ''member''"
definition RoleReader :: string where "RoleReader = ''reader''"

lemmas roles = RoleOwner_def RoleAdmin_def RoleMember_def RoleReader_def

definition ParseRole :: "string \<Rightarrow> string option" where
  "ParseRole s = (if s \<in> {RoleOwner, RoleAdmin, RoleMember, RoleReader} then Some s else None)"

definition Rank :: "string \<Rightarrow> int" where
  "Rank r = (if r = RoleOwner then 4 else if r = RoleAdmin then 3 else if r = RoleMember then 2 else if r = RoleReader then 1 else 0)"

definition AtLeast :: "string \<Rightarrow> string \<Rightarrow> bool" where
  "AtLeast r m \<longleftrightarrow> Rank r \<ge> Rank m"

record Actor =
  aType :: ActorType
  aTenant :: string
  aUser :: string
  aToken :: string
  aRole :: string
  aScopes :: "string list"
  aEmail :: string

definition zero_actor :: Actor where
  "zero_actor = \<lparr>aType = Anonymous, aTenant = [], aUser = [], aToken = [], aRole = [], aScopes = [], aEmail = []\<rparr>"

definition HasScope :: "Actor \<Rightarrow> string \<Rightarrow> bool" where
  "HasScope a scope =
     (if aType a = Anonymous then False
      else if aType a = ActorUser \<and> AtLeast (aRole a) RoleAdmin then True
      else list_ex (\<lambda>s. s = scope \<or> s = ''*'') (aScopes a))"

definition patPrefix :: string where "patPrefix = ''pulsys_''"

definition IsPAT :: "string \<Rightarrow> bool" where
  "IsPAT tok \<longleftrightarrow> has_prefix tok patPrefix"

definition TokenHash :: "string \<Rightarrow> string" where
  "TokenHash plaintext = Sum256 plaintext"

definition GeneratePAT :: "string \<Rightarrow> string \<Rightarrow> string \<times> string \<times> string" where
  \<comment> \<open>from 4 random bytes and a random secret: display value, prefix and hash\<close>
  "GeneratePAT prefixBytes secret =
     (let prefix = hex_encode prefixBytes;
          display = patPrefix @ prefix @ ''_'' @ secret
      in (display, prefix, TokenHash display))"

definition ParseBearer :: "string \<Rightarrow> string option" where
  "ParseBearer h =
     (if length h < 7 \<or> to_lower (take 7 h) \<noteq> ''bearer '' then None
      else let tok = trim_space (drop 7 h) in if tok = [] then None else Some tok)"

definition RoleFromGroups :: "string list \<Rightarrow> string list \<Rightarrow> string list \<Rightarrow> string \<Rightarrow> string" where
  "RoleFromGroups groups ownerGroups adminGroups defaultRole =
     (if list_ex (\<lambda>g. g \<in> set groups) ownerGroups then RoleOwner
      else if list_ex (\<lambda>g. g \<in> set groups) adminGroups then RoleAdmin
      else defaultRole)"

subsection \<open>Tables\<close>

record tenant_row =
  tnId :: string
  tnName :: string
  tnDisplay :: string
  tnDeleted :: bool

record OIDCProvider =
  pvTenant :: string
  Issuer :: string
  ClientID :: string
  ClientSecret :: string
  RedirectURI :: string
  pvScopes :: string
  pvEnabled :: bool
  GroupsClaim :: string
  OwnerGroups :: "string list"
  AdminGroups :: "string list"
  JITDefaultRole :: string
  RequirePreprovisioned :: bool

record user_row =
  usId :: string
  usTenant :: string
  usEmail :: string
  usName :: string
  usRole :: string
  usSub :: string
  usActive :: bool
  usDeleted :: bool

record session_row =
  ssId :: string
  ssHash :: string
  ssUser :: string
  ssTenant :: string
  ssCsrf :: string
  ssExpires :: int
  ssRevoked :: bool

record token_row =
  tkId :: string
  tkTenant :: string
  tkOwner :: "string option"
  tkName :: string
  tkPrefix :: string
  tkHash :: string
  tkScopes :: "string list"
  tkExpires :: "int option"
  tkRevoked :: bool
  tkDeleted :: bool

record setting_row =
  stTenant :: string
  stScope :: string
  stKey :: string
  stValue :: string
  stVersion :: int

record audit_row =
  auTenant :: string
  auActorType :: string
  auActorId :: "string option"
  auAction :: string
  auResource :: string
  auOutcome :: string

record authdb =
  tenants :: "tenant_row list"
  providers :: "OIDCProvider list"
  users :: "user_row list"
  sessions :: "session_row list"
  tokens :: "token_row list"
  settings :: "setting_row list"
  auditlog :: "audit_row list"

datatype auth_err =
    ErrNoOIDCProvider | ErrLoginDenied | ErrInvalidSession | ErrNoRows | ErrTokenNotFound | ErrSettingConflict
  | TenantNotFound | NoMatchingUser | BadArgument | DbError

definition first_row :: "('r \<Rightarrow> bool) \<Rightarrow> 'r list \<Rightarrow> 'r option" where
  "first_row p rows = (case filter p rows of [] \<Rightarrow> None | r # _ \<Rightarrow> Some r)"

definition update_rows :: "('r \<Rightarrow> bool) \<Rightarrow> ('r \<Rightarrow> 'r) \<Rightarrow> 'r list \<Rightarrow> 'r list" where
  "update_rows p f rows = map (\<lambda>r. if p r then f r else r) rows"

subsection \<open>Tenants and providers\<close>

definition GetTenantIDByName :: "bool \<Rightarrow> string \<Rightarrow> authdb \<Rightarrow> auth_err + string" where
  "GetTenantIDByName down name db =
     (if down then Inl DbError
      else case first_row (\<lambda>t. tnName t = name \<and> \<not> tnDeleted t) (tenants db) of
        None \<Rightarrow> Inl TenantNotFound
      | Some t \<Rightarrow> Inr (tnId t))"

definition EnsureTenant :: "bool \<times> bool \<Rightarrow> string \<Rightarrow> string \<Rightarrow> string \<Rightarrow> authdb \<Rightarrow> (auth_err + string) \<times> authdb" where
  "EnsureTenant down newId name displayName db =
     (if fst down then (Inl DbError, db)
      else case first_row (\<lambda>t. tnName t = name \<and> \<not> tnDeleted t) (tenants db) of
        Some t \<Rightarrow> (Inr (tnId t), db)
      | None \<Rightarrow>
          if snd down then (Inl DbError, db)
          else (Inr newId, db\<lparr>tenants := tenants db @ [\<lparr>tnId = newId, tnName = name, tnDisplay = displayName, tnDeleted = False\<rparr>]\<rparr>))"

definition GetOIDCProviderByTenant :: "bool \<Rightarrow> string \<Rightarrow> authdb \<Rightarrow> auth_err + OIDCProvider" where
  "GetOIDCProviderByTenant down tenantID db =
     (if down then Inl DbError
      else case first_row (\<lambda>p. pvTenant p = tenantID \<and> pvEnabled p) (providers db) of
        None \<Rightarrow> Inl ErrNoOIDCProvider
      | Some p \<Rightarrow> Inr p)"

definition ValidateProvider :: "OIDCProvider \<Rightarrow> bool" where
  "ValidateProvider p \<longleftrightarrow>
     pvTenant p \<noteq> [] \<and> Issuer p \<noteq> [] \<and> ClientID p \<noteq> [] \<and> ClientSecret p \<noteq> [] \<and> RedirectURI p \<noteq> [] \<and>
     ParseRole (JITDefaultRole p) \<noteq> None"

definition UpsertOIDCProvider :: "bool \<Rightarrow> OIDCProvider \<Rightarrow> authdb \<Rightarrow> auth_err option \<times> authdb" where
  \<comment> \<open>\<open>ON CONFLICT (tenant_id) DO UPDATE\<close>\<close>
  "UpsertOIDCProvider down p db =
     (if \<not> ValidateProvider p then (Some BadArgument, db)
      else if down then (Some DbError, db)
      else (None, db\<lparr>providers :=
        (if list_ex (\<lambda>q. pvTenant q = pvTenant p) (providers db)
         then update_rows (\<lambda>q. pvTenant q = pvTenant p) (\<lambda>_. p) (providers db)
         else providers db @ [p])\<rparr>))"

subsection \<open>Users\<close>

definition FindUserByOIDCSub :: "bool \<Rightarrow> string \<Rightarrow> string \<Rightarrow> authdb \<Rightarrow> auth_err + user_row option" where
  "FindUserByOIDCSub down tenantID oidcSub db =
     (if down then Inl DbError
      else Inr (first_row (\<lambda>u. usTenant u = tenantID \<and> usSub u = oidcSub \<and> \<not> usDeleted u) (users db)))"

definition CreateUserOIDC :: "bool \<Rightarrow> string \<Rightarrow> string \<Rightarrow> string \<Rightarrow> string \<Rightarrow> string \<Rightarrow> string \<Rightarrow> authdb \<Rightarrow> (auth_err + string) \<times> authdb" where
  "CreateUserOIDC down newId tenantID email displayName role oidcSub db =
     (if down then (Inl DbError, db)
      else (Inr newId, db\<lparr>users := users db @ [\<lparr>usId = newId, usTenant = tenantID, usEmail = email, usName = displayName,
              usRole = role, usSub = oidcSub, usActive = True, usDeleted = False\<rparr>]\<rparr>))"

definition UpdateUserProfile :: "bool \<Rightarrow> string \<Rightarrow> string \<Rightarrow> string \<Rightarrow> string \<Rightarrow> authdb \<Rightarrow> auth_err option \<times> authdb" where
  "UpdateUserProfile down userID email displayName role db =
     (if down then (Some DbError, db)
      else (None, db\<lparr>users := update_rows (\<lambda>u. usId u = userID \<and> \<not> usDeleted u)
              (\<lambda>u. u\<lparr>usEmail := email, usName := displayName, usRole := role\<rparr>) (users db)\<rparr>))"

definition GrantOwner :: "(nat \<Rightarrow> bool) \<Rightarrow> string \<Rightarrow> string \<Rightarrow> string \<Rightarrow> authdb \<Rightarrow> (auth_err + string \<times> string) \<times> authdb" where
  \<comment> \<open>one transaction: a failing statement (begin, scope, select, update, audit, commit) leaves the database as it was;
      the e-mail column ignores case\<close>
  "GrantOwner down tenantID email0 oidcSub0 db =
     (let email = trim_space email0; oidcSub = trim_space oidcSub0
      in if (email = []) = (oidcSub = []) then (Inl BadArgument, db)
         else if down 0 \<or> down 1 \<or> down 2 then (Inl DbError, db)
         else case first_row (\<lambda>u. usTenant u = tenantID \<and> \<not> usDeleted u \<and>
                      (if email \<noteq> [] then to_lower (usEmail u) = to_lower email else usSub u = oidcSub)) (users db) of
           None \<Rightarrow> (Inl NoMatchingUser, db)
         | Some u \<Rightarrow>
             if down 3 \<or> down 4 \<or> down 5 then (Inl DbError, db)
             else (Inr (usId u, usRole u),
                   db\<lparr>users := update_rows (\<lambda>v. usId v = usId u \<and> \<not> usDeleted v)
                                 (\<lambda>v. v\<lparr>usRole := RoleOwner, usActive := True\<rparr>) (users db),
                      auditlog := auditlog db @ [\<lparr>auTenant = tenantID, auActorType = ''system'', auActorId = None,
                        auAction = ''user.grant_owner'', auResource = usId u, auOutcome = ''success''\<rparr>]\<rparr>))"

subsection \<open>Sessions\<close>

definition CreateSession ::
  "bool \<Rightarrow> int \<Rightarrow> string \<Rightarrow> string \<Rightarrow> string \<Rightarrow> string \<Rightarrow> string \<Rightarrow> int \<Rightarrow> authdb \<Rightarrow> (auth_err + session_row) \<times> authdb" where
  \<comment> \<open>\<open>plain\<close> and \<open>csrf\<close> are the two random tokens\<close>
  "CreateSession down now newId plain csrf userID tenantID ttl db =
     (if down then (Inl DbError, db)
      else let r = \<lparr>ssId = newId, ssHash = TokenHash plain, ssUser = userID, ssTenant = tenantID, ssCsrf = csrf,
                    ssExpires = now + ttl, ssRevoked = False\<rparr>
           in (Inr r, db\<lparr>sessions := sessions db @ [r]\<rparr>))"

definition live_session :: "int \<Rightarrow> string \<Rightarrow> session_row \<Rightarrow> bool" where
  "live_session now hash s \<longleftrightarrow> ssHash s = hash \<and> \<not> ssRevoked s \<and> ssExpires s > now"

definition LookupSession :: "bool \<times> bool \<Rightarrow> int \<Rightarrow> string \<Rightarrow> authdb \<Rightarrow> auth_err + session_row \<times> user_row" where
  "LookupSession down now plainToken db =
     (if fst down then Inl DbError
      else case first_row (live_session now (TokenHash plainToken)) (sessions db) of
        None \<Rightarrow> Inl ErrInvalidSession
      | Some s \<Rightarrow>
          if snd down then Inl DbError
          else (case first_row (\<lambda>u. usId u = ssUser s \<and> \<not> usDeleted u) (users db) of
                  None \<Rightarrow> Inl ErrNoRows
                | Some u \<Rightarrow> if \<not> usActive u then Inl ErrInvalidSession else Inr (s, u)))"

definition TouchSession :: "bool \<Rightarrow> int \<Rightarrow> string \<Rightarrow> int \<Rightarrow> authdb \<Rightarrow> authdb" where
  "TouchSession down now sessionID ttl db =
     (if down then db
      else db\<lparr>sessions := update_rows (\<lambda>s. ssId s = sessionID \<and> \<not> ssRevoked s) (\<lambda>s. s\<lparr>ssExpires := now + ttl\<rparr>) (sessions db)\<rparr>)"

definition RevokeSession :: "bool \<Rightarrow> string \<Rightarrow> authdb \<Rightarrow> authdb" where
  "RevokeSession down plainToken db =
     (if down then db
      else db\<lparr>sessions := update_rows (\<lambda>s. ssHash s = TokenHash plainToken \<and> \<not> ssRevoked s) (\<lambda>s. s\<lparr>ssRevoked := True\<rparr>) (sessions db)\<rparr>)"

subsection \<open>API tokens\<close>

definition live_token :: "int \<Rightarrow> string \<Rightarrow> token_row \<Rightarrow> bool" where
  "live_token now hash t \<longleftrightarrow> tkHash t = hash \<and> \<not> tkDeleted t \<and> \<not> tkRevoked t \<and>
     (case tkExpires t of None \<Rightarrow> True | Some e \<Rightarrow> e > now)"

definition LookupAPIToken :: "bool \<Rightarrow> int \<Rightarrow> string \<Rightarrow> authdb \<Rightarrow> auth_err + token_row" where
  "LookupAPIToken down now plainToken db =
     (if \<not> IsPAT plainToken then Inl ErrInvalidSession
      else if down then Inl DbError
      else case first_row (live_token now (TokenHash plainToken)) (tokens db) of
        None \<Rightarrow> Inl ErrInvalidSession
      | Some t \<Rightarrow> Inr t)"

definition nullUUID :: "string \<Rightarrow> string option" where
  "nullUUID s = (if s = [] then None else Some s)"

definition CreateToken ::
  "bool \<Rightarrow> string \<Rightarrow> string \<Rightarrow> string \<Rightarrow> string \<Rightarrow> string \<Rightarrow> string \<Rightarrow> string list \<Rightarrow> int option \<Rightarrow> authdb \<Rightarrow> (auth_err + token_row) \<times> authdb" where
  "CreateToken down newId tenantID ownerUserID name pfx hash scopes expiresAt db =
     (if down then (Inl DbError, db)
      else let t = \<lparr>tkId = newId, tkTenant = tenantID, tkOwner = nullUUID ownerUserID, tkName = name, tkPrefix = pfx,
                    tkHash = hash, tkScopes = scopes, tkExpires = expiresAt, tkRevoked = False, tkDeleted = False\<rparr>
           in (Inr t, db\<lparr>tokens := tokens db @ [t]\<rparr>))"

definition RevokeToken :: "bool \<times> bool \<Rightarrow> string \<Rightarrow> string \<Rightarrow> authdb \<Rightarrow> (auth_err + string \<times> bool) \<times> authdb" where
  \<comment> \<open>the stored hash and whether the token was already revoked\<close>
  "RevokeToken down tenantID tokenID db =
     (let active = (\<lambda>t. tkId t = tokenID \<and> tkTenant t = tenantID \<and> \<not> tkDeleted t \<and> \<not> tkRevoked t)
      in if fst down then (Inl DbError, db)
         else case first_row active (tokens db) of
           Some t \<Rightarrow> (Inr (tkHash t, False), db\<lparr>tokens := update_rows active (\<lambda>t. t\<lparr>tkRevoked := True\<rparr>) (tokens db)\<rparr>)
         | None \<Rightarrow>
             if snd down then (Inl DbError, db)
             else (case first_row (\<lambda>t. tkId t = tokenID \<and> tkTenant t = tenantID \<and> \<not> tkDeleted t) (tokens db) of
                     None \<Rightarrow> (Inl ErrTokenNotFound, db)
                   | Some t \<Rightarrow> (Inr (tkHash t, True), db)))"

subsection \<open>Listings and settings\<close>

definition clamp_limit :: "int \<Rightarrow> int" where
  "clamp_limit limit = (if limit \<le> 0 \<or> limit > 500 then 100 else limit)"

definition GetTenant :: "bool \<Rightarrow> string \<Rightarrow> authdb \<Rightarrow> auth_err + tenant_row" where
  "GetTenant down tenantID db =
     (if down then Inl DbError
      else case first_row (\<lambda>t. tnId t = tenantID \<and> \<not> tnDeleted t) (tenants db) of
        None \<Rightarrow> Inl TenantNotFound
      | Some t \<Rightarrow> Inr t)"

definition ListUsers :: "bool \<Rightarrow> string \<Rightarrow> int \<Rightarrow> authdb \<Rightarrow> auth_err + user_row list" where
  \<comment> \<open>newest first: rows are kept in order of insertion\<close>
  "ListUsers down tenantID limit db =
     (if down then Inl DbError
      else Inr (take (nat (clamp_limit limit)) (rev (filter (\<lambda>u. usTenant u = tenantID \<and> \<not> usDeleted u) (users db)))))"

definition ListTokens :: "bool \<Rightarrow> string \<Rightarrow> int \<Rightarrow> authdb \<Rightarrow> auth_err + token_row list" where
  "ListTokens down tenantID limit db =
     (if down then Inl DbError
      else Inr (take (nat (clamp_limit limit)) (rev (filter (\<lambda>t. tkTenant t = tenantID \<and> \<not> tkDeleted t) (tokens db)))))"

definition ListAudit :: "bool \<Rightarrow> string \<Rightarrow> int \<Rightarrow> authdb \<Rightarrow> auth_err + audit_row list" where
  "ListAudit down tenantID limit db =
     (if down then Inl DbError
      else Inr (take (nat (clamp_limit limit)) (rev (filter (\<lambda>a. auTenant a = tenantID) (auditlog db)))))"

definition ListSettings :: "bool \<Rightarrow> string \<Rightarrow> string \<Rightarrow> authdb \<Rightarrow> auth_err + setting_row list" where
  \<comment> \<open>in the order of the table; the code sorts by scope and key\<close>
  "ListSettings down tenantID scope db =
     (if down then Inl DbError
      else Inr (filter (\<lambda>s. stTenant s = tenantID \<and> (scope \<noteq> [] \<longrightarrow> stScope s = scope)) (settings db)))"

definition same_setting :: "string \<Rightarrow> string \<Rightarrow> string \<Rightarrow> setting_row \<Rightarrow> bool" where
  "same_setting tenantID scope key s \<longleftrightarrow> stTenant s = tenantID \<and> stScope s = scope \<and> stKey s = key"

definition UpsertSetting :: "bool \<Rightarrow> string \<Rightarrow> string \<Rightarrow> string \<Rightarrow> string \<Rightarrow> int \<Rightarrow> authdb \<Rightarrow> (auth_err + setting_row) \<times> authdb" where
  \<comment> \<open>the table has a unique key on tenant, scope and key, and versions start at 1\<close>
  "UpsertSetting down tenantID scope key val expectVersion db =
     (if expectVersion < 0 then (Inl BadArgument, db)
      else if down then (Inl DbError, db)
      else if expectVersion \<ge> 1 then
        (let hit = (\<lambda>s. same_setting tenantID scope key s \<and> stVersion s = expectVersion)
         in case first_row hit (settings db) of
              None \<Rightarrow> (Inl ErrSettingConflict, db)
            | Some s \<Rightarrow> (Inr (s\<lparr>stValue := val, stVersion := expectVersion + 1\<rparr>),
                db\<lparr>settings := update_rows hit (\<lambda>s. s\<lparr>stValue := val, stVersion := stVersion s + 1\<rparr>) (settings db)\<rparr>))
      else if list_ex (same_setting tenantID scope key) (settings db) then (Inl ErrSettingConflict, db)
      else let s = \<lparr>stTenant = tenantID, stScope = scope, stKey = key, stValue = val, stVersion = 1\<rparr>
           in (Inr s, db\<lparr>settings := settings db @ [s]\<rparr>))"

definition InsertAudit :: "bool \<Rightarrow> string \<Rightarrow> string \<Rightarrow> string option \<Rightarrow> string \<Rightarrow> string \<Rightarrow> string \<Rightarrow> authdb \<Rightarrow> authdb" where
  "InsertAudit down tenantID actorType actorID action resource outcome db =
     (if down then db
      else db\<lparr>auditlog := auditlog db @ [\<lparr>auTenant = tenantID, auActorType = actorType, auActorId = actorID, auAction = action,
             auResource = resource, auOutcome = outcome\<rparr>]\<rparr>)"

subsection \<open>Lemmas\<close>

lemma first_row_Some: "first_row p rows = Some r \<Longrightarrow> r \<in> set rows \<and> p r"
  by (auto simp: first_row_def filter_eq_Cons_iff split: list.splits)

lemma first_row_None: "first_row p rows = None \<longleftrightarrow> (\<forall>r \<in> set rows. \<not> p r)"
  by (auto simp: first_row_def filter_empty_conv filter_eq_Cons_iff split: list.splits)

lemma first_row_is_Some: "(\<exists>r. first_row p rows = Some r) \<longleftrightarrow> (\<exists>r \<in> set rows. p r)"
  using first_row_None [of p rows] by (cases "first_row p rows") (auto dest: first_row_Some)

subsection \<open>Settings as compare-and-swap\<close>

definition setting_key :: "setting_row \<Rightarrow> string \<times> string \<times> string" where
  "setting_key s = (stTenant s, stScope s, stKey s)"

definition settings_ok :: "authdb \<Rightarrow> bool" where
  "settings_ok db \<longleftrightarrow> distinct (map setting_key (settings db)) \<and> (\<forall>s \<in> set (settings db). stVersion s \<ge> 1)"

definition settings_map :: "authdb \<Rightarrow> string \<times> string \<times> string \<rightharpoonup> string \<times> int" where
  "settings_map db = map_of (map (\<lambda>s. (setting_key s, (stValue s, stVersion s))) (settings db))"

definition cas :: "'k \<Rightarrow> 'v \<Rightarrow> int \<Rightarrow> ('k \<rightharpoonup> 'v \<times> int) \<Rightarrow> (auth_err + int) \<times> ('k \<rightharpoonup> 'v \<times> int)" where
  \<comment> \<open>the abstract operation: create at version 1, or replace exactly the version that was read\<close>
  "cas k v expect m =
     (if expect < 0 then (Inl BadArgument, m)
      else case m k of
        None \<Rightarrow> if expect = 0 then (Inr 1, m(k \<mapsto> (v, 1))) else (Inl ErrSettingConflict, m)
      | Some (_, n) \<Rightarrow> if n = expect then (Inr (n + 1), m(k \<mapsto> (v, n + 1))) else (Inl ErrSettingConflict, m))"

lemma same_setting_key: "same_setting t scp k s \<longleftrightarrow> setting_key s = (t, scp, k)"
  by (auto simp: same_setting_def setting_key_def)

lemma settings_map_hit:
  assumes "settings_ok db" "s \<in> set (settings db)"
  shows "settings_map db (setting_key s) = Some (stValue s, stVersion s)"
proof -
  have "distinct (map fst (map (\<lambda>s. (setting_key s, (stValue s, stVersion s))) (settings db)))"
    using assms(1) by (simp add: settings_ok_def o_def)
  then show ?thesis unfolding settings_map_def using assms(2) by (intro map_of_is_SomeI) auto
qed

lemma settings_map_None: "settings_map db k = None \<longleftrightarrow> (\<forall>s \<in> set (settings db). setting_key s \<noteq> k)"
  by (auto simp: settings_map_def map_of_eq_None_iff image_image)

lemma map_of_map_update:
  assumes "distinct (map kf xs)" "x \<in> set xs"
  shows "map_of (map (\<lambda>s. (kf s, if kf s = kf x then w else vf s)) xs) = (map_of (map (\<lambda>s. (kf s, vf s)) xs))(kf x \<mapsto> w)"
  using assms
proof (induction xs)
  case (Cons y ys)
  show ?case
  proof (cases "y = x")
    case True
    with Cons.prems have "kf s \<noteq> kf x" if "s \<in> set ys" for s using that by (force simp: image_iff)
    then have eq: "map (\<lambda>s. (kf s, if kf s = kf x then w else vf s)) ys = map (\<lambda>s. (kf s, vf s)) ys"
      by (intro map_cong) simp_all
    show ?thesis unfolding True list.map map_of.simps eq by (simp add: fun_eq_iff)
  next
    case False
    with Cons.prems have "x \<in> set ys" "kf y \<noteq> kf x" by (auto simp: image_iff)
    with Cons show ?thesis by (auto simp: fun_eq_iff)
  qed
qed simp

lemma settings_insert:
  assumes "settings_ok db" "settings_map db (setting_key s) = None" "stVersion s = 1"
  shows "settings_ok (db\<lparr>settings := settings db @ [s]\<rparr>)"
    "settings_map (db\<lparr>settings := settings db @ [s]\<rparr>) = (settings_map db)(setting_key s \<mapsto> (stValue s, 1))"
proof -
  show "settings_ok (db\<lparr>settings := settings db @ [s]\<rparr>)"
    using assms by (auto simp: settings_ok_def settings_map_None)
  have "settings_map (db\<lparr>settings := settings db @ [s]\<rparr>) = [setting_key s \<mapsto> (stValue s, 1)] ++ settings_map db"
    by (simp add: settings_map_def assms(3))
  then show "settings_map (db\<lparr>settings := settings db @ [s]\<rparr>) = (settings_map db)(setting_key s \<mapsto> (stValue s, 1))"
    using assms(2) by (auto simp: map_add_def fun_eq_iff split: option.splits)
qed

lemma settings_replace:
  assumes "settings_ok db" "s \<in> set (settings db)" "setting_key s = (t, scp, k)" "stVersion s = n"
    "settings db' = update_rows (\<lambda>s. same_setting t scp k s \<and> stVersion s = n)
       (\<lambda>s. s\<lparr>stValue := v, stVersion := stVersion s + 1\<rparr>) (settings db)"
  shows "settings_ok db'" "settings_map db' = (settings_map db)(setting_key s \<mapsto> (v, n + 1))"
proof -
  have d: "distinct (map setting_key (settings db))" and v1: "\<And>s. s \<in> set (settings db) \<Longrightarrow> stVersion s \<ge> 1"
    using assms(1) by (simp_all add: settings_ok_def)
  have "same_setting t scp k x \<and> stVersion x = n \<longleftrightarrow> setting_key x = setting_key s" if "x \<in> set (settings db)" for x
    using d that assms(2-4) by (auto simp: same_setting_key distinct_map inj_on_def)
  then have rows: "settings db' = map (\<lambda>x. if setting_key x = setting_key s then x\<lparr>stValue := v, stVersion := n + 1\<rparr> else x) (settings db)"
    unfolding assms(5) update_rows_def by auto
  have key: "setting_key (if setting_key x = setting_key s then x\<lparr>stValue := v, stVersion := n + 1\<rparr> else x) = setting_key x" for x
    by (simp add: setting_key_def)
  show "settings_ok db'" using d v1 v1 [OF assms(2)] assms(4) by (auto simp: settings_ok_def rows o_def key)
  have "map (\<lambda>s. (setting_key s, (stValue s, stVersion s))) (settings db') =
      map (\<lambda>x. (setting_key x, if setting_key x = setting_key s then (v, n + 1) else (stValue x, stVersion x))) (settings db)"
    by (simp add: rows setting_key_def)
  with map_of_map_update [OF d assms(2), of "(v, n + 1)" "\<lambda>x. (stValue x, stVersion x)"]
  show "settings_map db' = (settings_map db)(setting_key s \<mapsto> (v, n + 1))" by (simp add: settings_map_def)
qed

lemma settings_map_Some:
  "settings_ok db \<Longrightarrow> settings_map db k = Some (x, m) \<longleftrightarrow> (\<exists>s \<in> set (settings db). setting_key s = k \<and> stValue s = x \<and> stVersion s = m)"
proof
  assume "settings_map db k = Some (x, m)"
  then show "\<exists>s \<in> set (settings db). setting_key s = k \<and> stValue s = x \<and> stVersion s = m"
    unfolding settings_map_def by (auto dest!: map_of_SomeD)
next
  assume "settings_ok db" "\<exists>s \<in> set (settings db). setting_key s = k \<and> stValue s = x \<and> stVersion s = m"
  with settings_map_hit [of db] show "settings_map db k = Some (x, m)" by blast
qed

lemma one_setting:
  "settings_ok db \<Longrightarrow> s \<in> set (settings db) \<Longrightarrow> s' \<in> set (settings db) \<Longrightarrow> setting_key s = setting_key s' \<Longrightarrow> s = s'"
  by (simp add: settings_ok_def distinct_map inj_on_def)

text \<open>C33: settings are updated by compare-and-swap. On a table with unique keys and versions from 1, \<open>UpsertSetting\<close> is
  the abstract operation on the map from (tenant, scope, key) to (value, version): version 0 creates and fails if the key
  exists, version \<open>n\<close> replaces exactly version \<open>n\<close> by \<open>n + 1\<close> and otherwise reports a conflict and changes
  nothing, so no write overwrites one its author has not read; and the table stays well-formed.\<close>

theorem UpsertSetting_cas:
  assumes "settings_ok db" "UpsertSetting False t scp k v n db = (r, db')"
  shows "settings_ok db' \<and>
    cas (t, scp, k) v n (settings_map db) = (map_sum id stVersion r, settings_map db')"
proof (cases "settings_map db (t, scp, k)")
  case None
  then have no: "\<not> list_ex (same_setting t scp k) (settings db)"
    "first_row (\<lambda>s. same_setting t scp k s \<and> stVersion s = n) (settings db) = None"
    by (auto simp: settings_map_None list_ex_iff first_row_None same_setting_key)
  let ?s = "\<lparr>stTenant = t, stScope = scp, stKey = k, stValue = v, stVersion = 1\<rparr>"
  have "setting_key ?s = (t, scp, k)" by (simp add: setting_key_def)
  with settings_insert [OF assms(1), of ?s] None no assms show ?thesis
    by (auto simp: UpsertSetting_def cas_def Let_def split: if_splits)
next
  case (Some p)
  then obtain s where s: "s \<in> set (settings db)" "setting_key s = (t, scp, k)" "p = (stValue s, stVersion s)"
    using settings_map_Some [OF assms(1), of "(t, scp, k)" "fst p" "snd p"] by (cases p) auto
  have ex: "list_ex (same_setting t scp k) (settings db)" using s by (auto simp: list_ex_iff same_setting_key)
  have v1: "stVersion s \<ge> 1" using assms(1) s(1) by (auto simp: settings_ok_def)
  show ?thesis
  proof (cases "stVersion s = n")
    case True
    then obtain s' where f: "first_row (\<lambda>s. same_setting t scp k s \<and> stVersion s = n) (settings db) = Some s'"
      using s first_row_is_Some [of "\<lambda>s. same_setting t scp k s \<and> stVersion s = n"] by (auto simp: same_setting_key)
    have "s' = s" using first_row_Some [OF f] one_setting [OF assms(1), of s' s] s by (simp add: same_setting_key)
    with f v1 True assms(2) have u: "r = Inr (s\<lparr>stValue := v, stVersion := n + 1\<rparr>)"
      "settings db' = update_rows (\<lambda>s. same_setting t scp k s \<and> stVersion s = n)
         (\<lambda>s. s\<lparr>stValue := v, stVersion := stVersion s + 1\<rparr>) (settings db)"
      by (auto simp: UpsertSetting_def Let_def)
    show ?thesis using settings_replace [OF assms(1) s(1,2) True u(2)] Some s v1 True by (simp add: cas_def u(1))
  next
    case False
    then have "first_row (\<lambda>s. same_setting t scp k s \<and> stVersion s = n) (settings db) = None"
      unfolding first_row_None same_setting_key using one_setting [OF assms(1) _ s(1)] s(2) by metis
    with ex False v1 Some s assms show ?thesis
      by (auto simp: UpsertSetting_def cas_def Let_def split: if_splits)
  qed
qed

definition empty_db :: authdb where
  "empty_db = \<lparr>tenants = [], providers = [], users = [], sessions = [], tokens = [], settings = [], auditlog = []\<rparr>"

theorem UpsertSetting_cas_witness:
  "settings_map (snd (UpsertSetting False ''t'' ''s'' ''k'' ''v'' 0 empty_db)) (''t'', ''s'', ''k'') = Some (''v'', 1)"
proof -
  have "settings_ok empty_db" by (simp add: settings_ok_def empty_db_def)
  from UpsertSetting_cas [OF this, of "''t''" "''s''" "''k''" "''v''" 0]
  show ?thesis by (cases "UpsertSetting False ''t'' ''s'' ''k'' ''v'' 0 empty_db")
    (auto simp: cas_def settings_map_def empty_db_def fun_eq_iff split: if_splits)
qed

subsection \<open>Sessions end\<close>

inductive sess_step :: "string \<Rightarrow> authdb \<Rightarrow> authdb \<Rightarrow> bool" for h where
  \<comment> \<open>what can happen to the tables while no new session is issued for the secret with hash \<open>h\<close>\<close>
  ses_create: "TokenHash plain \<noteq> h \<Longrightarrow> sess_step h db (snd (CreateSession down now newId plain csrf userID tenantID ttl db))"
| ses_touch: "sess_step h db (TouchSession down now sessionID ttl db)"
| ses_revoke: "sess_step h db (RevokeSession down plain db)"
| ses_other: "sessions db' = sessions db \<Longrightarrow> sess_step h db db'"

definition all_revoked :: "string \<Rightarrow> authdb \<Rightarrow> bool" where
  "all_revoked h db \<longleftrightarrow> (\<forall>s \<in> set (sessions db). ssHash s = h \<longrightarrow> ssRevoked s)"

lemma all_revoked_step: "sess_step h db db' \<Longrightarrow> all_revoked h db \<Longrightarrow> all_revoked h db'"
  by (induction rule: sess_step.induct)
    (auto simp: all_revoked_def CreateSession_def TouchSession_def RevokeSession_def update_rows_def Let_def split: if_splits)

text \<open>C34: logging out is final. Once \<open>RevokeSession\<close> has run for a session secret, no later lookup of that secret succeeds, whatever
  sessions are created for other secrets, touched or revoked, and whatever happens to users in between; in
  particular the sliding extension of an expiry time never revives a revoked session.\<close>

theorem logout_final:
  assumes "(sess_step (TokenHash plain))\<^sup>*\<^sup>* (RevokeSession False plain db) db'"
  shows "\<exists>e. LookupSession down now plain db' = Inl e"
proof -
  from assms have "all_revoked (TokenHash plain) db'"
  proof (induction rule: rtranclp_induct)
    case base
    show ?case by (auto simp: all_revoked_def RevokeSession_def update_rows_def)
  next
    case (step y z)
    then show ?case using all_revoked_step by blast
  qed
  then have "first_row (live_session now (TokenHash plain)) (sessions db') = None"
    by (auto simp: first_row_None all_revoked_def live_session_def)
  then show ?thesis by (simp add: LookupSession_def)
qed

theorem logout_final_witness:
  "\<exists>e. LookupSession (False, False) 1 ''s'' (TouchSession False 0 ''id'' 100 (RevokeSession False ''s''
     (snd (CreateSession False 0 ''id'' ''s'' ''c'' ''u'' ''t'' 100 empty_db)))) = Inl e"
  by (rule logout_final) (rule r_into_rtranclp, rule ses_touch)

end
