(* ===== verification/Auth_Gate.thy ===== *)
theory Auth_Gate
  imports Auth_Db Conn_Loop
begin

text \<open>
  The data-plane gate of \<open>internal/auth/proxygate.go\<close>: bearer tokens checked against the token table, positive answers
  kept for a bounded time, entries dropped when a token is revoked through the admin API. The gate runs
  in a system in which the clock advances and the tables change; snapshots of both are recorded to state how
  old the evidence behind an admission can be. The interface between the core server and a gate is a locale.
\<close>

record patgate =
  PositiveTTL :: int
  pcache :: "string \<rightharpoonup> int"          \<comment> \<open>hash to expiry time\<close>

definition positiveTTL :: "patgate \<Rightarrow> int" where
  "positiveTTL g = (if PositiveTTL g > 0 then PositiveTTL g else 60000000000)"

definition bearerFromBytes :: "string \<Rightarrow> string option" where
  "bearerFromBytes auth =
     (if length auth < 7 then None
      else if to_lower (take 7 auth) \<noteq> ''bearer '' then None
      else let tok = trim_space (drop 7 auth) in if tok = [] then None else Some tok)"

definition lookupCached :: "int \<Rightarrow> string \<Rightarrow> patgate \<Rightarrow> bool \<times> patgate" where
  "lookupCached now token g =
     (case pcache g (TokenHash token) of
        None \<Rightarrow> (False, g)
      | Some e \<Rightarrow> if now > e then (False, g\<lparr>pcache := (pcache g)(TokenHash token := None)\<rparr>) else (True, g))"

definition storeCached :: "int \<Rightarrow> string \<Rightarrow> patgate \<Rightarrow> patgate" where
  "storeCached now token g = g\<lparr>pcache := (pcache g)(TokenHash token \<mapsto> now + positiveTTL g)\<rparr>"

definition InvalidateByHash :: "string \<Rightarrow> patgate \<Rightarrow> patgate" where
  "InvalidateByHash hash g = (if length hash \<noteq> 32 then g else g\<lparr>pcache := (pcache g)(hash := None)\<rparr>)"

definition Invalidate :: "string \<Rightarrow> patgate \<Rightarrow> patgate" where
  "Invalidate token g = InvalidateByHash (TokenHash token) g"

definition open_path :: "string \<Rightarrow> bool" where
  "open_path path \<longleftrightarrow> path = ''/healthz'' \<or> path = ''/readyz'' \<or> path = ''/metrics''"

definition Check :: "bool \<Rightarrow> int \<Rightarrow> authdb \<Rightarrow> string \<Rightarrow> string \<Rightarrow> patgate \<Rightarrow> (int \<times> string) \<times> patgate" where
  "Check down now db auth path g =
     (if open_path path then ((0, []), g)
      else case bearerFromBytes auth of
        None \<Rightarrow> ((401, ''missing Authorization (expected Bearer pulsys_...)''), g)
      | Some tok \<Rightarrow>
          if \<not> IsPAT tok then ((401, ''unsupported credential (expected Bearer pulsys_...)''), g)
          else (case lookupCached now tok g of
                  (True, g1) \<Rightarrow> ((0, []), g1)
                | (False, g1) \<Rightarrow>
                    (case LookupAPIToken down now tok db of
                       Inl e \<Rightarrow> ((401, if e = ErrInvalidSession then ''invalid or revoked token'' else ''authentication failed''), g1)
                     | Inr _ \<Rightarrow> ((0, []), storeCached now tok g1))))"

subsection \<open>The gate over time\<close>

record gate_sys =
  gate :: patgate
  gdb :: authdb
  gnow :: int
  gdown :: bool                       \<comment> \<open>the database cannot be reached\<close>
  past :: "(int \<times> authdb) list"       \<comment> \<open>all snapshots of clock and tables so far, the present one last\<close>
  since :: "string \<Rightarrow> nat"            \<comment> \<open>for each hash, the first snapshot after its last invalidation\<close>

definition gate_check :: "string \<Rightarrow> string \<Rightarrow> gate_sys \<Rightarrow> (int \<times> string) \<times> gate_sys" where
  "gate_check auth path S =
     (case Check (gdown S) (gnow S) (gdb S) auth path (gate S) of (v, g) \<Rightarrow> (v, S\<lparr>gate := g\<rparr>))"

inductive gate_step :: "gate_sys \<Rightarrow> gate_sys \<Rightarrow> bool" where
  gs_check: "gate_step S (snd (gate_check auth path S))"
| gs_tick: "0 \<le> dt \<Longrightarrow> gate_step S (S\<lparr>gnow := gnow S + dt, past := past S @ [(gnow S + dt, gdb S)]\<rparr>)"
| gs_db: "gate_step S (S\<lparr>gdb := db, gdown := d, past := past S @ [(gnow S, db)]\<rparr>)"
| gs_invalidate: "length h = 32 \<Longrightarrow> gate_step S (S\<lparr>gate := InvalidateByHash h (gate S), past := past S @ [(gnow S, gdb S)],
    since := (since S)(h := length (past S))\<rparr>)"

definition gate_start :: "int \<Rightarrow> int \<Rightarrow> authdb \<Rightarrow> gate_sys" where
  "gate_start ttl now db = \<lparr>gate = \<lparr>PositiveTTL = ttl, pcache = Map.empty\<rparr>, gdb = db, gnow = now, gdown = False,
     past = [(now, db)], since = (\<lambda>_. 0)\<rparr>"

definition token_live :: "int \<times> authdb \<Rightarrow> string \<Rightarrow> bool" where
  \<comment> \<open>at that snapshot the table has an unrevoked, unexpired token with this hash\<close>
  "token_live snap h \<longleftrightarrow> (\<exists>r \<in> set (tokens (snd snap)). live_token (fst snap) h r)"

definition evidence :: "gate_sys \<Rightarrow> string \<Rightarrow> int \<Rightarrow> bool" where
  \<comment> \<open>the token was live at some snapshot since its last invalidation, at a time not before \<open>t\<close>\<close>
  "evidence S h t \<longleftrightarrow> (\<exists>i. since S h \<le> i \<and> i < length (past S) \<and> t \<le> fst (past S ! i) \<and> token_live (past S ! i) h)"

definition gate_inv :: "gate_sys \<Rightarrow> bool" where
  "gate_inv S \<longleftrightarrow> past S \<noteq> [] \<and> last (past S) = (gnow S, gdb S) \<and> (\<forall>h. since S h < length (past S)) \<and>
     (\<forall>h e. pcache (gate S) h = Some e \<longrightarrow> evidence S h (e - positiveTTL (gate S)))"

lemma evidence_mono:
  assumes "evidence S h t" "since S' h = since S h" "past S' = past S @ xs"
  shows "evidence S' h t"
  using assms by (auto simp: evidence_def nth_append)

lemma evidence_now:
  assumes "gate_inv S" "token_live (gnow S, gdb S) h" "t \<le> gnow S"
  shows "evidence S h t"
proof -
  have "past S ! (length (past S) - 1) = (gnow S, gdb S)" "since S h \<le> length (past S) - 1" "past S \<noteq> []"
    using assms(1) by (auto simp: gate_inv_def last_conv_nth Nat.le_diff_conv2 Suc_leI)
  with assms(2,3) show ?thesis unfolding evidence_def by (intro exI [of _ "length (past S) - 1"]) auto
qed

lemma TTL_Check [simp]: "PositiveTTL (snd (Check d now db a p g)) = PositiveTTL g"
  by (auto simp: Check_def lookupCached_def storeCached_def split: option.splits sum.splits if_splits)

lemma lookup_token_live: "LookupAPIToken d now tok db = Inr t \<Longrightarrow> token_live (now, db) (TokenHash tok)"
  by (auto simp: LookupAPIToken_def token_live_def split: if_splits option.splits dest!: first_row_Some)

lemma Check_cache:
  assumes "pcache (snd (Check d now db a p g)) h = Some e"
  shows "pcache g h = Some e \<or> e = now + positiveTTL g \<and> token_live (now, db) h"
  using assms
  by (auto simp: Check_def lookupCached_def storeCached_def positiveTTL_def split: option.splits sum.splits if_splits prod.splits
    dest!: lookup_token_live)

lemma gate_inv_check: "gate_inv S \<Longrightarrow> gate_inv (snd (gate_check a p S))"
proof -
  assume inv: "gate_inv S"
  let ?T = "snd (gate_check a p S)"
  have T: "gate ?T = snd (Check (gdown S) (gnow S) (gdb S) a p (gate S))" "past ?T = past S" "since ?T = since S"
    "gnow ?T = gnow S" "gdb ?T = gdb S"
    by (simp_all add: gate_check_def split: prod.splits)
  have ttl: "positiveTTL (gate ?T) = positiveTTL (gate S)" by (simp add: positiveTTL_def T(1))
  have "evidence ?T h (e - positiveTTL (gate ?T))" if "pcache (gate ?T) h = Some e" for h e
  proof -
    from that have "pcache (gate S) h = Some e \<or> e = gnow S + positiveTTL (gate S) \<and> token_live (gnow S, gdb S) h"
      unfolding T(1) by (rule Check_cache)
    then have "evidence S h (e - positiveTTL (gate S))"
      using inv evidence_now [OF inv, of h "gnow S"] by (auto simp: gate_inv_def)
    then show ?thesis unfolding ttl by (rule evidence_mono [where xs = "[]"]) (simp_all add: T)
  qed
  with inv T show ?thesis by (simp add: gate_inv_def)
qed

lemma gate_inv_extend:
  assumes "gate_inv S" "gate T = gate S" "since T = since S" "past T = past S @ [(gnow T, gdb T)]"
  shows "gate_inv T"
proof -
  have "evidence T h (e - positiveTTL (gate T))" if "pcache (gate T) h = Some e" for h e
    using that assms(1,2) by (intro evidence_mono [OF _ _ assms(4)]) (simp_all add: gate_inv_def assms(3))
  with assms show ?thesis by (simp add: gate_inv_def less_Suc_eq)
qed

lemma gate_inv_step: "gate_step S T \<Longrightarrow> gate_inv S \<Longrightarrow> gate_inv T"
proof (induction rule: gate_step.induct)
  case (gs_check S auth path)
  then show ?case by (rule gate_inv_check)
next
  case (gs_tick dt S)
  show ?case by (rule gate_inv_extend [OF gs_tick(2)]) simp_all
next
  case (gs_db S db d)
  show ?case by (rule gate_inv_extend [OF gs_db]) simp_all
next
  case (gs_invalidate h S)
  let ?T = "S\<lparr>gate := InvalidateByHash h (gate S), past := past S @ [(gnow S, gdb S)], since := (since S)(h := length (past S))\<rparr>"
  have "evidence ?T k (e - positiveTTL (gate ?T))" if "pcache (gate ?T) k = Some e" for k e
  proof -
    from that gs_invalidate(1) have k: "k \<noteq> h" "pcache (gate S) k = Some e" by (auto simp: InvalidateByHash_def split: if_splits)
    moreover have "positiveTTL (gate ?T) = positiveTTL (gate S)" by (simp add: positiveTTL_def InvalidateByHash_def)
    ultimately have "evidence S k (e - positiveTTL (gate ?T))" using gs_invalidate(2) by (simp add: gate_inv_def)
    then show ?thesis by (rule evidence_mono) (simp_all add: k(1))
  qed
  moreover have "since ?T k < length (past ?T)" for k using gs_invalidate(2) by (auto simp: gate_inv_def less_Suc_eq)
  ultimately show ?case by (simp add: gate_inv_def)
qed

lemma gate_inv_start: "gate_inv (gate_start ttl now db)"
  by (simp add: gate_inv_def gate_start_def)

definition permitted :: "gate_sys \<Rightarrow> string \<Rightarrow> string \<Rightarrow> bool" where
  \<comment> \<open>a public path, or a bearer token that was live at some moment of the last \<open>positiveTTL\<close> and since its last invalidation\<close>
  "permitted S auth path \<longleftrightarrow> open_path path \<or>
     (\<exists>tok. bearerFromBytes auth = Some tok \<and> IsPAT tok \<and> evidence S (TokenHash tok) (gnow S - positiveTTL (gate S)))"

lemma gate_check_sound:
  assumes "gate_inv S" "fst (fst (gate_check a p S)) = 0"
  shows "permitted S a p"
proof (cases "open_path p")
  case False
  have st: "fst (fst (Check (gdown S) (gnow S) (gdb S) a p (gate S))) = 0"
    using assms(2) by (simp add: gate_check_def split: prod.splits)
  then obtain tok where tok: "bearerFromBytes a = Some tok" "IsPAT tok"
    using False by (auto simp: Check_def split: option.splits if_splits)
  let ?h = "TokenHash tok"
  have "(\<exists>e. pcache (gate S) ?h = Some e \<and> gnow S \<le> e) \<or> (\<exists>t. LookupAPIToken (gdown S) (gnow S) tok (gdb S) = Inr t)"
    using st tok False by (auto simp: Check_def lookupCached_def split: option.splits if_splits sum.splits)
  then have "evidence S ?h (gnow S - positiveTTL (gate S))"
  proof
    assume "\<exists>e. pcache (gate S) ?h = Some e \<and> gnow S \<le> e"
    then show ?thesis using assms(1) by (fastforce simp: gate_inv_def evidence_def)
  next
    assume "\<exists>t. LookupAPIToken (gdown S) (gnow S) tok (gdb S) = Inr t"
    then show ?thesis
      by (auto dest!: lookup_token_live intro!: evidence_now [OF assms(1)] simp: positiveTTL_def)
  qed
  with tok show ?thesis by (auto simp: permitted_def)
qed (simp add: permitted_def)

subsection \<open>The server and its gate\<close>

inductive asked :: "'s server \<Rightarrow> string \<Rightarrow> 's \<Rightarrow> nat \<Rightarrow> 's \<Rightarrow> bool" for S where
  \<comment> \<open>\<open>asked S inp s k t\<close>: on a connection that starts in state \<open>s\<close>, request number \<open>k\<close> is put to the gate in state \<open>t\<close>\<close>
  asked_here: "asked S inp s 0 s"
| asked_warm: "readRequest inp = Inr (req, rest) \<Longrightarrow> admit S req s = (None, s1) \<Longrightarrow> warmPath S req s1 = (Some out, s2) \<Longrightarrow>
    asked S rest s2 k t \<Longrightarrow> asked S inp s (Suc k) t"
| asked_fallback: "readRequest inp = Inr (req, rest) \<Longrightarrow> admit S req s = (None, s1) \<Longrightarrow> warmPath S req s1 = (None, s2) \<Longrightarrow>
    Fallback S = Some fb \<Longrightarrow> fb req rest s2 = ((out, n, okay), s3) \<Longrightarrow> asked S (drop n rest) s3 k t \<Longrightarrow> asked S inp s (Suc k) t"

locale auth_gate =
  fixes check :: "string \<Rightarrow> string \<Rightarrow> 's \<Rightarrow> (int \<times> string) \<times> 's"
    and good :: "'s \<Rightarrow> bool"
    and allowed :: "'s \<Rightarrow> string \<Rightarrow> string \<Rightarrow> bool"
  assumes check_sound: "good s \<Longrightarrow> fst (fst (check a p s)) = 0 \<Longrightarrow> allowed s a p"
    and check_good: "good s \<Longrightarrow> good (snd (check a p s))"
begin

lemma admit_allowed:
  assumes "AuthGate S = Some check" "good s" "admit S r s = (None, s1)"
  shows "allowed s (Auth r) (Path r)" "good s1"
proof -
  obtain status reason s' where c: "check (Auth r) (Path r) s = ((status, reason), s')" by (metis prod.exhaust)
  with assms have "status = 0" "s' = s1" by (auto simp: admit_def split: if_splits)
  with c check_sound [OF assms(2), of "Auth r" "Path r"] check_good [OF assms(2), of "Auth r" "Path r"]
  show "allowed s (Auth r) (Path r)" "good s1" by simp_all
qed

lemma served_allowed:
  assumes gated: "AuthGate S = Some check"
    and warm_good: "\<And>r s. good s \<Longrightarrow> good (snd (warmPath S r s))"
    and fallback_good: "\<And>fb r rest s. Fallback S = Some fb \<Longrightarrow> good s \<Longrightarrow> good (snd (fb r rest s))"
    and "good s" "k < length (fst (fst (serveConn S inp s)))" "handled (fst (fst (serveConn S inp s)) ! k) = Some r"
  shows "\<exists>t. asked S inp s k t \<and> good t \<and> allowed t (Auth r) (Path r)"
  using assms(4-6)
proof (induction k arbitrary: inp s)
  case 0
  note adm = admit_allowed [OF gated 0(1)]
  show ?case
  proof (cases rule: serveConn_cases [of inp S s])
    case (warm req rest s1 out s2)
    then have "r = req" using 0(3) by (auto split: if_splits prod.splits)
    with adm(1) [OF warm(2)] 0(1) show ?thesis by (blast intro: asked_here)
  next
    case (fallback req rest s1 s2 fb out n okay s3)
    then have "r = req" using 0(3) by (auto split: if_splits prod.splits)
    with adm(1) [OF fallback(2)] 0(1) show ?thesis by (blast intro: asked_here)
  qed (use 0 in auto)
next
  case (Suc k)
  note adm = admit_allowed [OF gated Suc(2)]
  show ?case
  proof (cases rule: serveConn_cases [of inp S s])
    case (warm req rest s1 out s2)
    have "good s2" using warm_good [OF adm(2) [OF warm(2)], of req] warm(3) by simp
    moreover have "k < length (fst (fst (serveConn S rest s2)))" "handled (fst (fst (serveConn S rest s2)) ! k) = Some r"
      using Suc(3,4) warm(4) by (auto split: if_splits prod.splits)
    ultimately have "\<exists>t. asked S rest s2 k t \<and> good t \<and> allowed t (Auth r) (Path r)" by (rule Suc(1))
    then show ?thesis by (blast intro: asked_warm [OF warm(1-3)])
  next
    case (fallback req rest s1 s2 fb out n okay s3)
    have "good s2" using warm_good [OF adm(2) [OF fallback(2)], of req] fallback(3) by simp
    then have "good s3" using fallback_good [OF fallback(4), of s2 req rest] fallback(5) by simp
    moreover have "k < length (fst (fst (serveConn S (drop n rest) s3)))" "handled (fst (fst (serveConn S (drop n rest) s3)) ! k) = Some r"
      using Suc(3,4) fallback(6) by (auto split: if_splits prod.splits)
    ultimately have "\<exists>t. asked S (drop n rest) s3 k t \<and> good t \<and> allowed t (Auth r) (Path r)" by (rule Suc(1))
    then show ?thesis by (blast intro: asked_fallback [OF fallback(1-5)])
  qed (use Suc in auto)
qed

end

interpretation patg: auth_gate gate_check gate_inv permitted
  by unfold_locales (rule gate_check_sound, assumption+, rule gate_inv_check, assumption)

definition gate_moves :: "gate_sys server \<Rightarrow> bool" where
  \<comment> \<open>while the warm path or the fallback answers, the gate only makes steps of its own system\<close>
  "gate_moves S \<longleftrightarrow> (\<forall>r s. gate_step\<^sup>*\<^sup>* s (snd (warmPath S r s))) \<and>
     (\<forall>fb r rest s. Fallback S = Some fb \<longrightarrow> gate_step\<^sup>*\<^sup>* s (snd (fb r rest s)))"

lemma gate_inv_steps: "gate_step\<^sup>*\<^sup>* S T \<Longrightarrow> gate_inv S \<Longrightarrow> gate_inv T"
  by (induction rule: rtranclp_induct) (auto intro: gate_inv_step)


definition gate_server :: "gate_sys server" where
  "gate_server = \<lparr>AuthGate = Some gate_check, RequireAuth = True, warmPath = (\<lambda>req s. (None, s)),
     Fallback = Some (\<lambda>req rest s. ((''ok'', 0, True), s))\<rparr>"

definition gate_lines :: "string list" where
  "gate_lines = [''Host: hub'', ''Authorization: Bearer pulsys_t'']"

definition gate_request :: Request where
  "gate_request = zero_request\<lparr>Method := ''GET'', RequestURI := ''/a'', Path := ''/a'', Host := ''hub'',
     Auth := ''Bearer pulsys_t'', Raw := request_block ''GET /a HTTP/1.1'' gate_lines, KeepAlive := True, HTTP11 := True\<rparr>"

definition gate_db :: authdb where
  "gate_db = empty_db\<lparr>tokens := [\<lparr>tkId = ''1'', tkTenant = ''t'', tkOwner = None, tkName = ''n'', tkPrefix = ''pulsys_'',
     tkHash = TokenHash ''pulsys_t'', tkScopes = [], tkExpires = Some 100, tkRevoked = False, tkDeleted = False\<rparr>]\<rparr>"

lemma gate_demo_parse: "readRequest (request_block ''GET /a HTTP/1.1'' gate_lines) = Inr (gate_request, [])"
proof -
  have g: "list_all good_line (''GET /a HTTP/1.1'' # gate_lines)" by (simp add: good_line_def gate_lines_def)
  have "parse_lines ''GET /a HTTP/1.1'' gate_lines (zero_request\<lparr>Raw := x\<rparr>) =
      Inr (zero_request\<lparr>Method := ''GET'', RequestURI := ''/a'', Path := ''/a'', Host := ''hub'',
       Auth := ''Bearer pulsys_t'', Raw := x, KeepAlive := True, HTTP11 := True\<rparr>)" for x
    by code_simp
  with g show ?thesis
    unfolding readRequest_iff gate_request_def
    by (intro exI [of _ "''GET /a HTTP/1.1''"] exI [of _ gate_lines])
      (simp add: small_block_def request_block_def gate_lines_def headerScratchSize_def)
qed

lemma gate_demo_check: "admit gate_server gate_request (gate_start 0 5 gate_db) =
    (None, (gate_start 0 5 gate_db)\<lparr>gate := \<lparr>PositiveTTL = 0, pcache = [TokenHash ''pulsys_t'' \<mapsto> 60000000005]\<rparr>\<rparr>)"
proof -
  have "bearerFromBytes ''Bearer pulsys_t'' = Some ''pulsys_t''" "IsPAT ''pulsys_t''" by code_simp+
  then show ?thesis
    by (simp add: admit_def gate_server_def gate_request_def gate_check_def Check_def open_path_def lookupCached_def gate_start_def
      LookupAPIToken_def first_row_def gate_db_def live_token_def storeCached_def positiveTTL_def)
qed


end
