(* ===== verification/Gate_Race.thy ===== *)
theory Gate_Race
  imports Auth_Gate
begin

text \<open>
  Checks and revocations that overlap. The gate of \<open>internal/auth/proxygate.go\<close> holds its mutex only inside
  \<open>lookupCached\<close>, \<open>storeCached\<close> and \<open>InvalidateByHash\<close>, and reads the database between the first two, so the
  statements of concurrent checks and of the revoke handler (\<open>internal/admin/api/handler.go\<close>: update the
  row, then invalidate) interleave. Here every such critical section is a step of its own, checks that have
  read the database and not yet stored their answer are part of the state, and a step that lets a request pass is
  labelled with its token. It is shown when a revocation takes effect, and that it need not do so at once.
\<close>

record race =
  rgate :: patgate
  rdb :: authdb
  rnow :: int
  pending :: "string list"       \<comment> \<open>tokens of the checks between \<open>LookupAPIToken\<close> and \<open>storeCached\<close>\<close>
  revoking :: "string list"      \<comment> \<open>hashes of the revocations between \<open>RevokeToken\<close> and \<open>InvalidateByHash\<close>\<close>

inductive race_step :: "race \<Rightarrow> string option \<Rightarrow> race \<Rightarrow> bool" where
  rs_hit: "lookupCached (rnow S) tok (rgate S) = (True, g) \<Longrightarrow> race_step S (Some tok) (S\<lparr>rgate := g\<rparr>)"
| rs_read: "lookupCached (rnow S) tok (rgate S) = (False, g) \<Longrightarrow> LookupAPIToken d (rnow S) tok (rdb S) = Inr r \<Longrightarrow>
    race_step S None (S\<lparr>rgate := g, pending := tok # pending S\<rparr>)"
| rs_deny: "lookupCached (rnow S) tok (rgate S) = (False, g) \<Longrightarrow> LookupAPIToken d (rnow S) tok (rdb S) = Inl e \<Longrightarrow>
    race_step S None (S\<lparr>rgate := g\<rparr>)"
| rs_store: "tok \<in> set (pending S) \<Longrightarrow>
    race_step S (Some tok) (S\<lparr>rgate := storeCached (rnow S) tok (rgate S), pending := remove1 tok (pending S)\<rparr>)"
| rs_tick: "0 \<le> dt \<Longrightarrow> race_step S None (S\<lparr>rnow := rnow S + dt\<rparr>)"
| rs_create: "CreateToken d i ten own n p h scs e (rdb S) = (Inr t, db) \<Longrightarrow> h \<notin> tkHash ` {t \<in> set (tokens (rdb S)). \<not> tkDeleted t} \<Longrightarrow>
    race_step S None (S\<lparr>rdb := db\<rparr>)"
| rs_revoke: "RevokeToken d ten i (rdb S) = (Inr (h, again), db) \<Longrightarrow> race_step S None (S\<lparr>rdb := db, revoking := h # revoking S\<rparr>)"
| rs_drop: "h \<in> set (revoking S) \<Longrightarrow>
    race_step S None (S\<lparr>rgate := InvalidateByHash h (rgate S), revoking := remove1 h (revoking S)\<rparr>)"

inductive race_run :: "race \<Rightarrow> string list \<Rightarrow> race \<Rightarrow> bool" where
  \<comment> \<open>with the tokens let pass, in order\<close>
  rr_refl: "race_run S [] S"
| rr_step: "race_run S ps T \<Longrightarrow> race_step T p U \<Longrightarrow> race_run S (ps @ (case p of None \<Rightarrow> [] | Some tok \<Rightarrow> [tok])) U"

definition race_start :: "int \<Rightarrow> int \<Rightarrow> authdb \<Rightarrow> race" where
  "race_start ttl now db = \<lparr>rgate = \<lparr>PositiveTTL = ttl, pcache = Map.empty\<rparr>, rdb = db, rnow = now, pending = [], revoking = []\<rparr>"

definition hash_uniq :: "authdb \<Rightarrow> bool" where
  \<comment> \<open>the unique index \<open>tokens_hash_uq\<close>\<close>
  "hash_uniq db \<longleftrightarrow> distinct (map tkHash (filter (\<lambda>t. \<not> tkDeleted t) (tokens db)))"

definition dead_hash :: "string \<Rightarrow> authdb \<Rightarrow> bool" where
  "dead_hash h db \<longleftrightarrow> (\<exists>t \<in> set (tokens db). tkHash t = h \<and> \<not> tkDeleted t) \<and>
     (\<forall>t \<in> set (tokens db). tkHash t = h \<and> \<not> tkDeleted t \<longrightarrow> tkRevoked t)"

lemma update_rows_hash:
  "(\<And>r. tkHash (f r) = tkHash r \<and> tkDeleted (f r) = tkDeleted r) \<Longrightarrow>
   map tkHash (filter (\<lambda>t. \<not> tkDeleted t) (update_rows p f rows)) = map tkHash (filter (\<lambda>t. \<not> tkDeleted t) rows)"
  by (induction rows) (auto simp: update_rows_def)

lemma hash_uniq_revoke: "RevokeToken d ten i db = (res, db') \<Longrightarrow> hash_uniq db \<Longrightarrow> hash_uniq db'"
  by (auto simp: RevokeToken_def hash_uniq_def update_rows_hash Let_def split: if_splits option.splits)

lemma hash_uniq_step: "race_step S p T \<Longrightarrow> hash_uniq (rdb S) \<Longrightarrow> hash_uniq (rdb T)"
proof (induction rule: race_step.induct)
  case (rs_create d i ten own n p h scs e S t db)
  then show ?case by (auto simp: CreateToken_def Let_def hash_uniq_def split: if_splits)
qed (simp_all add: hash_uniq_revoke)

lemma hash_uniq_same:
  assumes "hash_uniq db" "t \<in> set (tokens db)" "u \<in> set (tokens db)" "tkHash t = tkHash u" "\<not> tkDeleted t" "\<not> tkDeleted u"
  shows "t = u"
proof -
  have "inj_on tkHash (set (filter (\<lambda>t. \<not> tkDeleted t) (tokens db)))"
    using assms(1) by (simp add: hash_uniq_def distinct_map)
  with assms show ?thesis by (auto dest: inj_onD)
qed

lemma revoke_kills:
  assumes "hash_uniq db" "RevokeToken d ten i db = (Inr (h, again), db')"
  shows "dead_hash h db'"
proof -
  let ?act = "\<lambda>t. tkId t = i \<and> tkTenant t = ten \<and> \<not> tkDeleted t \<and> \<not> tkRevoked t"
  show ?thesis
  proof (cases "first_row ?act (tokens db)")
    case None
    with assms(2) obtain t where t: "first_row (\<lambda>t. tkId t = i \<and> tkTenant t = ten \<and> \<not> tkDeleted t) (tokens db) = Some t" "h = tkHash t" "db' = db"
      by (auto simp: RevokeToken_def Let_def split: if_splits option.splits)
    from first_row_Some [OF t(1)] None have "t \<in> set (tokens db)" "\<not> tkDeleted t" "tkRevoked t" by (auto simp: first_row_None)
    then show ?thesis using hash_uniq_same [OF assms(1)] t by (auto simp: dead_hash_def)
  next
    case (Some t)
    with assms(2) have h: "h = tkHash t" "tokens db' = update_rows ?act (\<lambda>t. t\<lparr>tkRevoked := True\<rparr>) (tokens db)"
      by (auto simp: RevokeToken_def Let_def split: if_splits)
    from first_row_Some [OF Some] have t: "t \<in> set (tokens db)" "?act t" by auto
    have "t\<lparr>tkRevoked := True\<rparr> \<in> set (tokens db')" using t by (force simp: h(2) update_rows_def)
    moreover have "tkRevoked u" if u: "u \<in> set (tokens db')" "tkHash u = h" "\<not> tkDeleted u" for u
    proof -
      from u(1) obtain v where v: "v \<in> set (tokens db)" "u = (if ?act v then v\<lparr>tkRevoked := True\<rparr> else v)"
        by (auto simp: h(2) update_rows_def)
      have "tkHash v = h" "\<not> tkDeleted v" using u v(2) by (auto split: if_splits)
      then have "v = t" using hash_uniq_same [OF assms(1) v(1) t(1)] t(2) h(1) by simp
      with v(2) t(2) show ?thesis by simp
    qed
    ultimately show ?thesis using t(2) h(1) unfolding dead_hash_def
      by (intro conjI bexI [of _ "t\<lparr>tkRevoked := True\<rparr>"]) auto
  qed
qed

lemma dead_stays: "race_step S p T \<Longrightarrow> dead_hash h (rdb S) \<Longrightarrow> dead_hash h (rdb T)"
proof (induction rule: race_step.induct)
  case (rs_create d i ten own n p h' scs e S t db)
  then show ?case by (auto simp: CreateToken_def dead_hash_def Let_def split: if_splits)
next
  case (rs_revoke d ten i S h' again db)
  then show ?case
    by (fastforce simp: RevokeToken_def dead_hash_def Let_def update_rows_def split: if_splits option.splits)
qed auto

lemma dead_denied: "dead_hash (TokenHash tok) db \<Longrightarrow> LookupAPIToken d now tok db \<noteq> Inr r"
  by (auto simp: LookupAPIToken_def dead_hash_def live_token_def split: option.splits dest!: first_row_Some)

definition fresh_cache :: "race \<Rightarrow> bool" where
  \<comment> \<open>no cached answer outlives the time to live, counted from now\<close>
  "fresh_cache S \<longleftrightarrow> (\<forall>h e. pcache (rgate S) h = Some e \<longrightarrow> e \<le> rnow S + positiveTTL (rgate S))"

lemma lookup_cache: "lookupCached now tok g = (b, g') \<Longrightarrow>
    PositiveTTL g' = PositiveTTL g \<and> (\<forall>h e. pcache g' h = Some e \<longrightarrow> pcache g h = Some e)"
  by (auto simp: lookupCached_def split: option.splits if_splits)

lemma ttl_step: "race_step S p T \<Longrightarrow> positiveTTL (rgate T) = positiveTTL (rgate S) \<and> rnow S \<le> rnow T"
  by (induction rule: race_step.induct) (auto simp: positiveTTL_def storeCached_def InvalidateByHash_def dest: lookup_cache)

lemma fresh_lookup: "lookupCached (rnow S) tok (rgate S) = (b, g) \<Longrightarrow> fresh_cache S \<Longrightarrow> fresh_cache (S\<lparr>rgate := g\<rparr>)"
proof -
  assume l: "lookupCached (rnow S) tok (rgate S) = (b, g)" and f: "fresh_cache S"
  from lookup_cache [OF l] have "positiveTTL g = positiveTTL (rgate S)" "\<And>h e. pcache g h = Some e \<Longrightarrow> pcache (rgate S) h = Some e"
    by (simp_all add: positiveTTL_def)
  with f show ?thesis by (simp add: fresh_cache_def) blast
qed

lemma fresh_step: "race_step S p T \<Longrightarrow> fresh_cache S \<Longrightarrow> fresh_cache T"
proof (induction rule: race_step.induct)
  case (rs_tick dt S)
  then show ?case by (fastforce simp: fresh_cache_def)
next
  case (rs_hit S tok g)
  then show ?case by (auto intro: fresh_lookup)
next
  case (rs_read S tok g d r)
  then show ?case using fresh_lookup [OF rs_read(1,3)] by (simp add: fresh_cache_def)
next
  case (rs_deny S tok g d e)
  then show ?case by (auto intro: fresh_lookup)
qed (auto simp: fresh_cache_def positiveTTL_def storeCached_def InvalidateByHash_def)

definition revoked_by :: "string \<Rightarrow> int \<Rightarrow> bool \<Rightarrow> race \<Rightarrow> bool" where
  \<comment> \<open>no row of the hash is alive, no check of it is under way, and a cached answer, if any is left, ends in time\<close>
  "revoked_by h t gone S \<longleftrightarrow> dead_hash h (rdb S) \<and> (\<forall>tok \<in> set (pending S). TokenHash tok \<noteq> h) \<and>
     (case pcache (rgate S) h of None \<Rightarrow> True | Some e \<Rightarrow> \<not> gone \<and> e \<le> t)"

lemma revoked_step:
  assumes "race_step S p T" "revoked_by h t gone S"
  shows "revoked_by h t gone T"
  using assms
proof (induction rule: race_step.induct)
  case (rs_read S tok g d r)
  then show ?case using dead_denied [of tok "rdb S" d "rnow S" r]
    by (auto simp: revoked_by_def lookupCached_def split: option.splits if_splits)
next
  case (rs_create d i ten own n p h' scs e S u db)
  then have "dead_hash h db" using dead_stays [OF race_step.rs_create [OF rs_create(1,2)]] by (simp add: revoked_by_def)
  with rs_create(3) show ?case by (simp add: revoked_by_def)
next
  case (rs_revoke d ten i S h' again db)
  then have "dead_hash h db" using dead_stays [OF race_step.rs_revoke [OF rs_revoke(1)]] by (simp add: revoked_by_def)
  with rs_revoke(2) show ?case by (simp add: revoked_by_def)
next
  case (rs_store tok S)
  then show ?case by (auto simp: revoked_by_def storeCached_def dest: notin_set_remove1 split: option.splits)
qed (auto simp: revoked_by_def lookupCached_def InvalidateByHash_def split: option.splits if_splits)

lemma revoked_passes:
  assumes "race_step S (Some tok) T" "revoked_by h t gone S" "TokenHash tok = h"
  shows "\<not> gone \<and> rnow S \<le> t"
  using assms by cases (auto simp: revoked_by_def lookupCached_def split: option.splits if_splits)

lemma race_run_invariant:
  assumes "race_run S ps T" "I S" "\<And>S p T. race_step S p T \<Longrightarrow> I S \<Longrightarrow> I T"
  shows "I T"
  using assms(1,2) by (induction rule: race_run.induct) (auto intro: assms(3))

lemma revoked_run:
  assumes "race_run S ps T" "revoked_by h t gone S"
  shows "(gone \<longrightarrow> h \<notin> TokenHash ` set ps) \<and> (t < rnow S \<longrightarrow> h \<notin> TokenHash ` set ps) \<and> revoked_by h t gone T \<and> rnow S \<le> rnow T"
  using assms
proof (induction rule: race_run.induct)
  case (rr_step S ps T p U)
  then have "revoked_by h t gone T" by simp
  from revoked_step [OF rr_step(2) this] revoked_passes [OF _ this, of _ U] rr_step ttl_step [OF rr_step(2)]
  show ?case by (cases p) force+
qed simp

text \<open>C19: when a revocation takes effect, with checks and revocations overlapping in any way. Let the statement of \<open>RevokeToken\<close> have marked a token,
  and take any later moment at which the checks of this token that had read its row before have finished. If the handler's
  invalidation has emptied the cache entry by then, the token is never let pass again; in any case it is not let
  pass once the time to live of the cache has gone by, even if the invalidation never happens.\<close>

theorem revocation_effective:
  assumes "hash_uniq db" "race_run (race_start ttl now db) ps S" "RevokeToken d ten i (rdb S) = (Inr (h, again), db')"
    "race_run (S\<lparr>rdb := db', revoking := h # revoking S\<rparr>) qs T" "h \<notin> TokenHash ` set (pending T)"
    "race_run T rs U" "pcache (rgate T) h = None \<or> rnow T + positiveTTL (rgate T) < rnow U" "race_run U us W"
  shows "h \<notin> TokenHash ` set us"
proof -
  have S: "fresh_cache S" "hash_uniq (rdb S)"
    using race_run_invariant [OF assms(2), of fresh_cache] race_run_invariant [OF assms(2), of "hash_uniq \<circ> rdb"] assms(1)
      fresh_step hash_uniq_step by (auto simp: race_start_def fresh_cache_def)
  let ?S = "S\<lparr>rdb := db', revoking := h # revoking S\<rparr>"
  have "fresh_cache ?S" "dead_hash h (rdb ?S)" using S revoke_kills [OF S(2) assms(3)] by (auto simp: fresh_cache_def)
  then have "fresh_cache T" "dead_hash h (rdb T)"
    using race_run_invariant [OF assms(4), of fresh_cache] race_run_invariant [OF assms(4), of "dead_hash h \<circ> rdb"] fresh_step dead_stays by auto
  then have "revoked_by h (rnow T + positiveTTL (rgate T)) (pcache (rgate T) h = None) T"
    using assms(5) by (auto simp: revoked_by_def fresh_cache_def split: option.splits)
  note U = revoked_run [OF assms(6) this]
  then have "revoked_by h (rnow T + positiveTTL (rgate T)) (pcache (rgate T) h = None) U" by simp
  from revoked_run [OF assms(8) this] assms(7) show ?thesis by auto
qed

theorem revocation_effective_witness:
  "let S = race_start 0 5 gate_db; h = TokenHash ''pulsys_t'';
       T = S\<lparr>rdb := snd (RevokeToken (False, False) ''t'' ''1'' gate_db), rgate := InvalidateByHash h (rgate S)\<rparr>
   in fst (RevokeToken (False, False) ''t'' ''1'' gate_db) = Inr (h, False) \<and> race_run T [] T \<and> h \<notin> TokenHash ` set []"
proof -
  define h db' where "h = TokenHash ''pulsys_t''" and "db' = snd (RevokeToken (False, False) ''t'' ''1'' gate_db)"
  let ?S = "race_start 0 5 gate_db"
  let ?R = "?S\<lparr>rdb := db', revoking := h # revoking ?S\<rparr>"
  let ?T = "?R\<lparr>rgate := InvalidateByHash h (rgate ?R), revoking := remove1 h (revoking ?R)\<rparr>"
  have r: "RevokeToken (False, False) ''t'' ''1'' (rdb ?S) = (Inr (h, False), db')"
    by (simp add: db'_def h_def RevokeToken_def gate_db_def first_row_def race_start_def Let_def)
  have "race_run ?R ([] @ (case None of None \<Rightarrow> [] | Some tok \<Rightarrow> [tok])) ?T"
    by (rule rr_step [OF rr_refl rs_drop]) simp
  then have "race_run ?R [] ?T" by simp
  moreover have "hash_uniq gate_db" "h \<notin> TokenHash ` set (pending ?T)" "pcache (rgate ?T) h = None"
    by (simp_all add: hash_uniq_def gate_db_def race_start_def InvalidateByHash_def)
  ultimately have "h \<notin> TokenHash ` set []"
    using revocation_effective [OF _ rr_refl r _ _ rr_refl _ rr_refl] by blast
  moreover have "?T = ?S\<lparr>rdb := db', rgate := InvalidateByHash h (rgate ?S)\<rparr>" by (simp add: race_start_def)
  ultimately show ?thesis using r unfolding Let_def h_def [symmetric] db'_def [symmetric]
    by (simp add: race_start_def rr_refl)
qed

lemma Check_race:
  \<comment> \<open>a check that meets no other thread is a run of these steps\<close>
  assumes "Check d (rnow S) (rdb S) auth path (rgate S) = ((0, why), g)" "\<not> open_path path"
  shows "\<exists>tok. bearerFromBytes auth = Some tok \<and> race_run S [tok] (S\<lparr>rgate := g\<rparr>)"
proof -
  obtain tok where tok: "bearerFromBytes auth = Some tok" "IsPAT tok"
    using assms by (auto simp: Check_def split: option.splits if_splits)
  obtain b g1 where l: "lookupCached (rnow S) tok (rgate S) = (b, g1)" by fastforce
  show ?thesis
  proof (cases b)
    case True
    with l rr_step [OF rr_refl rs_hit] assms tok show ?thesis by (fastforce simp: Check_def)
  next
    case False
    then obtain r where r: "LookupAPIToken d (rnow S) tok (rdb S) = Inr r" "g = storeCached (rnow S) tok g1"
      using l assms tok by (auto simp: Check_def split: sum.splits)
    let ?M = "S\<lparr>rgate := g1, pending := tok # pending S\<rparr>"
    have "race_run S ([] @ (case None of None \<Rightarrow> [] | Some tok \<Rightarrow> [tok])) ?M"
      by (rule rr_step [OF rr_refl rs_read]) (use l False r in auto)
    from rr_step [OF this rs_store [of tok]] r(2) tok(1) show ?thesis by auto
  qed
qed

lemma revocation_race:
  \<comment> \<open>a check that read the row before the revocation stores its answer after the invalidation: later requests pass, although the revoke handler has answered\<close>
  assumes "h = TokenHash ''pulsys_t''" "S = race_start 0 5 gate_db"
  shows "\<exists>T U W. race_run S [] T \<and> revoking T = [] \<and> dead_hash h (rdb T) \<and> pcache (rgate T) h = None \<and>
    race_run T [''pulsys_t''] U \<and> race_run U [''pulsys_t''] W"
proof -
  have g: "rgate S = \<lparr>PositiveTTL = 0, pcache = Map.empty\<rparr>" "rdb S = gate_db" "rnow S = 5" "pending S = []" "revoking S = []"
    by (simp_all add: assms(2) race_start_def)
  obtain r where r: "LookupAPIToken False 5 ''pulsys_t'' gate_db = Inr r"
    by (simp add: LookupAPIToken_def IsPAT_def patPrefix_def gate_db_def first_row_def live_token_def)
  obtain db' where v: "RevokeToken (False, False) ''t'' ''1'' gate_db = (Inr (h, False), db')"
    by (simp add: RevokeToken_def gate_db_def first_row_def Let_def assms(1))
  have dead: "dead_hash h db'" by (rule revoke_kills [OF _ v]) (simp add: hash_uniq_def gate_db_def)
  let ?A = "S\<lparr>rgate := rgate S, pending := [''pulsys_t'']\<rparr>"
  let ?B = "?A\<lparr>rdb := db', revoking := [h]\<rparr>"
  let ?T = "?B\<lparr>rgate := InvalidateByHash h (rgate ?B), revoking := []\<rparr>"
  let ?U = "?T\<lparr>rgate := storeCached 5 ''pulsys_t'' (rgate ?T), pending := []\<rparr>"
  have "race_step S None ?A" using rs_read [of S "''pulsys_t''" "rgate S" False r] g r by (simp add: lookupCached_def)
  moreover have "race_step ?A None ?B" using rs_revoke [of "(False, False)" "''t''" "''1''" ?A h False db'] g v by simp
  moreover have "race_step ?B None ?T" using rs_drop [of h ?B] by simp
  ultimately have T: "race_run S [] ?T"
    using rr_step [OF rr_step [OF rr_step [OF rr_refl]], of S None ?A None ?B None ?T] by simp
  have "race_step ?T (Some ''pulsys_t'') ?U" using rs_store [of "''pulsys_t''" ?T] g by simp
  then have U: "race_run ?T [''pulsys_t''] ?U" using rr_step [OF rr_refl] by fastforce
  have "lookupCached (rnow ?U) ''pulsys_t'' (rgate ?U) = (True, rgate ?U)"
    using g by (simp add: lookupCached_def storeCached_def positiveTTL_def InvalidateByHash_def)
  then have "race_step ?U (Some ''pulsys_t'') (?U\<lparr>rgate := rgate ?U\<rparr>)" by (rule rs_hit)
  then have "race_run ?U [''pulsys_t''] (?U\<lparr>rgate := rgate ?U\<rparr>)" using rr_step [OF rr_refl] by fastforce
  moreover have "pcache (rgate ?T) h = None" "revoking ?T = []" "dead_hash h (rdb ?T)"
    using g dead by (simp_all add: InvalidateByHash_def)
  ultimately show ?thesis using T U by blast
qed

end
