(* ===== verification/Admin_Models.thy ===== *)
theory Admin_Models
  imports Store_Sys
begin

text \<open>
  The model inventory of \<open>internal/admin/models/cache.go\<close> and the purge of a model by
  \<open>purgeCacheByPrefix\<close> of \<open>internal/admin/api/handler.go\<close>: which model a cache entry belongs to, the two listings,
  and what a purge does to entries that several models share. Go maps are association lists in order of insertion;
  where the code iterates over one to build an unsorted result, the model keeps that order.
\<close>

subsection \<open>Attribution\<close>

definition drop_kind :: "string list \<Rightarrow> string list \<Rightarrow> string list" where
  "drop_kind kinds parts = (case parts of p # ps \<Rightarrow> if p \<in> set kinds then ps else parts | [] \<Rightarrow> [])"

definition ParseHFModelPath :: "string \<Rightarrow> (string \<times> string \<times> string) option" where
  "ParseHFModelPath p =
     (let parts = split_on (CHR ''/'') (trim_prefix p ''/'')
      in if length parts \<ge> 3 \<and> parts ! 0 = ''api'' \<and> parts ! 1 = ''resolve-cache'' then
           (let parts1 = drop_kind [''models'', ''datasets'', ''spaces''] (drop 2 parts)
            in if length parts1 < 4 then None else Some (parts1 ! 0, parts1 ! 1, parts1 ! 2))
         else
           (let parts1 = drop_kind [''datasets'', ''spaces''] parts
            in if length parts1 < 5 \<or> parts1 ! 2 \<noteq> ''resolve'' then None
               else Some (parts1 ! 0, parts1 ! 1, parts1 ! 3)))"

definition attributionPath :: "Meta \<Rightarrow> string" where
  "attributionPath m =
     (if OriginPath m \<noteq> [] then OriginPath m
      else case filter (\<lambda>op. op \<noteq> []) (OriginPaths m) of op # _ \<Rightarrow> op | [] \<Rightarrow> MPath m)"

definition PrimaryAttribution :: "Meta \<Rightarrow> (string \<times> string \<times> string) option" where
  "PrimaryAttribution m =
     (case (if OriginPath m \<noteq> [] then ParseHFModelPath (OriginPath m) else None) of
        Some r \<Rightarrow> Some r
      | None \<Rightarrow> (case List.map_filter ParseHFModelPath (OriginPaths m) of
                   r # _ \<Rightarrow> Some r
                 | [] \<Rightarrow> ParseHFModelPath (MPath m)))"

definition matches :: "string \<Rightarrow> string \<Rightarrow> string \<Rightarrow> bool" where
  "matches p org name \<longleftrightarrow> p \<noteq> [] \<and> (case ParseHFModelPath p of Some (o', n, _) \<Rightarrow> o' = org \<and> n = name | None \<Rightarrow> False)"

definition OwnedBy :: "Meta \<Rightarrow> string \<Rightarrow> string \<Rightarrow> bool" where
  "OwnedBy m org name \<longleftrightarrow>
     matches (OriginPath m) org name \<or> list_ex (\<lambda>op. matches op org name) (OriginPaths m) \<or> matches (MPath m) org name"

definition RemoveOwner :: "Meta \<Rightarrow> string \<Rightarrow> string \<Rightarrow> Meta" where
  "RemoveOwner m org name =
     (let ops = filter (\<lambda>op. \<not> matches op org name) (OriginPaths m);
          out = m\<lparr>OriginPaths := ops\<rparr>
      in if matches (OriginPath m) org name
         then out\<lparr>OriginPath := (case ops of op # _ \<Rightarrow> op | [] \<Rightarrow> [])\<rparr> else out)"

definition HasAnyOwner :: "Meta \<Rightarrow> bool" where
  "HasAnyOwner m \<longleftrightarrow>
     OriginPath m \<noteq> [] \<and> ParseHFModelPath (OriginPath m) \<noteq> None \<or>
     list_ex (\<lambda>op. ParseHFModelPath op \<noteq> None) (OriginPaths m)"

subsection \<open>Listings\<close>

record CachedModel =
  cmPath :: string
  cmHost :: string
  cmStatus :: int
  cmTotal :: "int option"

record ModelGroup =
  gOrg :: string
  gName :: string
  gUpstream :: string
  Revisions :: "string list"
  FileCount :: int
  TotalBytes :: int
  Files :: "CachedModel list"

definition clamp_entries :: "int \<Rightarrow> int" where
  "clamp_entries n = (if n \<le> 0 \<or> n > 5000 then 500 else n)"

definition cached_model :: "string \<Rightarrow> Meta \<Rightarrow> CachedModel" where
  "cached_model p m = \<lparr>cmPath = p, cmHost = UpstreamHost m, cmStatus = StatusCode m, cmTotal = Total m\<rparr>"

fun list_loop :: "io \<Rightarrow> store \<Rightarrow> nat \<Rightarrow> string list \<Rightarrow> (string \<times> CachedModel) list \<Rightarrow> (string \<times> CachedModel) list" where
  "list_loop io s mx [] seen = seen"
| "list_loop io s mx (k # ks) seen =
     (case readMeta io k s of
        Inr (Some m) \<Rightarrow>
          if MPath m = [] \<or> CHR ''/'' \<notin> set (MPath m) then list_loop io s mx ks seen
          else let key = UpstreamHost m @ ''|'' @ MPath m
               in if map_of seen key \<noteq> None then list_loop io s mx ks seen
                  else let seen1 = seen @ [(key, cached_model (MPath m) m)]
                       in if length seen1 \<ge> mx then seen1 else list_loop io s mx ks seen1
      | _ \<Rightarrow> list_loop io s mx ks seen)"

definition ListFromCache :: "io \<Rightarrow> int \<Rightarrow> store \<Rightarrow> CachedModel list option" where
  \<comment> \<open>\<open>None\<close>: the directory cannot be read\<close>
  "ListFromCache io maxEntries s =
     (if fails io ReadDir then None
      else Some (map snd (list_loop io s (nat (clamp_entries maxEntries)) (sort (map fst (disk s))) [])))"

record grouping =
  groups :: "((string \<times> string) \<times> ModelGroup) list"
  revSets :: "(string \<times> string) \<Rightarrow> string list"
  seenFiles :: "string list"
  grandTotal :: int

definition base_name :: "string \<Rightarrow> string" where
  "base_name p = (case last_index_byte p (CHR ''/'') of Some i \<Rightarrow> drop (i + 1) p | None \<Rightarrow> p)"

definition group_entry :: "bool \<Rightarrow> Meta \<Rightarrow> grouping \<Rightarrow> grouping" where
  \<comment> \<open>the body of the loop after the scan limit\<close>
  "group_entry includeFiles m G =
     (if StatusCode m < 200 \<or> StatusCode m \<ge> 300 then G
      else case ParseHFModelPath (attributionPath m) of
        None \<Rightarrow> G
      | Some (org, name, rv) \<Rightarrow>
          let fileBytes = (case Total m of None \<Rightarrow> 0 | Some t \<Rightarrow> t);
              base = base_name (attributionPath m);
              dedupeKey = org @ ''|'' @ name @ ''|'' @ rv @ ''|'' @ base
          in if dedupeKey \<in> set (seenFiles G) then G
             else let g = (case map_of (groups G) (org, name) of
                             Some g \<Rightarrow> g
                           | None \<Rightarrow> \<lparr>gOrg = org, gName = name, gUpstream = UpstreamHost m, Revisions = [],
                                       FileCount = 0, TotalBytes = 0, Files = []\<rparr>);
                      g1 = g\<lparr>FileCount := FileCount g + 1, TotalBytes := wrap64 (TotalBytes g + fileBytes),
                             Files := (if includeFiles then Files g @ [cached_model base m] else Files g)\<rparr>
                  in \<lparr>groups = AList.update (org, name) g1 (groups G),
                      revSets = (revSets G)((org, name) := List.insert rv (revSets G (org, name))),
                      seenFiles = dedupeKey # seenFiles G,
                      grandTotal = wrap64 (grandTotal G + fileBytes)\<rparr>)"

fun group_loop :: "io \<Rightarrow> store \<Rightarrow> bool \<Rightarrow> int \<Rightarrow> string list \<Rightarrow> int \<Rightarrow> grouping \<Rightarrow> grouping" where
  "group_loop io s includeFiles mx [] scanned G = G"
| "group_loop io s includeFiles mx (k # ks) scanned G =
     (case readMeta io k s of
        Inr (Some m) \<Rightarrow>
          if MPath m = [] then group_loop io s includeFiles mx ks scanned G
          else if scanned + 1 > mx then G
          else group_loop io s includeFiles mx ks (scanned + 1) (group_entry includeFiles m G)
      | _ \<Rightarrow> group_loop io s includeFiles mx ks scanned G)"

definition finish_group :: "bool \<Rightarrow> grouping \<Rightarrow> (string \<times> string) \<times> ModelGroup \<Rightarrow> ModelGroup" where
  "finish_group includeFiles G e =
     (snd e)\<lparr>Revisions := sort (revSets G (fst e)),
             Files := (if includeFiles then sort_key cmPath (Files (snd e)) else Files (snd e))\<rparr>"

definition ListGroupedFromCache :: "io \<Rightarrow> int \<Rightarrow> bool \<Rightarrow> store \<Rightarrow> (ModelGroup list \<times> int) option" where
  \<comment> \<open>largest first, then by organisation and name\<close>
  "ListGroupedFromCache io maxEntries includeFiles s =
     (if fails io ReadDir then None
      else let G = group_loop io s includeFiles (clamp_entries maxEntries) (sort (map fst (disk s))) 0
                     \<lparr>groups = [], revSets = (\<lambda>_. []), seenFiles = [], grandTotal = 0\<rparr>
           in Some (sort_key (\<lambda>g. - TotalBytes g) (sort_key gOrg (sort_key gName (map (finish_group includeFiles G) (groups G)))), grandTotal G))"

subsection \<open>Purging a model\<close>

definition purge_decide :: "string \<Rightarrow> string \<Rightarrow> string \<Rightarrow> Meta \<Rightarrow> PurgeDecision \<times> Meta option" where
  "purge_decide org name key m =
     (if \<not> OwnedBy m org name then (DecisionKeep, None)
      else let trimmed = RemoveOwner m org name
           in if \<not> HasAnyOwner trimmed then (DecisionRemove, None) else (DecisionTrim, Some trimmed))"

definition after_decision :: "PurgeDecision \<times> Meta option \<Rightarrow> Meta \<Rightarrow> Meta option" where
  "after_decision d m = (case d of (DecisionKeep, _) \<Rightarrow> Some m | (DecisionTrim, t) \<Rightarrow> t | (DecisionRemove, _) \<Rightarrow> None)"

lemma purge_loop_exact:
  assumes "quiet io" "trims_ok decide" "\<And>k m. fst (decide k m) = DecisionTrim \<Longrightarrow> snd (decide k m) \<noteq> None"
  shows "acct s \<Longrightarrow> coh s \<Longrightarrow> distinct ks \<Longrightarrow> purge_loop io decide ks res s = (None, res', s') \<Longrightarrow>
    disk_meta s' k = (if k \<in> set ks then Option.bind (disk_meta s k) (\<lambda>m. after_decision (decide k m) m) else disk_meta s k) \<and>
    disk_body s' k = (if k \<in> set ks \<and> (\<exists>m. disk_meta s k = Some m \<and> fst (decide k m) = DecisionRemove) then None else disk_body s k)"
proof (induction ks arbitrary: res s)
  case (Cons k' ks)
  have rd: "readMeta io k' s = Inr (Some m) \<longleftrightarrow> disk_meta s k' = Some m" for m
    using readMeta_iff assms(1) by (simp add: quiet_def)
  show ?case
  proof (cases "disk_meta s k'")
    case None
    with rd have "\<nexists>m. readMeta io k' s = Inr (Some m)" by simp
    then have "purge_loop io decide ks res s = (None, res', s')"
      using Cons.prems(4) by (auto split: sum.splits option.splits)
    with Cons None show ?thesis by auto
  next
    case (Some m)
    then have m: "readMeta io k' s = Inr (Some m)" by (simp add: rd)
    obtain d t where dec: "decide k' m = (d, t)" by fastforce
    obtain e1 r1 s1 where act: "(case decide k' m of (DecisionKeep, _) \<Rightarrow> (None, res, s)
        | (DecisionTrim, trimmed) \<Rightarrow> trimObject io k' trimmed res s
        | (DecisionRemove, _) \<Rightarrow> removeObject io k' m res s) = (e1, r1, s1)" by (metis prod.exhaust)
    with Cons.prems(4) m have e1: "e1 = None" and rest: "purge_loop io decide ks r1 s1 = (None, res', s')"
      by (auto split: option.splits)
    have s1: "acct s1 \<and> coh s1 \<and> disk_meta s1 = (disk_meta s)(k' := after_decision (decide k' m) m) \<and>
      disk_body s1 = (if d = DecisionRemove then (disk_body s)(k' := None) else disk_body s)"
    proof (cases d)
      case DecisionKeep
      with act dec Cons.prems(1,2) Some show ?thesis by (auto simp: after_decision_def)
    next
      case DecisionTrim
      with assms(3) [of k' m] dec obtain u where u: "t = Some u" by auto
      with assms(2) dec DecisionTrim have "same_entry m u" by (simp add: trims_ok_def)
      with trimObject_effect [OF Cons.prems(1,2) Some, of u io res e1 r1 s1] act dec DecisionTrim u e1
      show ?thesis by (simp add: after_decision_def)
    next
      case DecisionRemove
      with removeObject_effect [OF Cons.prems(1,2) assms(1) Some, of res e1 r1 s1] act dec
      show ?thesis by (simp add: after_decision_def)
    qed
    with Cons.IH [of s1 r1] rest Cons.prems(3) Some dec show ?thesis by auto
  qed
qed simp

lemma purge_decide_props:
  "trims_ok (purge_decide org name)" "fst (purge_decide org name k m) = DecisionTrim \<Longrightarrow> snd (purge_decide org name k m) \<noteq> None"
  by (auto simp: trims_ok_def purge_decide_def Let_def same_entry_def RemoveOwner_def metaTotal_def split: if_splits)

lemma matches_unique: "matches p o1 n1 \<Longrightarrow> matches p o2 n2 \<Longrightarrow> o1 = o2 \<and> n1 = n2"
  by (auto simp: matches_def split: option.splits)

lemma Parse_Nil [simp]: "ParseHFModelPath [] = None"
  by code_simp

definition origin_owner :: "Meta \<Rightarrow> string \<Rightarrow> string \<Rightarrow> bool" where
  \<comment> \<open>the model requested the entry through a redirect\<close>
  "origin_owner m org name \<longleftrightarrow> matches (OriginPath m) org name \<or> list_ex (\<lambda>op. matches op org name) (OriginPaths m)"

lemma origin_owner_HasAny: "origin_owner m org name \<Longrightarrow> HasAnyOwner m"
  by (auto simp: origin_owner_def HasAnyOwner_def matches_def list_ex_iff split: option.splits)

lemma origin_RemoveOwner:
  "origin_owner (RemoveOwner m org name) o1 n1 \<longleftrightarrow> (o1, n1) \<noteq> (org, name) \<and> origin_owner m o1 n1"
proof (cases "matches (OriginPath m) org name")
  case True
  have "\<not> matches [] o1 n1" by (simp add: matches_def)
  with True matches_unique [of _ o1 n1 org name] show ?thesis
    by (auto simp: origin_owner_def RemoveOwner_def Let_def list_ex_iff filter_eq_Cons_iff split: list.splits)
next
  case False
  with matches_unique [of _ o1 n1 org name] show ?thesis
    by (auto simp: origin_owner_def RemoveOwner_def Let_def list_ex_iff)
qed

lemma MPath_RemoveOwner [simp]: "MPath (RemoveOwner m org name) = MPath m"
  by (simp add: RemoveOwner_def Let_def)

lemma OwnedBy_origin: "OwnedBy m org name \<longleftrightarrow> origin_owner m org name \<or> matches (MPath m) org name"
  by (auto simp: OwnedBy_def origin_owner_def)

definition attributed :: "Meta \<Rightarrow> string \<Rightarrow> string \<Rightarrow> bool" where
  "attributed m org name \<longleftrightarrow> (\<exists>rv. ParseHFModelPath (attributionPath m) = Some (org, name, rv))"

lemma attributionPath_cases:
  obtains "attributionPath m = OriginPath m" "OriginPath m \<noteq> []"
  | "attributionPath m \<in> set (OriginPaths m)"
  | "attributionPath m = MPath m" "OriginPath m = []" "\<And>op. op \<in> set (OriginPaths m) \<Longrightarrow> op = []"
proof (cases "filter (\<lambda>op. op \<noteq> []) (OriginPaths m)")
  case Nil
  with that(1,3) show ?thesis by (cases "OriginPath m = []") (auto simp: attributionPath_def filter_empty_conv)
next
  case (Cons op ops)
  then have "op \<in> set (OriginPaths m)" by (auto simp: filter_eq_Cons_iff)
  with Cons that(1,2) show ?thesis by (cases "OriginPath m = []") (simp_all add: attributionPath_def)
qed

lemma attributed_matches: "attributed m org name \<longleftrightarrow> matches (attributionPath m) org name"
  by (cases "attributionPath m = []") (auto simp: attributed_def matches_def split: option.splits)

lemma attributed_owned: "attributed m org name \<Longrightarrow> OwnedBy m org name"
  unfolding attributed_matches by (cases rule: attributionPath_cases [of m]) (auto simp: OwnedBy_def list_ex_iff)

lemma trimmed_not_attributed:
  assumes "HasAnyOwner (RemoveOwner m org name)"
  shows "\<not> attributed (RemoveOwner m org name) org name"
proof
  assume a: "attributed (RemoveOwner m org name) org name"
  show False
  proof (cases rule: attributionPath_cases [of "RemoveOwner m org name"])
    case 3
    then have "ParseHFModelPath op = None" if "op \<in> set (OriginPaths (RemoveOwner m org name))" for op
      using 3(3) [OF that] by simp
    with 3(2) assms show ?thesis by (auto simp: HasAnyOwner_def list_ex_iff)
  qed (use a origin_RemoveOwner [of m org name org name] in \<open>auto simp: attributed_matches origin_owner_def list_ex_iff\<close>)
qed

lemma list_all_update: "list_all Q al \<Longrightarrow> Q (k, v) \<Longrightarrow> list_all Q (AList.update k v al)"
  by (induction al) auto

definition groups_from :: "(string \<Rightarrow> string \<Rightarrow> bool) \<Rightarrow> grouping \<Rightarrow> bool" where
  \<comment> \<open>every group carries its own key, and only keys in \<open>P\<close> occur\<close>
  "groups_from P G \<longleftrightarrow> list_all (\<lambda>(k, g). gOrg g = fst k \<and> gName g = snd k \<and> P (fst k) (snd k)) (groups G)"

lemma groups_from_entry:
  assumes "groups_from P G" "\<And>org name. attributed m org name \<Longrightarrow> P org name"
  shows "groups_from P (group_entry f m G)"
proof (cases "groups (group_entry f m G) = groups G")
  case True
  with assms(1) show ?thesis by (simp add: groups_from_def)
next
  case False
  then obtain org name rv g1 where a: "ParseHFModelPath (attributionPath m) = Some (org, name, rv)"
    and u: "groups (group_entry f m G) = AList.update (org, name) g1 (groups G)"
    and g1: "case map_of (groups G) (org, name) of None \<Rightarrow> gOrg g1 = org \<and> gName g1 = name
      | Some g \<Rightarrow> gOrg g1 = gOrg g \<and> gName g1 = gName g"
    by (auto simp: group_entry_def Let_def split: if_splits option.splits)
  from g1 assms(1) have "gOrg g1 = org \<and> gName g1 = name"
    by (auto simp: groups_from_def list_all_iff split: option.splits dest!: map_of_SomeD)
  moreover have "P org name" using a assms(2) by (auto simp: attributed_def)
  ultimately show ?thesis using assms(1) unfolding groups_from_def u by (intro list_all_update) simp_all
qed

lemma groups_from_loop:
  assumes "\<And>k m org name. disk_meta s k = Some m \<Longrightarrow> attributed m org name \<Longrightarrow> P org name"
  shows "groups_from P G \<Longrightarrow> groups_from P (group_loop io s f mx ks n G)"
proof (induction ks arbitrary: n G)
  case (Cons k ks)
  show ?case
  proof (cases "\<exists>m. readMeta io k s = Inr (Some m)")
    case True
    then obtain m where m: "readMeta io k s = Inr (Some m)" by blast
    have "groups_from P (group_entry f m G)"
      using assms [OF readMeta_Some [OF m]] by (intro groups_from_entry [OF Cons.prems])
    with Cons m show ?thesis by simp
  next
    case False
    with Cons show ?thesis by (auto split: sum.splits option.splits)
  qed
qed simp

lemma listing_attributed:
  assumes "ListGroupedFromCache io mx f s = Some (items, n)" "g \<in> set items"
  shows "\<exists>k m. disk_meta s k = Some m \<and> attributed m (gOrg g) (gName g)"
proof -
  define P where "P org name \<longleftrightarrow> (\<exists>k m. disk_meta s k = Some m \<and> attributed m org name)" for org name
  define G where "G = group_loop io s f (clamp_entries mx) (sort (map fst (disk s))) 0
    \<lparr>groups = [], revSets = (\<lambda>_. []), seenFiles = [], grandTotal = 0\<rparr>"
  have "groups_from P G"
    unfolding G_def by (rule groups_from_loop) (auto simp: P_def groups_from_def)
  moreover have "g \<in> finish_group f G ` set (groups G)"
    using assms by (auto simp: ListGroupedFromCache_def G_def [symmetric] Let_def split: if_splits)
  ultimately show ?thesis
    by (force simp: groups_from_def list_all_iff finish_group_def P_def)
qed

definition purge_model :: "io \<Rightarrow> string \<Rightarrow> string \<Rightarrow> store \<Rightarrow> cache_err option \<times> PurgeResult \<times> store" where
  "purge_model io org name s = PurgeOrTrim io (purge_decide org name) s"

definition trim_owner :: "string \<Rightarrow> string \<Rightarrow> Meta \<Rightarrow> Meta option" where
  \<comment> \<open>what should become of an entry: kept, kept without this owner, or removed with its last owner\<close>
  "trim_owner org name m =
     (if \<not> OwnedBy m org name then Some m
      else if \<exists>o1 n1. (o1, n1) \<noteq> (org, name) \<and> origin_owner m o1 n1 then Some (RemoveOwner m org name) else None)"

lemma HasAny_origin: "HasAnyOwner m \<longleftrightarrow> (\<exists>o1 n1. origin_owner m o1 n1)"
proof
  assume "HasAnyOwner m"
  then obtain p o1 n1 rv where "p = OriginPath m \<or> p \<in> set (OriginPaths m)" "ParseHFModelPath p = Some (o1, n1, rv)"
    by (auto simp: HasAnyOwner_def list_ex_iff)
  moreover from this have "p \<noteq> []" by auto
  ultimately have "matches p o1 n1" by (simp add: matches_def)
  with \<open>p = OriginPath m \<or> p \<in> set (OriginPaths m)\<close> show "\<exists>o1 n1. origin_owner m o1 n1"
    by (auto simp: origin_owner_def list_ex_iff)
qed (auto intro: origin_owner_HasAny)

lemma after_purge: "after_decision (purge_decide org name k m) m = trim_owner org name m"
  "fst (purge_decide org name k m) = DecisionRemove \<longleftrightarrow> trim_owner org name m = None"
  by (auto simp: after_decision_def purge_decide_def trim_owner_def Let_def HasAny_origin origin_RemoveOwner)

lemma trim_owner_not_attributed: "trim_owner org name m = Some m' \<Longrightarrow> \<not> attributed m' org name"
  using trimmed_not_attributed [of m org name] attributed_owned [of m org name]
  by (auto simp: trim_owner_def HasAny_origin origin_RemoveOwner split: if_splits)

lemma trim_owner_owners:
  assumes "trim_owner org name m = Some m'"
  shows "origin_owner m' o1 n1 \<longleftrightarrow> (o1, n1) \<noteq> (org, name) \<and> origin_owner m o1 n1"
  using assms by (auto simp: trim_owner_def origin_RemoveOwner OwnedBy_origin split: if_splits)

text \<open>C31: purging a model. When the purge of \<open>org/name\<close> succeeds, every entry the model does not own is untouched; an entry that another
  model also requested keeps its body and loses only this owner, all other owners staying; and an entry whose
  last owner it was is removed with its body. Afterwards the inventory shows no group for the model: listing and purge agree.\<close>

theorem purge_model_exact:
  assumes "acct s" "coh s" "quiet io" "purge_model io org name s = (None, res, s')"
  shows "disk_meta s' k = Option.bind (disk_meta s k) (trim_owner org name) \<and>
    disk_body s' k = (if disk_meta s k \<noteq> None \<and> disk_meta s' k = None then None else disk_body s k) \<and>
    (case disk_meta s' k of None \<Rightarrow> True
     | Some m' \<Rightarrow> origin_owner m' o1 n1 = ((o1, n1) \<noteq> (org, name) \<and> origin_owner (the (disk_meta s k)) o1 n1)) \<and>
    (case ListGroupedFromCache io' mx f s' of None \<Rightarrow> True
     | Some (items, n) \<Rightarrow> list_all (\<lambda>g. (gOrg g, gName g) \<noteq> (org, name)) items)"
proof -
  from assms(4) have "purge_loop io (purge_decide org name) (sort (map fst (disk s))) \<lparr>Purged = 0, Trimmed = 0, BytesFreed = 0\<rparr> s = (None, res, s')"
    by (auto simp: purge_model_def PurgeOrTrim_def Let_def split: if_splits)
  moreover have "distinct (sort (map fst (disk s)))" using assms(1) by (simp add: acct_def keys_ok_def)
  moreover have "disk_meta s k = None" if "k \<notin> set (map fst (disk s))" for k
    using that map_of_eq_None_iff [of "disk s" k] by (simp add: disk_meta_def)
  ultimately have ex: "disk_meta s' k = Option.bind (disk_meta s k) (trim_owner org name)"
    "disk_body s' k = (if \<exists>m. disk_meta s k = Some m \<and> trim_owner org name m = None then None else disk_body s k)" for k
    using purge_loop_exact [OF assms(3) purge_decide_props assms(1,2), of org name "sort (map fst (disk s))"]
    by (cases "disk_meta s k"; force simp: after_purge)+
  have "\<not> attributed m' org name" if "disk_meta s' k = Some m'" for k m'
    using that ex(1) [of k] trim_owner_not_attributed by (auto simp: bind_eq_Some_conv)
  then have "list_all (\<lambda>g. (gOrg g, gName g) \<noteq> (org, name)) items" if "ListGroupedFromCache io' mx f s' = Some (items, n)" for items n
    using listing_attributed [OF that] by (fastforce simp: list_all_iff)
  moreover have "case disk_meta s' k of None \<Rightarrow> True
     | Some m' \<Rightarrow> origin_owner m' o1 n1 = ((o1, n1) \<noteq> (org, name) \<and> origin_owner (the (disk_meta s k)) o1 n1)"
    using trim_owner_owners [of org name] by (cases "disk_meta s k") (auto simp: ex split: option.split)
  moreover have "disk_body s' k = (if disk_meta s k \<noteq> None \<and> disk_meta s' k = None then None else disk_body s k)"
    by (cases "disk_meta s k") (auto simp: ex)
  ultimately show ?thesis using ex(1) [of k] by (auto split: option.splits)
qed

definition shared_entry :: "string list \<Rightarrow> nat \<Rightarrow> obj" where
  "shared_entry ops ino = \<lparr>metaf = Some (MetaOK (zero_meta\<lparr>MPath := ''/xet/0'', StatusCode := 200, Total := Some 3,
     OriginPaths := ops\<rparr>)), body = Some ino\<rparr>"

definition shared_disk :: "(string \<times> obj) list" where
  "shared_disk = [(''k1'', shared_entry [''/a/m/resolve/main/f'', ''/b/m/resolve/main/f''] 0), (''k2'', shared_entry [''/a/m/resolve/main/g''] 1)]"

definition shared_cache :: store where
  "shared_cache = (case NewStoreWithOptions no_faults ''none'' 0 0 10 10 shared_disk (\<lambda>_. ''abc'') 2 of Inr s \<Rightarrow> s | Inl _ \<Rightarrow> undefined)"

lemma shared_cache_new: "NewStoreWithOptions no_faults ''none'' 0 0 10 10 shared_disk (\<lambda>_. ''abc'') 2 = Inr shared_cache"
  by (simp add: shared_cache_def NewStoreWithOptions_def no_faults_def Let_def)

theorem purge_model_exact_witness:
  "let s' = snd (snd (purge_model no_faults ''a'' ''m'' shared_cache))
   in map (disk_body s') [''k1'', ''k2''] = [Some 0, None] \<and> origin_owner (the (disk_meta s' ''k1'')) ''b'' ''m''"
proof -
  let ?r = "purge_model no_faults ''a'' ''m'' shared_cache"
  have "sys_inv 0 \<lparr>st = shared_cache, ws = []\<rparr>"
    using NewStore_inv(1) [OF shared_cache_new] by (simp add: no_faults_def shared_disk_def)
  then have inv: "acct shared_cache" "coh shared_cache" by (simp_all add: sys_inv_def)
  have "fst ?r = None" by code_simp
  then have r: "?r = (None, fst (snd ?r), snd (snd ?r))" by (simp add: prod_eq_iff)
  define m1 m2 where "m1 = the (disk_meta shared_cache ''k1'')" and "m2 = the (disk_meta shared_cache ''k2'')"
  have m: "disk_meta shared_cache ''k1'' = Some m1" "disk_meta shared_cache ''k2'' = Some m2" "disk_body shared_cache ''k1'' = Some 0"
    unfolding m1_def m2_def by code_simp+
  have "after_decision (purge_decide ''a'' ''m'' [] m1) m1 \<noteq> None" "after_decision (purge_decide ''a'' ''m'' [] m2) m2 = None"
    "origin_owner m1 ''b'' ''m''" unfolding m1_def m2_def by code_simp+
  then have t: "trim_owner ''a'' ''m'' m1 \<noteq> None" "trim_owner ''a'' ''m'' m2 = None" by (simp_all add: after_purge)
  note P = purge_model_exact [OF inv quiet_no_faults r]
  show ?thesis
    using P [of "''k1''" "''b''" "''m''"] P [of "''k2''"] m t \<open>origin_owner m1 ''b'' ''m''\<close> by (auto simp: Let_def)
qed

lemma attribution_differs:
  \<comment> \<open>the listing does not go through \<open>PrimaryAttribution\<close>: an unparseable \<open>OriginPath\<close> hides the entry from it\<close>
  "let m = zero_meta\<lparr>OriginPath := ''/x'', OriginPaths := [''/a/m/resolve/main/f'', ''/x''], MPath := ''/xet/0''\<rparr>
   in PrimaryAttribution m = Some (''a'', ''m'', ''main'') \<and> ParseHFModelPath (attributionPath m) = None"
  by code_simp

lemma same_basename_dropped:
  \<comment> \<open>two different files of a revision with the same base name are counted once\<close>
  "let file = (\<lambda>p. zero_meta\<lparr>MPath := p, StatusCode := 200, Total := Some 5\<rparr>);
       G = group_entry True (file ''/a/m/resolve/main/y/config.json'')
             (group_entry True (file ''/a/m/resolve/main/x/config.json'') \<lparr>groups = [], revSets = (\<lambda>_. []), seenFiles = [], grandTotal = 0\<rparr>)
   in grandTotal G = 5 \<and> map (FileCount \<circ> snd) (groups G) = [1]"
  by code_simp

end
