(* ===== verification/Go_Json.thy ===== *)
theory Go_Json
  imports Go_Prelude
begin

text \<open>
  JSON documents as values of \<open>json\<close>; a malformed text is \<open>None\<close> where a handler reads one. Decoding into a Go struct follows
  \<open>encoding/json\<close>: keys are compared without regard to (ASCII) case, \<open>null\<close> leaves a field alone, a later
  duplicate wins, a wrong type is an error. \<open>JNum\<close> is a number literal that is not an integer.
\<close>

datatype json = JNull | JBool bool | JInt int | JNum string | JStr string | JArr "json list" | JObj "(string \<times> json) list"

definition jdecode :: "('a \<Rightarrow> json \<Rightarrow> 'a option) \<Rightarrow> 'a \<Rightarrow> string \<Rightarrow> json \<Rightarrow> 'a option" where
  \<comment> \<open>one field of a struct: \<open>None\<close> is a type error\<close>
  "jdecode upd z k j =
     (case j of
        JObj fs \<Rightarrow> foldl (\<lambda>acc kv. if to_lower (fst kv) = to_lower k then Option.bind acc (\<lambda>a. upd a (snd kv)) else acc) (Some z) fs
      | JNull \<Rightarrow> Some z
      | _ \<Rightarrow> None)"

fun upd_string :: "string \<Rightarrow> json \<Rightarrow> string option" where
  "upd_string a JNull = Some a"
| "upd_string a (JStr s) = Some s"
| "upd_string a _ = None"

fun upd_string_ptr :: "string option \<Rightarrow> json \<Rightarrow> string option option" where
  "upd_string_ptr a JNull = Some None"
| "upd_string_ptr a (JStr s) = Some (Some s)"
| "upd_string_ptr a _ = None"

fun upd_int :: "int \<Rightarrow> json \<Rightarrow> int option" where
  "upd_int a JNull = Some a"
| "upd_int a (JInt n) = (if int64 n then Some n else None)"
| "upd_int a _ = None"

fun upd_int_ptr :: "int option \<Rightarrow> json \<Rightarrow> int option option" where
  "upd_int_ptr a JNull = Some None"
| "upd_int_ptr a (JInt n) = (if int64 n then Some (Some n) else None)"
| "upd_int_ptr a _ = None"

fun upd_bool :: "bool \<Rightarrow> json \<Rightarrow> bool option" where
  "upd_bool a JNull = Some a"
| "upd_bool a (JBool b) = Some b"
| "upd_bool a _ = None"

fun str_items :: "json list \<Rightarrow> string list option" where
  "str_items [] = Some []"
| "str_items (j # js) = Option.bind (upd_string [] j) (\<lambda>s. map_option ((#) s) (str_items js))"

fun upd_strings :: "string list \<Rightarrow> json \<Rightarrow> string list option" where
  "upd_strings a JNull = Some []"
| "upd_strings a (JArr js) = str_items js"
| "upd_strings a _ = None"

definition jstring :: "string \<Rightarrow> json \<Rightarrow> string option" where
  "jstring k j = jdecode upd_string [] k j"

definition jget :: "string \<Rightarrow> json \<Rightarrow> json option" where
  \<comment> \<open>a key of a document decoded into a Go map: exact, the last one wins\<close>
  "jget k j = (case j of JObj fs \<Rightarrow> map_of (rev fs) k | _ \<Rightarrow> None)"

lemma jstring_obj [simp]: "jstring k (JObj [(k, JStr v)]) = Some v"
  by (simp add: jstring_def jdecode_def)

end
