(* ===== verification/Import_Jobs.thy ===== *)
theory Import_Jobs
  imports Auth_Db Go_Json
begin

text \<open>
  Cache-import jobs: \<open>internal/admin/store/import_jobs.go\<close> and the error texts of \<open>internal/importmsg/humanize.go\<close>.
  The job queue (River) is third-party code and a parameter, the record \<open>river\<close> of its operations on a queue
  state of any type; the one statement the code sends to River's table itself is among them.
\<close>

subsection \<open>Error texts\<close>

record Message =
  Title :: string
  Hint :: string

definition IsZero :: "Message \<Rightarrow> bool" where
  "IsZero m \<longleftrightarrow> Title m = [] \<and> Hint m = []"

definition HumanizeMessage :: "string \<Rightarrow> Message" where
  "HumanizeMessage raw0 =
     (let raw = trim_space raw0; lower = to_lower raw; has = list_ex (contains lower)
      in if raw = [] then \<lparr>Title = [], Hint = []\<rparr>
         else if has [''cache storage quota exceeded'', ''507'', ''insufficient storage'']
           then \<lparr>Title = ''Cache is full'', Hint = ''Free space on the Models page, then try again.''\<rparr>
         else if has [''context canceled'', ''job canceled remotely'', ''jobcancelerror''] then \<lparr>Title = [], Hint = []\<rparr>
         else if has [''context deadline exceeded'']
           then \<lparr>Title = ''Import timed out'', Hint = ''The job ran longer than the configured time limit.''\<rparr>
         else if has [''401'', ''403'', ''unauthorized'', ''forbidden'']
           then \<lparr>Title = ''Hugging Face rejected the download token'', Hint = ''The proxy'' @ CHR 0x27 # ''s read token is missing access to this repository.''\<rparr>
         else if has [''404'', ''not found'']
           then \<lparr>Title = ''Repository not found'', Hint = ''Check the repo ID and revision, then try again.''\<rparr>
         else if has [''429'', ''rate limit'']
           then \<lparr>Title = ''Rate-limited by Hugging Face'', Hint = ''Wait a few minutes, then retry.''\<rparr>
         else if contains lower ''gave up after'' \<and> contains lower ''retries''
           then \<lparr>Title = ''Download failed'', Hint = ''Hugging Face returned errors after several retries.''\<rparr>
         else if has [''502'', ''503'', ''504'', ''bad gateway'', ''service unavailable'', ''gateway timeout'']
           then \<lparr>Title = ''Hugging Face is unavailable'', Hint = ''The upstream returned a temporary error. Try again shortly.''\<rparr>
         else if has [''connection refused'', ''connection reset'', ''no such host'', ''network is unreachable'', ''i/o timeout'']
           then \<lparr>Title = ''Network error'', Hint = ''The proxy could not reach Hugging Face.''\<rparr>
         else \<lparr>Title = ''Import failed'', Hint = ''Open technical details below for the underlying error.''\<rparr>)"

definition Humanize :: "string \<Rightarrow> string" where
  "Humanize raw = Title (HumanizeMessage raw)"

subsection \<open>The job queue\<close>

datatype JobState = Available | Cancelled | Completed | Discarded | Pending | Retryable | Running | Scheduled

record JobRow =
  jrId :: int
  jrKind :: string
  jrMetadata :: "json option"          \<comment> \<open>\<open>None\<close>: empty or not a JSON document\<close>
  jrArgs :: "json option"              \<comment> \<open>\<open>None\<close>: empty\<close>
  jrState :: JobState
  jrErrors :: "string list"
  jrAttempt :: int
  jrAttemptedAt :: "int option"
  jrFinalizedAt :: "int option"
  jrCreatedAt :: int

datatype river_err = RiverNotFound | RiverJobRunning | RiverError

record 'r river =
  rvInsert :: "string \<Rightarrow> json \<Rightarrow> json \<Rightarrow> 'r \<Rightarrow> (river_err + JobRow) \<times> 'r"   \<comment> \<open>kind, arguments, metadata\<close>
  rvGet :: "int \<Rightarrow> 'r \<Rightarrow> river_err + JobRow"
  rvList :: "string \<Rightarrow> json \<Rightarrow> int \<Rightarrow> 'r \<Rightarrow> river_err + JobRow list"        \<comment> \<open>kind, metadata filter, limit\<close>
  rvCancel :: "int \<Rightarrow> 'r \<Rightarrow> river_err option \<times> 'r"
  rvDelete :: "int \<Rightarrow> 'r \<Rightarrow> river_err option \<times> 'r"
  rvForceUpdate :: "int \<Rightarrow> 'r \<Rightarrow> (river_err + nat) \<times> 'r"                  \<comment> \<open>\<open>UPDATE river_job ... WHERE id = $1\<close>, rows affected\<close>

datatype ImportJobStatus = ImportJobQueued | ImportJobRunning | ImportJobRetrying | ImportJobSucceeded | ImportJobFailed | ImportJobCanceled

record ImportJob =
  ijID :: string
  ijTenant :: string
  ijCreatedBy :: "string option"
  ijStatus :: ImportJobStatus
  ijPayload :: json
  ijProgress :: json
  ijError :: "string option"
  ijErrorHint :: "string option"
  ijErrorDetail :: "string option"
  ijAttempt :: int
  ijUpdatedAt :: int

datatype import_err = ErrImportJobNotFound | ErrImportJobRunning | RiverNotConfigured | UnsupportedType | RepoIDRequired | BadDocument | QueueError

definition ImportJobTypeHFCacheImport :: string where
  "ImportJobTypeHFCacheImport = ''hf_cache_import''"

definition queue_err :: "river_err \<Rightarrow> import_err" where
  \<comment> \<open>\<open>errors.Is(err, rivertype.ErrNotFound)\<close>, anything else is passed on\<close>
  "queue_err e = (if e = RiverNotFound then ErrImportJobNotFound else QueueError)"

fun mapRiverImportState :: "JobState \<Rightarrow> ImportJobStatus" where
  "mapRiverImportState Available = ImportJobQueued"
| "mapRiverImportState Pending = ImportJobQueued"
| "mapRiverImportState Scheduled = ImportJobQueued"
| "mapRiverImportState Running = ImportJobRunning"
| "mapRiverImportState Retryable = ImportJobRetrying"
| "mapRiverImportState Completed = ImportJobSucceeded"
| "mapRiverImportState Cancelled = ImportJobCanceled"
| "mapRiverImportState Discarded = ImportJobFailed"

definition extractImportProgress :: "json option \<Rightarrow> json" where
  "extractImportProgress metadata =
     (case metadata of
        None \<Rightarrow> JObj []
      | Some j \<Rightarrow>
          (case jget ''progress'' j of
             Some p \<Rightarrow> if p \<noteq> JNull then p
                       else (case jget ''output'' j of Some out \<Rightarrow> if out \<noteq> JNull then out else JObj [] | None \<Rightarrow> JObj [])
           | None \<Rightarrow> (case jget ''output'' j of Some out \<Rightarrow> if out \<noteq> JNull then out else JObj [] | None \<Rightarrow> JObj [])))"

definition meta_tenant :: "json option \<Rightarrow> string" where
  \<comment> \<open>\<open>TenantID\<close> of \<open>importJobMeta\<close>; an error leaves it empty\<close>
  "meta_tenant metadata = (case metadata of None \<Rightarrow> [] | Some j \<Rightarrow> (case jstring ''tenant_id'' j of Some t \<Rightarrow> t | None \<Rightarrow> []))"

definition meta_creator :: "json option \<Rightarrow> string option" where
  "meta_creator metadata =
     (case metadata of None \<Rightarrow> None | Some j \<Rightarrow> (case jdecode upd_string_ptr None ''created_by'' j of Some c \<Rightarrow> c | None \<Rightarrow> None))"

definition import_args :: "json \<Rightarrow> (string \<times> string \<times> string) option" where
  \<comment> \<open>\<open>cacheImportArgs\<close>\<close>
  "import_args j = (case (jstring ''repo_id'' j, jstring ''revision'' j, jstring ''repo_type'' j) of
     (Some a, Some b, Some c) \<Rightarrow> Some (a, b, c) | _ \<Rightarrow> None)"

definition args_json :: "string \<times> string \<times> string \<Rightarrow> json" where
  "args_json = (\<lambda>(a, b, c). JObj [(''repo_id'', JStr a), (''revision'', JStr b), (''repo_type'', JStr c)])"

definition parseImportPayload :: "json option \<Rightarrow> import_err + string \<times> string \<times> string" where
  "parseImportPayload payload =
     (case import_args (case payload of None \<Rightarrow> JObj [] | Some j \<Rightarrow> j) of
        None \<Rightarrow> Inl BadDocument
      | Some (repo0, rev0, typ0) \<Rightarrow>
          let repo = trim_space repo0; rv = trim_space rev0; typ = trim_space typ0
          in if repo = [] then Inl RepoIDRequired
             else Inr (repo, if rv = [] then ''main'' else rv, if typ = [] then ''models'' else typ))"

definition job_error :: "JobRow \<Rightarrow> (string \<times> string option \<times> string) option" where
  \<comment> \<open>title, hint and detail of the last error, not for cancelled jobs\<close>
  "job_error row =
     (if jrErrors row = [] \<or> mapRiverImportState (jrState row) = ImportJobCanceled then None
      else let raw = last (jrErrors row); msg = HumanizeMessage raw
           in if IsZero msg then None else Some (Title msg, if Hint msg = [] then None else Some (Hint msg), raw))"

definition jobFromRow :: "JobRow \<Rightarrow> string \<Rightarrow> import_err + ImportJob" where
  "jobFromRow row expectTenant =
     (let tenant = meta_tenant (jrMetadata row)
      in if expectTenant \<noteq> [] \<and> tenant \<noteq> expectTenant then Inl ErrImportJobNotFound
         else case (case jrArgs row of None \<Rightarrow> Some (JObj []) | Some j \<Rightarrow> map_option args_json (import_args j)) of
           None \<Rightarrow> Inl BadDocument
         | Some payload \<Rightarrow>
             Inr \<lparr>ijID = format_int (jrId row), ijTenant = tenant, ijCreatedBy = meta_creator (jrMetadata row),
                  ijStatus = mapRiverImportState (jrState row), ijPayload = payload,
                  ijProgress = extractImportProgress (jrMetadata row),
                  ijError = map_option fst (job_error row), ijErrorHint = Option.bind (job_error row) (fst \<circ> snd),
                  ijErrorDetail = map_option (snd \<circ> snd) (job_error row), ijAttempt = jrAttempt row,
                  ijUpdatedAt = (case jrFinalizedAt row of Some t \<Rightarrow> t
                    | None \<Rightarrow> (case jrAttemptedAt row of Some t \<Rightarrow> t | None \<Rightarrow> jrCreatedAt row))\<rparr>)"

subsection \<open>The admin store\<close>

definition CreateImportJob ::
  "'r river option \<Rightarrow> string \<Rightarrow> string \<Rightarrow> string \<Rightarrow> json option \<Rightarrow> 'r \<Rightarrow> (import_err + ImportJob) \<times> 'r" where
  "CreateImportJob rv tenantID createdBy typ0 payload q =
     (case rv of
        None \<Rightarrow> (Inl RiverNotConfigured, q)
      | Some R \<Rightarrow>
          let typ = (if typ0 = [] then ImportJobTypeHFCacheImport else typ0)
          in if typ \<noteq> ImportJobTypeHFCacheImport then (Inl UnsupportedType, q)
             else case parseImportPayload payload of
               Inl e \<Rightarrow> (Inl e, q)
             | Inr spec \<Rightarrow>
                 let meta = JObj ((''tenant_id'', JStr tenantID) # (if createdBy = [] then [] else [(''created_by'', JStr createdBy)]))
                 in case rvInsert R ImportJobTypeHFCacheImport (args_json spec) meta q of
                      (Inl e, q1) \<Rightarrow> (Inl QueueError, q1)
                    | (Inr row, q1) \<Rightarrow> (jobFromRow row tenantID, q1))"

fun jobs_from_rows :: "string \<Rightarrow> JobRow list \<Rightarrow> import_err + ImportJob list" where
  "jobs_from_rows t [] = Inr []"
| "jobs_from_rows t (row # rows) =
     (case jobFromRow row t of
        Inl e \<Rightarrow> Inl e
      | Inr j \<Rightarrow> (case jobs_from_rows t rows of Inl e \<Rightarrow> Inl e | Inr js \<Rightarrow> Inr (j # js)))"

definition ListImportJobs :: "'r river option \<Rightarrow> string \<Rightarrow> int \<Rightarrow> 'r \<Rightarrow> import_err + ImportJob list" where
  "ListImportJobs rv tenantID limit q =
     (case rv of
        None \<Rightarrow> Inl RiverNotConfigured
      | Some R \<Rightarrow>
          (case rvList R ImportJobTypeHFCacheImport (JObj [(''tenant_id'', JStr tenantID)]) (clamp_limit limit) q of
             Inl e \<Rightarrow> Inl QueueError
           | Inr rows \<Rightarrow> jobs_from_rows tenantID rows))"

definition GetImportJob :: "'r river option \<Rightarrow> string \<Rightarrow> string \<Rightarrow> 'r \<Rightarrow> import_err + ImportJob" where
  "GetImportJob rv tenantID jobID q =
     (case rv of
        None \<Rightarrow> Inl RiverNotConfigured
      | Some R \<Rightarrow>
          (case parse_int jobID of
             None \<Rightarrow> Inl ErrImportJobNotFound
           | Some n \<Rightarrow>
               (case rvGet R n q of
                  Inl e \<Rightarrow> Inl (queue_err e)
                | Inr row \<Rightarrow>
                    if jrKind row \<noteq> ImportJobTypeHFCacheImport then Inl ErrImportJobNotFound
                    else (case jobFromRow row tenantID of
                            Inl e \<Rightarrow> Inl e
                          | Inr job \<Rightarrow> if ijTenant job \<noteq> tenantID then Inl ErrImportJobNotFound else Inr job))))"

definition CancelImportJob :: "'r river option \<Rightarrow> string \<Rightarrow> string \<Rightarrow> 'r \<Rightarrow> import_err option \<times> 'r" where
  "CancelImportJob rv tenantID jobID q =
     (case rv of
        None \<Rightarrow> (Some RiverNotConfigured, q)
      | Some R \<Rightarrow>
          (case GetImportJob rv tenantID jobID q of
             Inl e \<Rightarrow> (Some e, q)
           | Inr _ \<Rightarrow>
               (case parse_int jobID of
                  None \<Rightarrow> (Some ErrImportJobNotFound, q)
                | Some n \<Rightarrow> (case rvCancel R n q of
                      (Some e, q1) \<Rightarrow> (Some (queue_err e), q1)
                    | (None, q1) \<Rightarrow> (None, q1)))))"

definition ForceCancelImportJob :: "'r river option \<Rightarrow> string \<Rightarrow> string \<Rightarrow> 'r \<Rightarrow> import_err option \<times> 'r" where
  "ForceCancelImportJob rv tenantID jobID q =
     (case rv of
        None \<Rightarrow> (Some RiverNotConfigured, q)
      | Some R \<Rightarrow>
          (case GetImportJob rv tenantID jobID q of
             Inl e \<Rightarrow> (Some e, q)
           | Inr _ \<Rightarrow>
               (case parse_int jobID of
                  None \<Rightarrow> (Some ErrImportJobNotFound, q)
                | Some n \<Rightarrow> (case rvForceUpdate R n q of
                      (Inl e, q1) \<Rightarrow> (Some QueueError, q1)
                    | (Inr rows, q1) \<Rightarrow> (if rows = 0 then Some ErrImportJobNotFound else None, q1)))))"

definition DeleteImportJob :: "'r river option \<Rightarrow> string \<Rightarrow> string \<Rightarrow> 'r \<Rightarrow> import_err option \<times> 'r" where
  "DeleteImportJob rv tenantID jobID q =
     (case rv of
        None \<Rightarrow> (Some RiverNotConfigured, q)
      | Some R \<Rightarrow>
          (case GetImportJob rv tenantID jobID q of
             Inl e \<Rightarrow> (Some e, q)
           | Inr job \<Rightarrow>
               if ijStatus job = ImportJobRunning then (Some ErrImportJobRunning, q)
               else (case parse_int jobID of
                  None \<Rightarrow> (Some ErrImportJobNotFound, q)
                | Some n \<Rightarrow> (case rvDelete R n q of
                      (Some e, q1) \<Rightarrow> (Some (if e = RiverJobRunning then ErrImportJobRunning else queue_err e), q1)
                    | (None, q1) \<Rightarrow> (None, q1)))))"

subsection \<open>Tenants\<close>

lemma jobFromRow_tenant:
  assumes "jobFromRow row t = Inr job"
  shows "ijTenant job = meta_tenant (jrMetadata row)" "t \<noteq> [] \<Longrightarrow> ijTenant job = t" "ijStatus job = mapRiverImportState (jrState row)"
  using assms by (auto simp: jobFromRow_def Let_def split: if_splits option.splits)

definition own_job :: "'r river \<Rightarrow> string \<Rightarrow> string \<Rightarrow> 'r \<Rightarrow> int \<Rightarrow> JobRow \<Rightarrow> bool" where
  \<comment> \<open>the queue has an import job of the tenant under the id\<close>
  "own_job R tenantID jobID q n row \<longleftrightarrow> parse_int jobID = Some n \<and> rvGet R n q = Inr row \<and>
     jrKind row = ImportJobTypeHFCacheImport \<and> meta_tenant (jrMetadata row) = tenantID"

lemma GetImportJob_own:
  assumes "GetImportJob (Some R) t jid q = Inr job"
  shows "\<exists>n row. own_job R t jid q n row \<and> jobFromRow row t = Inr job \<and> ijTenant job = t"
  using assms jobFromRow_tenant(1)
  by (fastforce simp: GetImportJob_def own_job_def split: option.splits sum.splits if_splits)

lemma jobs_from_rows_tenant:
  "jobs_from_rows t rows = Inr js \<Longrightarrow> t \<noteq> [] \<Longrightarrow> list_all (\<lambda>j. ijTenant j = t) js"
  by (induction rows arbitrary: js) (auto split: sum.splits dest: jobFromRow_tenant(2))

text \<open>Import jobs are confined to their tenant, whatever the queue answers: a job is only shown to the tenant in its metadata, a
  listing for a tenant contains only that tenant's jobs, and cancel, force-cancel and delete leave the queue alone
  unless the given id names an import job of the calling tenant, in which case they make exactly the one call for
  that id; delete does so only for a job that is not running.\<close>

theorem import_jobs_isolated:
  "(case GetImportJob (Some R) t jid q of Inl e \<Rightarrow> True | Inr job \<Rightarrow> ijTenant job = t \<and> (\<exists>n row. own_job R t jid q n row)) \<and>
   (case ListImportJobs rv (c # u) lim q of Inl e \<Rightarrow> True | Inr jobs \<Rightarrow> list_all (\<lambda>j. ijTenant j = c # u) jobs) \<and>
   (snd (CancelImportJob (Some R) t jid q) = q \<or>
    (\<exists>n row. own_job R t jid q n row \<and> snd (CancelImportJob (Some R) t jid q) = snd (rvCancel R n q))) \<and>
   (snd (ForceCancelImportJob (Some R) t jid q) = q \<or>
    (\<exists>n row. own_job R t jid q n row \<and> snd (ForceCancelImportJob (Some R) t jid q) = snd (rvForceUpdate R n q))) \<and>
   (snd (DeleteImportJob (Some R) t jid q) = q \<or>
    (\<exists>n row. own_job R t jid q n row \<and> mapRiverImportState (jrState row) \<noteq> ImportJobRunning \<and>
       snd (DeleteImportJob (Some R) t jid q) = snd (rvDelete R n q)))"
proof -
  have list: "case ListImportJobs rv (c # u) lim q of Inl e \<Rightarrow> True | Inr jobs \<Rightarrow> list_all (\<lambda>j. ijTenant j = c # u) jobs"
    by (auto simp: ListImportJobs_def split: option.splits sum.splits dest: jobs_from_rows_tenant)
  show ?thesis
  proof (cases "GetImportJob (Some R) t jid q")
    case (Inl e)
    then show ?thesis using list by (simp add: CancelImportJob_def ForceCancelImportJob_def DeleteImportJob_def)
  next
    case (Inr job)
    from GetImportJob_own [OF this] obtain n row where own: "own_job R t jid q n row" "jobFromRow row t = Inr job" "ijTenant job = t"
      by blast
    then have "parse_int jid = Some n" by (simp add: own_job_def)
    then have "snd (CancelImportJob (Some R) t jid q) = snd (rvCancel R n q)"
      "snd (ForceCancelImportJob (Some R) t jid q) = snd (rvForceUpdate R n q)"
      "snd (DeleteImportJob (Some R) t jid q) =
         (if mapRiverImportState (jrState row) = ImportJobRunning then q else snd (rvDelete R n q))"
      using Inr jobFromRow_tenant(3) [OF own(2)]
      by (auto simp: CancelImportJob_def ForceCancelImportJob_def DeleteImportJob_def split: prod.splits option.splits sum.splits)
    with own Inr list show ?thesis by auto
  qed
qed

lemma canceled_no_error: "jrState row = Cancelled \<Longrightarrow> jobFromRow row t = Inr job \<Longrightarrow> ijError job = None"
  by (auto simp: jobFromRow_def job_error_def Let_def split: if_splits option.splits)

lemma humanize_misread:
  \<comment> \<open>status codes are looked for anywhere in the text: a port or a repository name is taken for one\<close>
  "Humanize ''dial tcp 10.0.0.1:50731: connection refused'' = ''Cache is full''"
  by code_simp

end
