(* ===== verification/Admin_Auth.thy ===== *)
theory Admin_Auth
  imports Auth_Gate Import_Jobs Admin_Models Http_Header Rewrite
begin

text \<open>
  Requests, responses and state of the admin listener, and the checks every request passes: the authenticator of
  \<open>internal/auth/middleware.go\<close>, the double-submit check of \<open>internal/auth/csrf.go\<close>, the role and scope check of
  \<open>internal/admin/api/authz.go\<close>. A request is what \<open>net/http\<close> hands to a handler (method, escaped path, header,
  cookies, query values, body as a JSON document). A middleware is a function of the next handler, as in the code.
  Statements of the database can fail one by one (\<open>adn\<close>); fresh ids, random values and the time are arguments.
\<close>

subsection \<open>Requests and responses\<close>

record http_req =
  rqMethod :: string
  rqEsc :: string                       \<comment> \<open>\<open>r.URL.EscapedPath()\<close>\<close>
  rqHdr :: header
  rqCookies :: "(string \<times> string) list"
  rqQuery :: "(string \<times> string) list"
  rqBody :: "json option"               \<comment> \<open>\<open>None\<close>: not a JSON document\<close>

record rctx =
  cActor :: Actor
  cCsrf :: string

datatype abody = ANone | AText string | AError string | AErr auth_err | ATenant tenant_row | AUsers "user_row list" | ATokens "token_row list"
  | AToken token_row string | ASettings "setting_row list" | ASetting setting_row | AAudit "audit_row list"
  | AJobs "ImportJob list" | AJob ImportJob | AModels "CachedModel list" | AGrouped "ModelGroup list" int | AStats Stats
  | APurged PurgeResult | AConfig string string string "string list" | ASession string string string string | ACsrf string

record aresp =
  asStatus :: int
  asHdr :: header
  asBody :: abody

datatype stmt = SLookupToken | SLookupSession | SLookupUser | STouch | SGetTenant | SListUsers | SListTokens | SCreateToken
  | SRevoke | SRevokeAgain | SListSettings | SUpsert | SListAudit | SInsertAudit | SHandlerAudit | STenantName | SProvider
  | SFindUser | SUpdateUser | SCreateUser | SCreateSession | SRevokeSession

record aenv =
  anow :: int
  adn :: "stmt \<Rightarrow> bool"                 \<comment> \<open>the statement fails\<close>
  newId :: string
  newUserId :: string
  newSessionId :: string
  rndPrefix :: string                    \<comment> \<open>4 random bytes\<close>
  rndSecret :: string
  rndSession :: string
  rndCsrf :: string
  aio :: io
  freeDisk :: int

record 'r admin =
  adb :: authdb
  apat :: "patgate option"               \<comment> \<open>\<open>PATCache\<close>\<close>
  aqueue :: 'r
  acache :: "store option"               \<comment> \<open>\<open>Cache\<close>\<close>

type_synonym 'r handler = "http_req \<Rightarrow> rctx \<Rightarrow> 'r admin \<Rightarrow> aresp \<times> 'r admin"

definition text_error :: "int \<Rightarrow> string \<Rightarrow> aresp" where
  \<comment> \<open>\<open>http.Error\<close>\<close>
  "text_error code msg = \<lparr>asStatus = code, asHdr = [], asBody = AText msg\<rparr>"

definition writeJSON :: "int \<Rightarrow> abody \<Rightarrow> aresp" where
  "writeJSON code b = \<lparr>asStatus = code,
     asHdr = hdr_set ''X-Content-Type-Options'' ''nosniff'' (hdr_set ''Content-Type'' ''application/json'' []), asBody = b\<rparr>"

definition writeError :: "int \<Rightarrow> string \<Rightarrow> aresp" where
  "writeError code msg = writeJSON code (AError msg)"

lemma resp_status [simp]: "asStatus (text_error c m) = c" "asStatus (writeJSON c b) = c" "asStatus (writeError c m) = c"
  by (simp_all add: text_error_def writeJSON_def writeError_def)

fun PathUnescape :: "string \<Rightarrow> string" where
  \<comment> \<open>an escaped path is valid: a stray percent sign does not occur and is kept\<close>
  "PathUnescape [] = []"
| "PathUnescape (c # cs) =
     (if c = CHR ''%'' then
        (case cs of
           a # b # ds \<Rightarrow> (case (hex_of a, hex_of b) of
               (Some h, Some l) \<Rightarrow> char_of (h * 16 + l) # PathUnescape ds
             | _ \<Rightarrow> c # PathUnescape cs)
         | _ \<Rightarrow> c # PathUnescape cs)
      else c # PathUnescape cs)"

definition rqPath :: "http_req \<Rightarrow> string" where
  "rqPath req = PathUnescape (rqEsc req)"

definition cookie :: "http_req \<Rightarrow> string \<Rightarrow> string option" where
  "cookie req name = map_of (rqCookies req) name"

definition query_get :: "http_req \<Rightarrow> string \<Rightarrow> string" where
  "query_get req k = (case map_of (rqQuery req) k of Some v \<Rightarrow> v | None \<Rightarrow> [])"

subsection \<open>Authentication\<close>

definition SessionCookieName :: string where
  "SessionCookieName = ''pulsys_session''"

definition defaultSessionTTL :: int where
  "defaultSessionTTL = 8 * 3600 * 1000000000"

definition actorFromSession :: "aenv \<Rightarrow> string \<Rightarrow> authdb \<Rightarrow> (auth_err + Actor \<times> string) \<times> authdb" where
  "actorFromSession env plain db =
     (case LookupSession (adn env SLookupSession, adn env SLookupUser) (anow env) plain db of
        Inl e \<Rightarrow> (Inl e, db)
      | Inr (sess, user) \<Rightarrow>
          (Inr (\<lparr>aType = ActorUser, aTenant = usTenant user, aUser = usId user, aToken = [], aRole = usRole user,
                 aScopes = [], aEmail = usEmail user\<rparr>, ssCsrf sess),
           TouchSession (adn env STouch) (anow env) (ssId sess) defaultSessionTTL db))"

definition actorFromPAT :: "aenv \<Rightarrow> string \<Rightarrow> authdb \<Rightarrow> auth_err + Actor" where
  "actorFromPAT env plain db =
     (case LookupAPIToken (adn env SLookupToken) (anow env) plain db of
        Inl e \<Rightarrow> Inl e
      | Inr tok \<Rightarrow> Inr \<lparr>aType = ActorToken, aTenant = tkTenant tok, aUser = (case tkOwner tok of Some u \<Rightarrow> u | None \<Rightarrow> []),
                       aToken = tkId tok, aRole = [], aScopes = tkScopes tok, aEmail = []\<rparr>)"

definition ActorFromRequest :: "aenv \<Rightarrow> http_req \<Rightarrow> authdb \<Rightarrow> (auth_err + Actor \<times> string) \<times> authdb" where
  "ActorFromRequest env req db =
     (let session = (case cookie req SessionCookieName of
                       Some v \<Rightarrow> if v \<noteq> [] then actorFromSession env v db else (Inr (zero_actor, []), db)
                     | None \<Rightarrow> (Inr (zero_actor, []), db))
      in case ParseBearer (hdr_get (rqHdr req) ''Authorization'') of
           Some tok \<Rightarrow> if IsPAT tok
             then ((case actorFromPAT env tok db of Inl e \<Rightarrow> Inl e | Inr a \<Rightarrow> Inr (a, [])), db) else session
         | None \<Rightarrow> session)"

definition Middleware :: "aenv \<Rightarrow> 'r handler \<Rightarrow> http_req \<Rightarrow> 'r admin \<Rightarrow> aresp \<times> 'r admin" where
  "Middleware env hnd req A =
     (case ActorFromRequest env req (adb A) of
        (Inl e, db) \<Rightarrow>
          let r = text_error 401 (if e = ErrInvalidSession then ''invalid or revoked credential'' else ''authentication failed'')
          in (r\<lparr>asHdr := hdr_set ''WWW-Authenticate'' ''Bearer error=\"invalid_token\"'' (asHdr r)\<rparr>, A\<lparr>adb := db\<rparr>)
      | (Inr (actor, csrf), db) \<Rightarrow> hnd req \<lparr>cActor = actor, cCsrf = csrf\<rparr> (A\<lparr>adb := db\<rparr>))"

definition RequireRole :: "string \<Rightarrow> 'r handler \<Rightarrow> 'r handler" where
  "RequireRole mn hnd req ctx A =
     (if aType (cActor ctx) \<noteq> ActorUser \<or> \<not> AtLeast (aRole (cActor ctx)) mn
      then (text_error 403 ''forbidden'', A) else hnd req ctx A)"

subsection \<open>Cross-site requests\<close>

definition CSRFCookieName :: string where "CSRFCookieName = ''pulsys_csrf''"
definition CSRFHeaderName :: string where "CSRFHeaderName = ''X-Pulsys-CSRF''"

definition SafeMethod :: "string \<Rightarrow> bool" where
  "SafeMethod m \<longleftrightarrow> m \<in> {''GET'', ''HEAD'', ''OPTIONS''}"

definition CSRFExemptPath :: "string \<Rightarrow> bool" where
  "CSRFExemptPath p \<longleftrightarrow> p \<in> {''/auth/session'', ''/auth/oidc/config''}"

definition ValidateCSRF :: "http_req \<Rightarrow> Actor \<Rightarrow> string \<Rightarrow> bool" where
  "ValidateCSRF req actor sessionCSRF =
     (if aType actor = ActorToken then True
      else if aType actor \<noteq> ActorUser then False
      else if sessionCSRF = [] then False
      else let hv = trim_space (hdr_get (rqHdr req) CSRFHeaderName)
           in if hv = [] then False
              else if hv \<noteq> sessionCSRF then False
              else (case cookie req CSRFCookieName of
                      None \<Rightarrow> False
                    | Some v \<Rightarrow> v \<noteq> [] \<and> v = hv))"

definition CSRFProtect :: "'r handler \<Rightarrow> 'r handler" where
  "CSRFProtect hnd req ctx A =
     (if SafeMethod (rqMethod req) \<or> CSRFExemptPath (rqPath req) then hnd req ctx A
      else if aType (cActor ctx) = Anonymous then hnd req ctx A
      else if \<not> ValidateCSRF req (cActor ctx) (cCsrf ctx) then (text_error 403 ''csrf token missing or invalid'', A)
      else hnd req ctx A)"

definition SetCSRFCookie :: "string \<Rightarrow> string \<times> string" where
  "SetCSRFCookie token = (CSRFCookieName, token)"

subsection \<open>Authorization\<close>

definition requireAccess :: "string \<Rightarrow> string \<Rightarrow> 'r handler \<Rightarrow> 'r handler" where
  "requireAccess minRole tokenScope hnd req ctx A =
     (let actor = cActor ctx
      in if aType actor = Anonymous then (writeError 401 ''unauthenticated'', A)
         else if aType actor = ActorUser then
           (if \<not> AtLeast (aRole actor) minRole then (writeError 403 ''forbidden'', A) else hnd req ctx A)
         else if aType actor = ActorToken then
           (if \<not> HasScope actor tokenScope \<and> \<not> HasScope actor ''admin:*'' then (writeError 403 ''forbidden'', A) else hnd req ctx A)
         else (writeError 403 ''forbidden'', A))"

definition requireAuthenticated :: "'r handler \<Rightarrow> 'r handler" where
  "requireAuthenticated hnd req ctx A =
     (if aType (cActor ctx) = Anonymous then (text_error 401 ''unauthorized'', A) else hnd req ctx A)"

definition granted :: "string \<Rightarrow> string \<Rightarrow> Actor \<Rightarrow> bool" where
  \<comment> \<open>the actor may use a route with this role and scope\<close>
  "granted minRole tokenScope actor \<longleftrightarrow>
     aType actor = ActorUser \<and> AtLeast (aRole actor) minRole \<or>
     aType actor = ActorToken \<and> (HasScope actor tokenScope \<or> HasScope actor ''admin:*'')"

lemma requireAccess_granted:
  obtains "granted minRole scp (cActor ctx)" "requireAccess minRole scp hnd req ctx A = hnd req ctx A"
  | c m where "\<not> granted minRole scp (cActor ctx)" "requireAccess minRole scp hnd req ctx A = (writeError c m, A)" "c = 401 \<or> c = 403"
  by (cases "aType (cActor ctx)"; force simp: requireAccess_def granted_def Let_def)

end
