(* ===== verification/Admin_Api.thy ===== *)
theory Admin_Api
  imports Admin_Auth
begin

text \<open>
  The JSON API under \<open>/admin/api/v1\<close> (\<open>internal/admin/api/handler.go\<close>): every handler with its input checks, the
  route table with the role and scope each route asks for, and the matching of \<open>http.ServeMux\<close> (Go 1.22 patterns:
  cleaned escaped path, segments compared unescaped, \<open>HEAD\<close> served by \<open>GET\<close>, 405 when only the method differs).
\<close>

record 'r acfg =
  acRiver :: "'r river option"
  acTenant :: string                   \<comment> \<open>\<open>TenantName\<close>\<close>

subsection \<open>Input checks\<close>

definition name_char :: "char \<Rightarrow> bool" where
  "name_char c \<longleftrightarrow> list_ex (\<lambda>(lo, hi). lo \<le> c \<and> c \<le> hi) [(CHR ''a'', CHR ''z''), (CHR ''A'', CHR ''Z''), (CHR ''0'', CHR ''9'')] \<or> c \<in> set ''-_.''"

definition validHFNameSegment :: "string \<Rightarrow> bool" where
  "validHFNameSegment s =
     (if s = [] \<or> length s > 96 then False
      else if hd s = CHR ''.'' then False
      else if s = ''..'' \<or> s = ''.'' then False
      else list_all name_char s)"

definition validHFRepoID :: "string \<Rightarrow> bool" where
  "validHFRepoID s =
     (let parts = split_on (CHR ''/'') s
      in if length parts < 1 \<or> length parts > 2 then False else list_all validHFNameSegment parts)"

definition validHFRevision :: "string \<Rightarrow> bool" where
  "validHFRevision s =
     (if s = [] \<or> length s > 128 \<or> hd s = CHR ''.'' then False
      else if s = ''.'' \<or> s = ''..'' \<or> contains s ''..'' then False
      else list_all (\<lambda>c. name_char c \<or> c = CHR ''/'') s)"

definition queryLimit :: "http_req \<Rightarrow> int \<Rightarrow> int" where
  "queryLimit req dflt =
     (let s = query_get req ''limit''
      in if s \<noteq> [] then (case parse_int s of Some n \<Rightarrow> if n > 0 then n else dflt | None \<Rightarrow> dflt) else dflt)"

definition allowedTokenScopes :: "string list" where
  "allowedTokenScopes = [''models:read'', ''models:write'', ''admin:read'', ''admin:write'', ''admin:*'']"

definition second :: int where "second = 1000000000"

definition maxTokenTTL :: int where
  "maxTokenTTL = 366 * 24 * 3600 * second"

subsection \<open>Audit rows written by handlers\<close>

definition actor_string :: "Actor \<Rightarrow> string" where
  \<comment> \<open>\<open>string(actor.Type)\<close>, an empty one becoming \<open>user\<close>\<close>
  "actor_string a = (case aType a of Anonymous \<Rightarrow> ''user'' | ActorUser \<Rightarrow> ''user'' | ActorToken \<Rightarrow> ''token'' | ActorSystem \<Rightarrow> ''system'')"

definition handler_actor_id :: "Actor \<Rightarrow> string option" where
  "handler_actor_id a = (if aUser a \<noteq> [] then Some (aUser a) else if aToken a \<noteq> [] then Some (aToken a) else None)"

definition insertAudit :: "aenv \<Rightarrow> Actor \<Rightarrow> string \<Rightarrow> string \<Rightarrow> string \<Rightarrow> 'r admin \<Rightarrow> 'r admin" where
  "insertAudit env actor action resource outcome A =
     A\<lparr>adb := InsertAudit (adn env SHandlerAudit) (aTenant actor) (actor_string actor) (handler_actor_id actor)
        action resource outcome (adb A)\<rparr>"

subsection \<open>Tenant, users, tokens\<close>

definition getTenant :: "aenv \<Rightarrow> 'r handler" where
  "getTenant env req ctx A =
     (case GetTenant (adn env SGetTenant) (aTenant (cActor ctx)) (adb A) of
        Inl e \<Rightarrow> (writeJSON 404 (AErr e), A)
      | Inr t \<Rightarrow> (writeJSON 200 (ATenant t), A))"

definition listUsers :: "aenv \<Rightarrow> 'r handler" where
  "listUsers env req ctx A =
     (case ListUsers (adn env SListUsers) (aTenant (cActor ctx)) (queryLimit req 100) (adb A) of
        Inl e \<Rightarrow> (writeError 500 ''failed to list users'', A)
      | Inr us \<Rightarrow> (writeJSON 200 (AUsers us), A))"

definition listTokens :: "aenv \<Rightarrow> 'r handler" where
  "listTokens env req ctx A =
     (case ListTokens (adn env SListTokens) (aTenant (cActor ctx)) (queryLimit req 100) (adb A) of
        Inl e \<Rightarrow> (writeError 500 ''failed to list tokens'', A)
      | Inr ts \<Rightarrow> (writeJSON 200 (ATokens ts), A))"

record createTokenRequest =
  ctName :: string
  ctScopes :: "string list"
  ctExpiresIn :: "int option"

definition decode_createToken :: "json option \<Rightarrow> createTokenRequest option" where
  "decode_createToken doc =
     (case doc of
        None \<Rightarrow> None
      | Some j \<Rightarrow>
          (case (jstring ''name'' j, jdecode upd_strings [] ''scopes'' j, jdecode upd_int_ptr None ''expires_in_seconds'' j) of
             (Some n, Some scs, Some e) \<Rightarrow> Some \<lparr>ctName = n, ctScopes = scs, ctExpiresIn = e\<rparr>
           | _ \<Rightarrow> None))"

definition token_expiry :: "int \<Rightarrow> int option \<Rightarrow> string + int option" where
  \<comment> \<open>the check of \<open>expires_in_seconds\<close>: an error text or the expiry time\<close>
  "token_expiry now e =
     (case e of
        None \<Rightarrow> Inr None
      | Some secs \<Rightarrow>
          if secs = 0 then Inl ''expires_in_seconds: omit the field for no expiry; 0 is ambiguous''
          else if secs < 0 then Inl ''expires_in_seconds: must be positive''
          else if wrap64 (secs * second) > maxTokenTTL \<or> secs > maxTokenTTL div second then Inl ''expires_in_seconds: exceeds 366 days''
          else Inr (Some (now + wrap64 (secs * second))))"

definition createToken :: "aenv \<Rightarrow> 'r handler" where
  "createToken env req ctx A =
     (case decode_createToken (rqBody req) of
        None \<Rightarrow> (writeError 400 ''name required'', A)
      | Some r \<Rightarrow>
          if ctName r = [] then (writeError 400 ''name required'', A)
          else let scopes = (if ctScopes r = [] then [''models:read''] else ctScopes r)
               in case filter (\<lambda>s. s \<notin> set allowedTokenScopes) scopes of
                    s # _ \<Rightarrow> (writeError 400 (''scope not allowed: '' @ s), A)
                  | [] \<Rightarrow>
                      (case token_expiry (anow env) (ctExpiresIn r) of
                         Inl msg \<Rightarrow> (writeError 400 msg, A)
                       | Inr expires \<Rightarrow>
                           let (display, pfx, hash) = GeneratePAT (rndPrefix env) (rndSecret env);
                               owner = (if aType (cActor ctx) = ActorToken then [] else aUser (cActor ctx))
                           in case CreateToken (adn env SCreateToken) (newId env) (aTenant (cActor ctx)) owner (ctName r) pfx hash
                                     scopes expires (adb A) of
                                (Inl e, db) \<Rightarrow> (writeError 500 ''failed to create token'', A\<lparr>adb := db\<rparr>)
                              | (Inr t, db) \<Rightarrow> (writeJSON 201 (AToken t display), A\<lparr>adb := db\<rparr>)))"

definition revokeToken :: "aenv \<Rightarrow> string \<Rightarrow> 'r handler" where
  "revokeToken env tid req ctx A =
     (if tid = [] then (writeError 400 ''missing token id'', A)
      else case RevokeToken (adn env SRevoke, adn env SRevokeAgain) (aTenant (cActor ctx)) tid (adb A) of
        (Inl e, db) \<Rightarrow>
          (if e = ErrTokenNotFound then writeError 404 ''token not found'' else writeError 500 ''revoke failed'', A\<lparr>adb := db\<rparr>)
      | (Inr (hash, alreadyRevoked), db) \<Rightarrow>
          (\<lparr>asStatus = 204, asHdr = (if alreadyRevoked then hdr_set ''X-Pulsys-Idempotent-Replay'' ''true'' [] else []), asBody = ANone\<rparr>,
           A\<lparr>adb := db, apat := map_option (InvalidateByHash hash) (apat A)\<rparr>))"

subsection \<open>Settings and audit log\<close>

definition listSettings :: "aenv \<Rightarrow> 'r handler" where
  "listSettings env req ctx A =
     (case ListSettings (adn env SListSettings) (aTenant (cActor ctx)) (query_get req ''scope'') (adb A) of
        Inl e \<Rightarrow> (writeError 500 ''failed to list settings'', A)
      | Inr ss \<Rightarrow> (writeJSON 200 (ASettings ss), A))"

definition putSetting :: "aenv \<Rightarrow> (json \<Rightarrow> string) \<Rightarrow> string \<Rightarrow> string \<Rightarrow> 'r handler" where
  \<comment> \<open>\<open>raw\<close> is the text of a document, kept as it is in a \<open>json.RawMessage\<close>; a missing value is \<open>NULL\<close>, which the column refuses\<close>
  "putSetting env raw scope key req ctx A =
     (if scope = [] \<or> key = [] then (writeError 400 ''scope and key required'', A)
      else case rqBody req of
        None \<Rightarrow> (writeError 400 ''invalid json'', A)
      | Some j \<Rightarrow>
          (case (jdecode (\<lambda>a v. Some (Some (raw v))) None ''value'' j, jdecode upd_int 0 ''version'' j) of
             (Some val, Some version) \<Rightarrow>
               if version < 0 then (writeError 400 ''version: must be >= 0'', A)
               else (case UpsertSetting (adn env SUpsert \<or> val = None) (aTenant (cActor ctx)) scope key (the val) version (adb A) of
                       (Inl e, db) \<Rightarrow> (if e = ErrSettingConflict then writeError 409 ''setting version conflict''
                                        else writeError 500 ''settings write failed'', A\<lparr>adb := db\<rparr>)
                     | (Inr s, db) \<Rightarrow> (writeJSON 200 (ASetting s), A\<lparr>adb := db\<rparr>))
           | _ \<Rightarrow> (writeError 400 ''invalid json'', A)))"

definition listAudit :: "aenv \<Rightarrow> 'r handler" where
  "listAudit env req ctx A =
     (case ListAudit (adn env SListAudit) (aTenant (cActor ctx)) (queryLimit req 100) (adb A) of
        Inl e \<Rightarrow> (writeError 500 ''failed to list audit'', A)
      | Inr rows \<Rightarrow> (writeJSON 200 (AAudit rows), A))"

subsection \<open>Imports\<close>

definition unavailable :: aresp where
  "unavailable = writeError 503 ''import service unavailable''"

definition createImport :: "'r acfg \<Rightarrow> aenv \<Rightarrow> 'r handler" where
  "createImport cfg env req ctx A =
     (if acRiver cfg = None then (unavailable, A)
      else case Option.bind (rqBody req) (\<lambda>j. case (jstring ''repo_id'' j, jstring ''revision'' j) of
                    (Some a, Some b) \<Rightarrow> Some (trim_space a, trim_space b) | _ \<Rightarrow> None) of
        None \<Rightarrow> (writeError 400 ''invalid json'', A)
      | Some (repo, rev0) \<Rightarrow>
          let rv = (if rev0 = [] then ''main'' else rev0)
          in if repo = [] then (writeError 400 ''repo_id required'', A)
             else if \<not> validHFRepoID repo then (writeError 400 ''invalid repo_id'', A)
             else if \<not> validHFRevision rv then (writeError 400 ''invalid revision'', A)
             else let payload = args_json (repo, rv, ''models'');
                      createdBy = (if aType (cActor ctx) = ActorToken then [] else aUser (cActor ctx))
                  in case CreateImportJob (acRiver cfg) (aTenant (cActor ctx)) createdBy ImportJobTypeHFCacheImport (Some payload) (aqueue A) of
                       (Inl e, q) \<Rightarrow> (writeError 500 ''failed to create import'', A\<lparr>aqueue := q\<rparr>)
                     | (Inr job, q) \<Rightarrow> (writeJSON 201 (AJob job),
                         insertAudit env (cActor ctx) ''import.create'' (''imports/'' @ ijID job) ''success'' (A\<lparr>aqueue := q\<rparr>)))"

definition listImports :: "'r acfg \<Rightarrow> 'r handler" where
  "listImports cfg req ctx A =
     (if acRiver cfg = None then (unavailable, A)
      else case ListImportJobs (acRiver cfg) (aTenant (cActor ctx)) (queryLimit req 100) (aqueue A) of
        Inl e \<Rightarrow> (writeError 500 ''failed to list imports'', A)
      | Inr jobs \<Rightarrow> (writeJSON 200 (AJobs jobs), A))"

definition getImport :: "'r acfg \<Rightarrow> string \<Rightarrow> 'r handler" where
  "getImport cfg jid req ctx A =
     (if acRiver cfg = None then (unavailable, A)
      else if jid = [] then (writeError 400 ''missing import id'', A)
      else case GetImportJob (acRiver cfg) (aTenant (cActor ctx)) jid (aqueue A) of
        Inl e \<Rightarrow> (if e = ErrImportJobNotFound then writeError 404 ''import not found'' else writeError 500 ''failed to get import'', A)
      | Inr job \<Rightarrow> (writeJSON 200 (AJob job), A))"

definition import_done ::
  "aenv \<Rightarrow> string \<Rightarrow> string \<Rightarrow> string \<Rightarrow> import_err option \<times> 'r \<Rightarrow> rctx \<Rightarrow> 'r admin \<Rightarrow> aresp \<times> 'r admin" where
  \<comment> \<open>the common end of the three operations on a job: status for each error, an audit row and 204 otherwise\<close>
  "import_done env action fail_msg jid res ctx A =
     (case res of
        (Some e, q) \<Rightarrow>
          (if e = ErrImportJobNotFound then writeError 404 ''import not found''
           else if e = ErrImportJobRunning \<and> action = ''import.delete'' then writeError 409 ''import is running; cancel before delete''
           else writeError 500 fail_msg, A\<lparr>aqueue := q\<rparr>)
      | (None, q) \<Rightarrow> (\<lparr>asStatus = 204, asHdr = [], asBody = ANone\<rparr>,
          insertAudit env (cActor ctx) action (''imports/'' @ jid) ''success'' (A\<lparr>aqueue := q\<rparr>)))"

definition cancelImport :: "'r acfg \<Rightarrow> aenv \<Rightarrow> string \<Rightarrow> 'r handler" where
  "cancelImport cfg env jid req ctx A =
     (if acRiver cfg = None then (unavailable, A)
      else if jid = [] then (writeError 400 ''missing import id'', A)
      else import_done env ''import.cancel'' ''cancel failed'' jid
             (CancelImportJob (acRiver cfg) (aTenant (cActor ctx)) jid (aqueue A)) ctx A)"

definition forceCancelImport :: "'r acfg \<Rightarrow> aenv \<Rightarrow> string \<Rightarrow> 'r handler" where
  "forceCancelImport cfg env jid req ctx A =
     (if acRiver cfg = None then (unavailable, A)
      else if jid = [] then (writeError 400 ''missing import id'', A)
      else import_done env ''import.force_cancel'' ''force-cancel failed'' jid
             (ForceCancelImportJob (acRiver cfg) (aTenant (cActor ctx)) jid (aqueue A)) ctx A)"

definition deleteImport :: "'r acfg \<Rightarrow> aenv \<Rightarrow> string \<Rightarrow> 'r handler" where
  "deleteImport cfg env jid req ctx A =
     (if acRiver cfg = None then (unavailable, A)
      else if jid = [] then (writeError 400 ''missing import id'', A)
      else import_done env ''import.delete'' ''delete failed'' jid
             (DeleteImportJob (acRiver cfg) (aTenant (cActor ctx)) jid (aqueue A)) ctx A)"

subsection \<open>Cache\<close>

definition listModels :: "aenv \<Rightarrow> 'r handler" where
  \<comment> \<open>\<open>CacheDir\<close> is the root of \<open>Cache\<close>; without a cache there is no directory\<close>
  "listModels env req ctx A =
     (case acache A of
        None \<Rightarrow> (writeJSON 200 (AModels []), A)
      | Some s \<Rightarrow> (case ListFromCache (aio env) (queryLimit req 500) s of
            None \<Rightarrow> (writeError 500 ''failed to scan cache'', A)
          | Some ms \<Rightarrow> (writeJSON 200 (AModels ms), A)))"

definition listModelsGrouped :: "aenv \<Rightarrow> 'r handler" where
  "listModelsGrouped env req ctx A =
     (case acache A of
        None \<Rightarrow> (writeJSON 200 (AGrouped [] 0), A)
      | Some s \<Rightarrow> (case ListGroupedFromCache (aio env) (queryLimit req 500) (query_get req ''include_files'' = ''true'') s of
            None \<Rightarrow> (writeError 500 ''failed to scan cache'', A)
          | Some (gs, n) \<Rightarrow> (writeJSON 200 (AGrouped gs n), A)))"

definition cacheStats :: "aenv \<Rightarrow> 'r handler" where
  "cacheStats env req ctx A =
     (case acache A of
        None \<Rightarrow> (writeError 503 ''cache store unavailable'', A)
      | Some s \<Rightarrow> (writeJSON 200 (AStats (StoreStats (aio env) (freeDisk env) s)), A))"

definition purgeCacheByPrefix :: "aenv \<Rightarrow> 'r handler" where
  "purgeCacheByPrefix env req ctx A =
     (case acache A of
        None \<Rightarrow> (writeError 503 ''cache store unavailable'', A)
      | Some s \<Rightarrow>
          (case Option.bind (rqBody req) (\<lambda>j. case (jstring ''org'' j, jstring ''name'' j) of
                  (Some a, Some b) \<Rightarrow> Some (a, b) | _ \<Rightarrow> None) of
             None \<Rightarrow> (writeError 400 ''invalid json'', A)
           | Some (org, name) \<Rightarrow>
               if org = [] \<or> name = [] then (writeError 400 ''org and name required'', A)
               else if \<not> validHFNameSegment org then (writeError 400 ''invalid org segment'', A)
               else if \<not> validHFNameSegment name then (writeError 400 ''invalid name segment'', A)
               else (case purge_model (aio env) org name s of
                       (Some e, _, s1) \<Rightarrow> (writeError 500 ''purge failed'', A\<lparr>acache := Some s1\<rparr>)
                     | (None, res, s1) \<Rightarrow> (writeJSON 200 (APurged res),
                         insertAudit env (cActor ctx) ''cache.purge'' (org @ ''/'' @ name) ''success'' (A\<lparr>acache := Some s1\<rparr>)))))"

subsection \<open>Routing\<close>

datatype pseg = Lit string | Wild

datatype api_op = OpTenant | OpUsers | OpTokens | OpCreateToken | OpRevokeToken | OpSettings | OpPutSetting | OpAudit | OpImports
  | OpCreateImport | OpGetImport | OpCancelImport | OpForceCancel | OpDeleteImport | OpModels | OpGrouped | OpStats | OpPurge

definition api_path :: "string list \<Rightarrow> pseg list" where
  "api_path xs = map Lit ([''admin'', ''api'', ''v1''] @ xs)"

definition Mount :: "(string \<times> pseg list \<times> string \<times> string \<times> api_op) list" where
  \<comment> \<open>method, pattern, minimal role, token scope, handler\<close>
  "Mount =
    [(''GET'', api_path [''tenant''], RoleReader, ''admin:read'', OpTenant),
     (''GET'', api_path [''users''], RoleAdmin, ''admin:write'', OpUsers),
     (''GET'', api_path [''tokens''], RoleMember, ''admin:read'', OpTokens),
     (''POST'', api_path [''tokens''], RoleAdmin, ''admin:write'', OpCreateToken),
     (''DELETE'', api_path [''tokens''] @ [Wild], RoleAdmin, ''admin:write'', OpRevokeToken),
     (''GET'', api_path [''settings''], RoleReader, ''admin:read'', OpSettings),
     (''PUT'', api_path [''settings''] @ [Wild, Wild], RoleAdmin, ''admin:write'', OpPutSetting),
     (''GET'', api_path [''audit''], RoleReader, ''admin:read'', OpAudit),
     (''GET'', api_path [''imports''], RoleReader, ''admin:read'', OpImports),
     (''POST'', api_path [''imports''], RoleAdmin, ''admin:write'', OpCreateImport),
     (''GET'', api_path [''imports''] @ [Wild], RoleReader, ''admin:read'', OpGetImport),
     (''POST'', api_path [''imports''] @ [Wild, Lit ''cancel''], RoleAdmin, ''admin:write'', OpCancelImport),
     (''POST'', api_path [''imports''] @ [Wild, Lit ''force-cancel''], RoleAdmin, ''admin:write'', OpForceCancel),
     (''DELETE'', api_path [''imports''] @ [Wild], RoleAdmin, ''admin:write'', OpDeleteImport),
     (''GET'', api_path [''models''], RoleReader, ''admin:read'', OpModels),
     (''GET'', api_path [''models'', ''grouped''], RoleReader, ''admin:read'', OpGrouped),
     (''GET'', api_path [''cache'', ''stats''], RoleReader, ''admin:read'', OpStats),
     (''DELETE'', api_path [''models'', ''cache''], RoleAdmin, ''admin:write'', OpPurge)]"

fun pat_match :: "pseg list \<Rightarrow> string list \<Rightarrow> string list option" where
  \<comment> \<open>the values of the wildcards; a wildcard does not match a trailing slash, nor an escaped one\<close>
  "pat_match [] [] = Some []"
| "pat_match (Lit s # ps) (x # xs) = (if x = s then pat_match ps xs else None)"
| "pat_match (Wild # ps) (x # xs) = (if x = [] \<or> x = ''/'' then None else map_option ((#) x) (pat_match ps xs))"
| "pat_match _ _ = None"

definition path_segs :: "http_req \<Rightarrow> string list" where
  "path_segs req = map PathUnescape (split_on (CHR ''/'') (drop 1 (rqEsc req)))"

definition method_match :: "string \<Rightarrow> string \<Rightarrow> bool" where
  "method_match pm m \<longleftrightarrow> pm = m \<or> pm = ''GET'' \<and> m = ''HEAD''"

definition clean_path :: "string \<Rightarrow> bool" where
  \<comment> \<open>\<open>cleanPath(p) = p\<close>\<close>
  "clean_path p \<longleftrightarrow> (case p of [] \<Rightarrow> False | c # cs \<Rightarrow> c = CHR ''/'' \<and>
     (let segs = split_on (CHR ''/'') cs
      in list_all (\<lambda>s. s \<noteq> []) (butlast segs) \<and> list_all (\<lambda>s. s \<noteq> ''.'' \<and> s \<noteq> ''..'') segs))"

definition run_op :: "'r acfg \<Rightarrow> aenv \<Rightarrow> (json \<Rightarrow> string) \<Rightarrow> api_op \<Rightarrow> string list \<Rightarrow> 'r handler" where
  "run_op cfg env raw op vs =
     (case op of
        OpTenant \<Rightarrow> getTenant env | OpUsers \<Rightarrow> listUsers env | OpTokens \<Rightarrow> listTokens env
      | OpCreateToken \<Rightarrow> createToken env | OpRevokeToken \<Rightarrow> revokeToken env (vs ! 0)
      | OpSettings \<Rightarrow> listSettings env | OpPutSetting \<Rightarrow> putSetting env raw (vs ! 0) (vs ! 1)
      | OpAudit \<Rightarrow> listAudit env | OpImports \<Rightarrow> listImports cfg | OpCreateImport \<Rightarrow> createImport cfg env
      | OpGetImport \<Rightarrow> getImport cfg (vs ! 0) | OpCancelImport \<Rightarrow> cancelImport cfg env (vs ! 0)
      | OpForceCancel \<Rightarrow> forceCancelImport cfg env (vs ! 0) | OpDeleteImport \<Rightarrow> deleteImport cfg env (vs ! 0)
      | OpModels \<Rightarrow> listModels env | OpGrouped \<Rightarrow> listModelsGrouped env | OpStats \<Rightarrow> cacheStats env
      | OpPurge \<Rightarrow> purgeCacheByPrefix env)"

definition api_route :: "http_req \<Rightarrow> (string \<times> string \<times> api_op \<times> string list) option" where
  "api_route req =
     (case filter (\<lambda>(m, p, _). method_match m (rqMethod req) \<and> pat_match p (path_segs req) \<noteq> None) Mount of
        [] \<Rightarrow> None
      | (m, p, role, scp, op) # _ \<Rightarrow> Some (role, scp, op, the (pat_match p (path_segs req))))"

definition adminMux :: "'r acfg \<Rightarrow> aenv \<Rightarrow> (json \<Rightarrow> string) \<Rightarrow> 'r handler" where
  "adminMux cfg env raw req ctx A =
     (if rqMethod req \<noteq> ''CONNECT'' \<and> \<not> clean_path (rqEsc req) then (text_error 301 [], A)
      else case api_route req of
        Some (role, scp, op, vs) \<Rightarrow> requireAccess role scp (run_op cfg env raw op vs) req ctx A
      | None \<Rightarrow>
          if list_ex (\<lambda>(m, p, _). pat_match p (path_segs req) \<noteq> None) Mount
          then (text_error 405 ''Method Not Allowed'', A) else (text_error 404 ''404 page not found'', A))"

end
