(* ===== verification/Oidc_Login.thy ===== *)
theory Oidc_Login
  imports Admin_Api
begin

text \<open>
  Login: \<open>internal/auth/oidc/service.go\<close> (verification of an id token, provisioning, session) and the handlers of
  \<open>internal/auth/httpx/handler.go\<close>. The OpenID provider and the verification library are third-party code: the
  parameter \<open>verify\<close> gives the claims of a raw token for a provider, or \<open>None\<close> when discovery or verification fails.
\<close>

subsection \<open>Establishing a session\<close>

definition extractGroups :: "json \<Rightarrow> string \<Rightarrow> string list" where
  "extractGroups claims claimName0 =
     (let claimName = (if claimName0 = [] then ''groups'' else claimName0)
      in case jget claimName claims of
           Some (JArr js) \<Rightarrow> List.map_filter (\<lambda>j. case j of JStr s \<Rightarrow> Some s | _ \<Rightarrow> None) js
         | Some (JStr s) \<Rightarrow> if s \<noteq> [] then [s] else []
         | _ \<Rightarrow> [])"

definition str_claim :: "json \<Rightarrow> string \<Rightarrow> string" where
  \<comment> \<open>\<open>claims[k].(string)\<close>\<close>
  "str_claim claims k = (case jget k claims of Some (JStr s) \<Rightarrow> s | _ \<Rightarrow> [])"

definition provisionUser ::
  "aenv \<Rightarrow> OIDCProvider \<Rightarrow> string \<Rightarrow> string \<Rightarrow> string \<Rightarrow> string \<Rightarrow> authdb \<Rightarrow> (auth_err + user_row) \<times> authdb" where
  "provisionUser env prov sub email name role db =
     (case FindUserByOIDCSub (adn env SFindUser) (pvTenant prov) sub db of
        Inl e \<Rightarrow> (Inl e, db)
      | Inr (Some u) \<Rightarrow>
          (case UpdateUserProfile (adn env SUpdateUser) (usId u) email name role db of
             (Some e, db1) \<Rightarrow> (Inl e, db1)
           | (None, db1) \<Rightarrow> (Inr (u\<lparr>usEmail := email, usName := name, usRole := role\<rparr>), db1))
      | Inr None \<Rightarrow>
          if RequirePreprovisioned prov then (Inl ErrLoginDenied, db)
          else (case CreateUserOIDC (adn env SCreateUser) (newUserId env) (pvTenant prov) email name role sub db of
                  (Inl e, db1) \<Rightarrow> (Inl e, db1)
                | (Inr uid, db1) \<Rightarrow> (Inr \<lparr>usId = uid, usTenant = pvTenant prov, usEmail = email, usName = name, usRole = role,
                    usSub = sub, usActive = True, usDeleted = False\<rparr>, db1)))"

definition EstablishSession ::
  "(OIDCProvider \<Rightarrow> string \<Rightarrow> json option) \<Rightarrow> aenv \<Rightarrow> string \<Rightarrow> string \<Rightarrow> authdb \<Rightarrow> (auth_err + session_row \<times> user_row) \<times> authdb" where
  "EstablishSession verify env tenantID rawIDToken db =
     (if rawIDToken = [] then (Inl BadArgument, db)
      else case GetOIDCProviderByTenant (adn env SProvider) tenantID db of
        Inl e \<Rightarrow> (Inl e, db)
      | Inr prov \<Rightarrow>
          (case verify prov rawIDToken of
             None \<Rightarrow> (Inl BadArgument, db)
           | Some claims \<Rightarrow>
               let sub = str_claim claims ''sub'';
                   email0 = str_claim claims ''email'';
                   name0 = str_claim claims ''name'';
                   email = (if email0 = [] then sub @ ''@oidc.local'' else email0);
                   name = (if name0 = [] then email else name0);
                   groups = extractGroups claims (GroupsClaim prov);
                   role = RoleFromGroups groups (OwnerGroups prov) (AdminGroups prov) (JITDefaultRole prov)
               in if sub = [] then (Inl BadArgument, db)
                  else case provisionUser env prov sub email name role db of
                    (Inl e, db1) \<Rightarrow> (Inl e, db1)
                  | (Inr user, db1) \<Rightarrow>
                      (case CreateSession (adn env SCreateSession) (anow env) (newSessionId env) (rndSession env) (rndCsrf env)
                              (usId user) (usTenant user) defaultSessionTTL db1 of
                         (Inl e, db2) \<Rightarrow> (Inl e, db2)
                       | (Inr sess, db2) \<Rightarrow> (Inr (sess, user), db2))))"

definition fields :: "string \<Rightarrow> string list" where
  \<comment> \<open>\<open>strings.Fields\<close>\<close>
  "fields s = filter (\<lambda>w. w \<noteq> []) (split_on SP (map (\<lambda>c. if c \<in> {CHR 0x09, CHR 0x0A, CHR 0x0B, CHR 0x0C, CHR 0x0D} then SP else c) s))"

definition PublicConfig :: "aenv \<Rightarrow> string \<Rightarrow> authdb \<Rightarrow> auth_err + string \<times> string \<times> string \<times> string list" where
  \<comment> \<open>issuer, client id, redirect URI, scopes: the client secret is not part of it\<close>
  "PublicConfig env tenantID db =
     (case GetOIDCProviderByTenant (adn env SProvider) tenantID db of
        Inl e \<Rightarrow> Inl e
      | Inr prov \<Rightarrow>
          let scopes = fields (pvScopes prov)
          in Inr (Issuer prov, ClientID prov, RedirectURI prov,
                  if scopes = [] then [''openid'', ''profile'', ''email''] else scopes))"

subsection \<open>Handlers\<close>

definition resolveTenantWithOverride :: "'r acfg \<Rightarrow> aenv \<Rightarrow> http_req \<Rightarrow> string \<Rightarrow> authdb \<Rightarrow> auth_err + string" where
  "resolveTenantWithOverride cfg env req override db =
     (if query_get req ''tenant_id'' \<noteq> [] then Inr (query_get req ''tenant_id'')
      else let name1 = (if override = [] then acTenant cfg else override);
               name = (if name1 = [] then ''default'' else name1)
           in GetTenantIDByName (adn env STenantName) name db)"

definition set_cookie :: "string \<Rightarrow> string \<Rightarrow> string \<Rightarrow> header \<Rightarrow> header" where
  \<comment> \<open>\<open>http.SetCookie\<close> with the attributes the code sets, the expiry time apart\<close>
  "set_cookie name val attrs h = hdr_add ''Set-Cookie'' (name @ ''='' @ val @ ''; Path=/'' @ attrs) h"

definition oidcConfig :: "'r acfg \<Rightarrow> aenv \<Rightarrow> 'r handler" where
  "oidcConfig cfg env req ctx A =
     (case resolveTenantWithOverride cfg env req [] (adb A) of
        Inl e \<Rightarrow> (text_error 503 ''OIDC not configured for this tenant'', A)
      | Inr tenantID \<Rightarrow>
          (case PublicConfig env tenantID (adb A) of
             Inl e \<Rightarrow> (if e = ErrNoOIDCProvider then text_error 503 ''OIDC not configured for this tenant''
                        else text_error 500 ''failed to load OIDC config'', A)
           | Inr (iss, cid, uri, scs) \<Rightarrow>
               (\<lparr>asStatus = 200, asHdr = hdr_set ''Content-Type'' ''application/json'' [], asBody = AConfig iss cid uri scs\<rparr>, A)))"

definition establishSession :: "'r acfg \<Rightarrow> (OIDCProvider \<Rightarrow> string \<Rightarrow> json option) \<Rightarrow> aenv \<Rightarrow> 'r handler" where
  "establishSession cfg verify env req ctx A =
     (case Option.bind (rqBody req) (\<lambda>j. case (jstring ''id_token'' j, jstring ''tenant'' j) of
             (Some a, Some b) \<Rightarrow> Some (a, b) | _ \<Rightarrow> None) of
        None \<Rightarrow> (text_error 400 ''id_token required'', A)
      | Some (idToken, tenant) \<Rightarrow>
          if idToken = [] then (text_error 400 ''id_token required'', A)
          else (case resolveTenantWithOverride cfg env req tenant (adb A) of
             Inl e \<Rightarrow> (text_error 401 ''session establishment failed'', A)
           | Inr tenantID \<Rightarrow>
               (case EstablishSession verify env tenantID idToken (adb A) of
                  (Inl e, db) \<Rightarrow> (text_error 401 ''session establishment failed'', A\<lparr>adb := db\<rparr>)
                | (Inr (sess, user), db) \<Rightarrow>
                    (\<lparr>asStatus = 200,
                      asHdr = hdr_set ''Content-Type'' ''application/json''
                        (set_cookie CSRFCookieName (ssCsrf sess) ''; SameSite=Strict''
                          (set_cookie SessionCookieName (rndSession env) ''; HttpOnly; SameSite=Lax'' [])),
                      asBody = ASession (usId user) (usEmail user) (usRole user) (ssCsrf sess)\<rparr>,
                     A\<lparr>adb := db\<rparr>))))"

definition csrfToken :: "aenv \<Rightarrow> 'r handler" where
  "csrfToken env req ctx A =
     (case cookie req SessionCookieName of
        None \<Rightarrow> (text_error 401 ''unauthorized'', A)
      | Some v \<Rightarrow>
          if v = [] then (text_error 401 ''unauthorized'', A)
          else (case LookupSession (adn env SLookupSession, adn env SLookupUser) (anow env) v (adb A) of
                  Inl e \<Rightarrow> (text_error 401 ''unauthorized'', A)
                | Inr (sess, _) \<Rightarrow>
                    (\<lparr>asStatus = 200,
                      asHdr = hdr_set ''Content-Type'' ''application/json'' (set_cookie CSRFCookieName (ssCsrf sess) ''; SameSite=Strict'' []),
                      asBody = ACsrf (ssCsrf sess)\<rparr>, A)))"

definition logout :: "aenv \<Rightarrow> 'r handler" where
  "logout env req ctx A =
     (let db = (case cookie req SessionCookieName of
                  Some v \<Rightarrow> if v \<noteq> [] then RevokeSession (adn env SRevokeSession) v (adb A) else adb A
                | None \<Rightarrow> adb A)
      in (\<lparr>asStatus = 204,
           asHdr = set_cookie CSRFCookieName [] ''; Max-Age=0; SameSite=Strict''
             (set_cookie SessionCookieName [] ''; Max-Age=0; HttpOnly; SameSite=Lax'' []),
           asBody = ANone\<rparr>, A\<lparr>adb := db\<rparr>))"

definition authMux :: "'r acfg \<Rightarrow> (OIDCProvider \<Rightarrow> string \<Rightarrow> json option) \<Rightarrow> aenv \<Rightarrow> 'r handler" where
  "authMux cfg verify env req ctx A =
     (let segs = path_segs req; m = rqMethod req
      in if m \<noteq> ''CONNECT'' \<and> \<not> clean_path (rqEsc req) then (text_error 301 [], A)
         else if segs = [''auth'', ''oidc'', ''config''] then
           (if method_match ''GET'' m then oidcConfig cfg env req ctx A else (text_error 405 ''Method Not Allowed'', A))
         else if segs = [''auth'', ''csrf''] then
           (if method_match ''GET'' m then csrfToken env req ctx A else (text_error 405 ''Method Not Allowed'', A))
         else if segs = [''auth'', ''session''] then
           (if m = ''POST'' then establishSession cfg verify env req ctx A else (text_error 405 ''Method Not Allowed'', A))
         else if segs = [''auth'', ''logout''] then
           (if m = ''POST'' then logout env req ctx A else (text_error 405 ''Method Not Allowed'', A))
         else (text_error 404 ''404 page not found'', A))"

subsection \<open>What a login gives\<close>

lemma provisionUser_Inr:
  assumes "provisionUser env prov sub email name role db = (Inr user, db1)"
  shows "usTenant user = pvTenant prov" "usSub user = sub" "usRole user = role" "usEmail user = email"
    "sessions db1 = sessions db" "tokens db1 = tokens db" "providers db1 = providers db"
    "settings db1 = settings db" "auditlog db1 = auditlog db" "tenants db1 = tenants db"
    "RequirePreprovisioned prov \<Longrightarrow> \<exists>u \<in> set (users db). usId u = usId user \<and> usTenant u = pvTenant prov \<and> usSub u = sub \<and> \<not> usDeleted u"
  using assms
  by (auto simp: provisionUser_def FindUserByOIDCSub_def UpdateUserProfile_def CreateUserOIDC_def
      split: sum.splits option.splits prod.splits if_splits dest!: first_row_Some)

lemma first_row_unique:
  assumes "r \<in> set rows" "p r" "\<And>x. x \<in> set rows \<Longrightarrow> p x \<Longrightarrow> x = r"
  shows "first_row p rows = Some r"
proof (cases "first_row p rows")
  case None
  with assms(1,2) show ?thesis by (simp add: first_row_None)
next
  case (Some x)
  with first_row_Some [OF Some] assms(3) [of x] show ?thesis by simp
qed

lemma fresh_id: "k \<notin> f ` S \<Longrightarrow> x \<in> S \<Longrightarrow> f x = k \<Longrightarrow> P"
  by blast

lemma distinct_id_eq: "distinct (map f xs) \<Longrightarrow> x \<in> set xs \<Longrightarrow> y \<in> set xs \<Longrightarrow> f x = f y \<Longrightarrow> x = y"
  by (auto simp: distinct_map inj_on_def)

lemma provisionUser_row:
  assumes "provisionUser env prov sub email name role db = (Inr user, db1)"
    "distinct (map usId (users db))" "newUserId env \<notin> usId ` set (users db)"
  shows "first_row (\<lambda>u. usId u = usId user \<and> \<not> usDeleted u) (users db1) = Some user"
proof (cases "first_row (\<lambda>u. usTenant u = pvTenant prov \<and> usSub u = sub \<and> \<not> usDeleted u) (users db)")
  case None
  with assms(1) have e: "users db1 = users db @ [user]" "usId user = newUserId env" "\<not> usDeleted user"
    by (auto simp: provisionUser_def FindUserByOIDCSub_def CreateUserOIDC_def split: if_splits)
  show ?thesis by (rule first_row_unique) (use e fresh_id [OF assms(3)] in auto)
next
  case (Some u)
  then have u: "u \<in> set (users db)" "\<not> usDeleted u" by (auto dest: first_row_Some)
  from Some assms(1) have e: "user = u\<lparr>usEmail := email, usName := name, usRole := role\<rparr>"
    "users db1 = update_rows (\<lambda>v. usId v = usId u \<and> \<not> usDeleted v) (\<lambda>v. v\<lparr>usEmail := email, usName := name, usRole := role\<rparr>) (users db)"
    by (auto simp: provisionUser_def FindUserByOIDCSub_def UpdateUserProfile_def split: if_splits)
  show ?thesis
  proof (rule first_row_unique)
    show "user \<in> set (users db1)" using u e by (force simp: update_rows_def)
    show "x = user" if "x \<in> set (users db1)" "usId x = usId user \<and> \<not> usDeleted x" for x
      using that u e distinct_id_eq [OF assms(2) _ u(1)] by (auto simp: update_rows_def split: if_splits)
  qed (use u e in auto)
qed

text \<open>C26: a login. When a session is established for a tenant, the tenant's enabled provider verified the token and named a subject; the session's user has that
  subject and tenant, existed before if the provider requires it, and carries the role its groups give at this login;
  the only other changes are in the users table. If the random secret is new, ids are unique and the account is active, the
  session cookie then resolves to exactly this session and user at every moment of the session's lifetime.\<close>

theorem login_session:
  assumes "EstablishSession verify env t raw db = (Inr (sess, user), db')"
    "distinct (map usId (users db))" "newUserId env \<notin> usId ` set (users db)"
    "TokenHash (rndSession env) \<notin> ssHash ` set (sessions db)"
  shows "\<exists>prov \<in> set (providers db). \<exists>claims. pvTenant prov = t \<and> pvEnabled prov \<and> verify prov raw = Some claims \<and>
      str_claim claims ''sub'' \<noteq> [] \<and> usSub user = str_claim claims ''sub'' \<and> usTenant user = t \<and>
      usRole user = RoleFromGroups (extractGroups claims (GroupsClaim prov)) (OwnerGroups prov) (AdminGroups prov) (JITDefaultRole prov) \<and>
      (RequirePreprovisioned prov \<longrightarrow> (\<exists>u \<in> set (users db). usId u = usId user \<and> usTenant u = t \<and> usSub u = usSub user)) \<and>
      db' = db\<lparr>users := users db', sessions := sessions db @ [sess]\<rparr> \<and> ssExpires sess = anow env + defaultSessionTTL \<and>
      (usActive user \<longrightarrow> now < ssExpires sess \<longrightarrow> LookupSession (False, False) now (rndSession env) db' = Inr (sess, user))"
proof -
  obtain prov where p: "prov \<in> set (providers db)" "pvTenant prov = t" "pvEnabled prov"
    "GetOIDCProviderByTenant (adn env SProvider) t db = Inr prov"
    using assms(1) by (auto simp: EstablishSession_def GetOIDCProviderByTenant_def split: if_splits option.splits dest!: first_row_Some)
  then obtain claims where c: "verify prov raw = Some claims" "str_claim claims ''sub'' \<noteq> []"
    using assms(1) by (auto simp: EstablishSession_def Let_def split: if_splits option.splits)
  define role where "role = RoleFromGroups (extractGroups claims (GroupsClaim prov)) (OwnerGroups prov) (AdminGroups prov) (JITDefaultRole prov)"
  obtain email name db1 where u: "provisionUser env prov (str_claim claims ''sub'') email name role db = (Inr user, db1)"
    and s: "sess = \<lparr>ssId = newSessionId env, ssHash = TokenHash (rndSession env), ssUser = usId user, ssTenant = usTenant user,
      ssCsrf = rndCsrf env, ssExpires = anow env + defaultSessionTTL, ssRevoked = False\<rparr>" "db' = db1\<lparr>sessions := sessions db1 @ [sess]\<rparr>"
    using assms(1) p(4) c by (auto simp: EstablishSession_def Let_def role_def CreateSession_def split: if_splits prod.splits sum.splits)
  note U = provisionUser_Inr [OF u]
  have "first_row (live_session now (TokenHash (rndSession env))) (sessions db') = Some sess" if "now < ssExpires sess"
    by (rule first_row_unique) (use that s U(5) fresh_id [OF assms(4)] in \<open>auto simp: live_session_def\<close>)
  then have look: "usActive user \<longrightarrow> now < ssExpires sess \<longrightarrow> LookupSession (False, False) now (rndSession env) db' = Inr (sess, user)"
    using provisionUser_row [OF u assms(2,3)] s by (simp add: LookupSession_def)
  have frame: "db' = db\<lparr>users := users db', sessions := sessions db @ [sess]\<rparr>"
    using U(5-10) s(2) by (cases db; cases db1) simp
  have pre: "RequirePreprovisioned prov \<longrightarrow> (\<exists>u \<in> set (users db). usId u = usId user \<and> usTenant u = t \<and> usSub u = usSub user)"
    using U(11) unfolding U(2) p(2) by blast
  have "usRole user = role" "usSub user = str_claim claims ''sub''" "usTenant user = t" "ssExpires sess = anow env + defaultSessionTTL"
    using U(1-3) p(2) s(1) by simp_all
  then show ?thesis unfolding role_def by (intro bexI [OF _ p(1)] exI [of _ claims] conjI look frame pre p c)
qed

definition demo_aenv :: aenv where
  "demo_aenv = \<lparr>anow = 0, adn = (\<lambda>_. False), newId = ''n'', newUserId = ''u1'', newSessionId = ''s1'', rndPrefix = ''abcd'', rndSecret = ''x'',
     rndSession = ''secret'', rndCsrf = ''csrf'', aio = no_faults, freeDisk = 0\<rparr>"

definition demo_provider :: OIDCProvider where
  "demo_provider = \<lparr>pvTenant = ''t'', Issuer = ''https://idp'', ClientID = ''c'', ClientSecret = ''k'', RedirectURI = ''https://p/cb'', pvScopes = [],
     pvEnabled = True, GroupsClaim = [], OwnerGroups = [''root''], AdminGroups = [], JITDefaultRole = ''reader'', RequirePreprovisioned = False\<rparr>"

definition demo_verify :: "OIDCProvider \<Rightarrow> string \<Rightarrow> json option" where
  "demo_verify p raw = (if raw = ''tok'' then Some (JObj [(''sub'', JStr ''bob''), (''groups'', JArr [JStr ''root''])]) else None)"

theorem login_session_witness:
  "case EstablishSession demo_verify demo_aenv ''t'' ''tok'' (empty_db\<lparr>providers := [demo_provider]\<rparr>) of
     (Inr (sess, user), db') \<Rightarrow> usRole user = RoleOwner \<and> LookupSession (False, False) 1 ''secret'' db' = Inr (sess, user)
   | _ \<Rightarrow> False"
proof -
  let ?db = "empty_db\<lparr>providers := [demo_provider]\<rparr>"
  obtain sess user db' where r: "EstablishSession demo_verify demo_aenv ''t'' ''tok'' ?db = (Inr (sess, user), db')"
    and u: "usActive user" "ssExpires sess = defaultSessionTTL" "usRole user = RoleOwner"
    by (simp add: EstablishSession_def GetOIDCProviderByTenant_def first_row_def demo_verify_def demo_aenv_def demo_provider_def
      str_claim_def jget_def provisionUser_def FindUserByOIDCSub_def CreateUserOIDC_def CreateSession_def empty_db_def Let_def
      RoleFromGroups_def extractGroups_def map_filter_simps)
  have "1 < ssExpires sess" by (simp add: u(2) defaultSessionTTL_def)
  moreover have "distinct (map usId (users ?db))" "newUserId demo_aenv \<notin> usId ` set (users ?db)"
    "TokenHash (rndSession demo_aenv) \<notin> ssHash ` set (sessions ?db)" by (simp_all add: empty_db_def)
  ultimately have "LookupSession (False, False) 1 (rndSession demo_aenv) db' = Inr (sess, user)"
    using login_session [OF r, of 1] u(1) by blast
  then show ?thesis using r u(3) by (simp add: demo_aenv_def)
qed

lemma grant_undone:
  \<comment> \<open>every login writes the role its groups give: a break-glass promotion lasts until the next login of that user\<close>
  "let u = \<lparr>usId = ''u'', usTenant = ''t'', usEmail = ''e'', usName = ''n'', usRole = RoleReader, usSub = ''bob'', usActive = True, usDeleted = False\<rparr>;
       db1 = snd (GrantOwner (\<lambda>_. False) ''t'' ''e'' [] (empty_db\<lparr>users := [u]\<rparr>));
       db2 = snd (provisionUser demo_aenv demo_provider ''bob'' ''e'' ''n'' RoleReader db1)
   in map usRole (users db1) = [RoleOwner] \<and> map usRole (users db2) = [RoleReader]"
  by code_simp

end
