(* ===== verification/Admin_Server.thy ===== *)
theory Admin_Server
  imports Oidc_Login
begin

text \<open>
  The admin listener as a whole: the audit middleware of \<open>internal/admin/audit/middleware.go\<close> and the composition of
  \<open>internal/admin/server.go\<close>, request in, response and new state out. The properties of the surface are stated of
  this composition: who can change what, whose data a response shows, and what the audit log records.
\<close>

subsection \<open>Audit\<close>

definition idempotentReplayHeader :: string where
  "idempotentReplayHeader = ''X-Pulsys-Idempotent-Replay''"

definition shouldAudit :: "http_req \<Rightarrow> bool" where
  "shouldAudit req =
     (if rqMethod req = ''DELETE'' \<and> rqPath req = ''/admin/api/v1/models/cache'' then False
      else if rqMethod req \<notin> {''POST'', ''PUT'', ''DELETE'', ''PATCH''} then False
      else if has_prefix (rqPath req) ''/admin/api/v1/'' then True
      else rqPath req = ''/auth/session'' \<or> rqPath req = ''/auth/logout'')"

definition mapAction :: "string \<Rightarrow> string \<Rightarrow> string \<times> string" where
  "mapAction m p =
     (if m = ''POST'' \<and> p = ''/admin/api/v1/tokens'' then (''token.create'', ''tokens'')
      else if m = ''DELETE'' \<and> has_prefix p ''/admin/api/v1/tokens/'' then (''token.revoke'', trim_prefix p ''/admin/'')
      else if m = ''PUT'' \<and> has_prefix p ''/admin/api/v1/settings/'' then (''settings.update'', trim_prefix p ''/admin/api/v1/settings/'')
      else if m = ''POST'' \<and> p = ''/admin/api/v1/imports'' then (''import.create'', ''imports'')
      else if m = ''POST'' \<and> has_prefix p ''/admin/api/v1/imports/'' \<and> has_suffix p ''/cancel'' then (''import.cancel'', trim_prefix p ''/admin/'')
      else if m = ''DELETE'' \<and> has_prefix p ''/admin/api/v1/imports/'' then (''import.delete'', trim_prefix p ''/admin/'')
      else if m = ''POST'' \<and> p = ''/auth/session'' then (''auth.session.create'', ''sessions'')
      else if m = ''POST'' \<and> p = ''/auth/logout'' then (''auth.session.revoke'', ''sessions'')
      else if has_prefix p ''/admin/api/v1/'' then (''admin.mutate'', trim_prefix p ''/admin/'')
      else ([], []))"

definition outcomeForStatus :: "int \<Rightarrow> string" where
  "outcomeForStatus s =
     (if 200 \<le> s \<and> s < 300 then ''success'' else if s = 401 \<or> s = 403 then ''denied'' else ''failure'')"

definition actorIDPtr :: "Actor \<Rightarrow> string option" where
  "actorIDPtr a =
     (if aType a = ActorUser \<and> aUser a \<noteq> [] then Some (aUser a)
      else if aType a = ActorToken \<and> aToken a \<noteq> [] then Some (aToken a) else None)"

definition resolveTenant :: "'r acfg \<Rightarrow> aenv \<Rightarrow> http_req \<Rightarrow> authdb \<Rightarrow> string" where
  "resolveTenant cfg env req db =
     (if query_get req ''tenant_id'' \<noteq> [] then query_get req ''tenant_id''
      else case GetTenantIDByName (adn env STenantName) (if acTenant cfg = [] then ''default'' else acTenant cfg) db of
        Inl e \<Rightarrow> [] | Inr t \<Rightarrow> t)"

definition audit_record :: "'r acfg \<Rightarrow> aenv \<Rightarrow> http_req \<Rightarrow> rctx \<Rightarrow> int \<Rightarrow> 'r admin \<Rightarrow> 'r admin" where
  "audit_record cfg env req ctx status A =
     (let (action, resource) = mapAction (rqMethod req) (rqPath req);
          actor = cActor ctx;
          tenant = (if aTenant actor = [] then resolveTenant cfg env req (adb A) else aTenant actor)
      in if action = [] \<or> tenant = [] then A
         else A\<lparr>adb := InsertAudit (adn env SInsertAudit) tenant (actor_string actor) (actorIDPtr actor) action resource
                (outcomeForStatus status) (adb A)\<rparr>)"

definition Wrap :: "'r acfg \<Rightarrow> aenv \<Rightarrow> 'r handler \<Rightarrow> 'r handler" where
  "Wrap cfg env hnd req ctx A =
     (if \<not> shouldAudit req then hnd req ctx A
      else case hnd req ctx A of
        (resp, A1) \<Rightarrow>
          if hdr_get (asHdr resp) idempotentReplayHeader = ''true''
          then (resp\<lparr>asHdr := hdr_del idempotentReplayHeader (asHdr resp)\<rparr>, A1)
          else (resp, audit_record cfg env req ctx (asStatus resp) A1))"

subsection \<open>Composition\<close>

definition security_header :: header where
  "security_header =
     hdr_set ''Permissions-Policy'' ''camera=(), microphone=(), geolocation=(), payment=(), usb=()''
    (hdr_set ''Cross-Origin-Resource-Policy'' ''same-origin''
    (hdr_set ''Cross-Origin-Opener-Policy'' ''same-origin''
    (hdr_set ''Referrer-Policy'' ''no-referrer''
    (hdr_set ''X-Frame-Options'' ''DENY''
    (hdr_set ''X-Content-Type-Options'' ''nosniff'' [])))))"

definition securityHeaders :: "aresp \<times> 'r admin \<Rightarrow> aresp \<times> 'r admin" where
  \<comment> \<open>set before the handler runs, which may set them again\<close>
  "securityHeaders r = ((fst r)\<lparr>asHdr := foldl (\<lambda>h kv. AList.update (fst kv) (snd kv) h) security_header (asHdr (fst r))\<rparr>, snd r)"

definition notFound :: aresp where
  "notFound = \<lparr>asStatus = 404, asHdr = hdr_set ''Content-Type'' ''application/json; charset=utf-8'' [], asBody = AError ''not_found''\<rparr>"

definition NewHandler ::
  "'r acfg \<Rightarrow> (OIDCProvider \<Rightarrow> string \<Rightarrow> json option) \<Rightarrow> (json \<Rightarrow> string) \<Rightarrow> (http_req \<Rightarrow> aresp) \<Rightarrow> aenv \<Rightarrow> http_req \<Rightarrow> 'r admin \<Rightarrow> aresp \<times> 'r admin" where
  \<comment> \<open>\<open>other\<close> answers \<open>/metrics\<close> and \<open>/healthz\<close>\<close>
  "NewHandler cfg verify raw other env req A =
     securityHeaders
       (if path_segs req \<noteq> [] \<and> hd (path_segs req) = ''auth'' \<and> length (path_segs req) \<ge> 2
        then Middleware env (CSRFProtect (Wrap cfg env (authMux cfg verify env))) req A
        else if path_segs req \<noteq> [] \<and> hd (path_segs req) = ''admin'' \<and> length (path_segs req) \<ge> 2
        then Middleware env (CSRFProtect (requireAuthenticated (Wrap cfg env (adminMux cfg env raw)))) req A
        else (other req, A))"

definition CombinedHandler ::
  "'r acfg \<Rightarrow> (OIDCProvider \<Rightarrow> string \<Rightarrow> json option) \<Rightarrow> (json \<Rightarrow> string) \<Rightarrow> (http_req \<Rightarrow> aresp) \<Rightarrow> aenv \<Rightarrow> http_req \<Rightarrow> 'r admin \<Rightarrow> aresp \<times> 'r admin" where
  "CombinedHandler cfg verify raw other env req A =
     (if rqMethod req \<noteq> ''CONNECT'' \<and> \<not> clean_path (rqEsc req) then (text_error 301 [], A)
      else let segs = path_segs req
           in if segs \<in> {[''auth''], [''admin'']} then (text_error 301 [], A)
              else if segs \<in> {[''metrics''], [''healthz'']} \<or> length segs \<ge> 2 \<and> hd segs \<in> {''auth'', ''admin''}
              then NewHandler cfg verify raw other env req A
              else (notFound, A))"

subsection \<open>Effects of the handlers\<close>

definition own_db :: "string \<Rightarrow> authdb \<Rightarrow> authdb \<Rightarrow> bool" where
  \<comment> \<open>only rows of the tenant, and only tokens, settings and audit rows, have changed; sessions apart\<close>
  "own_db t db db' \<longleftrightarrow>
     tenants db' = tenants db \<and> providers db' = providers db \<and> users db' = users db \<and>
     filter (\<lambda>r. tkTenant r \<noteq> t) (tokens db') = filter (\<lambda>r. tkTenant r \<noteq> t) (tokens db) \<and>
     filter (\<lambda>r. stTenant r \<noteq> t) (settings db') = filter (\<lambda>r. stTenant r \<noteq> t) (settings db) \<and>
     filter (\<lambda>r. auTenant r \<noteq> t) (auditlog db') = filter (\<lambda>r. auTenant r \<noteq> t) (auditlog db)"

definition body_of_tenant :: "string \<Rightarrow> abody \<Rightarrow> bool" where
  \<comment> \<open>every row in the response belongs to the tenant\<close>
  "body_of_tenant t b \<longleftrightarrow>
     (case b of
        ATenant r \<Rightarrow> tnId r = t | AUsers us \<Rightarrow> list_all (\<lambda>u. usTenant u = t) us | ATokens ts \<Rightarrow> list_all (\<lambda>r. tkTenant r = t) ts
      | AToken r _ \<Rightarrow> tkTenant r = t | ASettings ss \<Rightarrow> list_all (\<lambda>s. stTenant s = t) ss | ASetting s \<Rightarrow> stTenant s = t
      | AAudit rs \<Rightarrow> list_all (\<lambda>r. auTenant r = t) rs | AJobs js \<Rightarrow> list_all (\<lambda>j. ijTenant j = t) js | AJob j \<Rightarrow> ijTenant j = t
      | _ \<Rightarrow> True)"

fun reads_only :: "api_op \<Rightarrow> bool" where
  "reads_only OpCreateToken = False" | "reads_only OpRevokeToken = False" | "reads_only OpPutSetting = False"
| "reads_only OpCreateImport = False" | "reads_only OpCancelImport = False" | "reads_only OpForceCancel = False"
| "reads_only OpDeleteImport = False" | "reads_only OpPurge = False" | "reads_only _ = True"

lemma own_db_refl [simp]: "own_db t db db"
  by (simp add: own_db_def)

lemma filter_update_rows:
  "(\<And>r. p r \<Longrightarrow> \<not> q r \<and> \<not> q (f r)) \<Longrightarrow> filter q (update_rows p f rows) = filter q rows"
  by (induction rows) (auto simp: update_rows_def)

lemma first_row_mem: "first_row p rows = Some r \<Longrightarrow> p r"
  by (auto dest: first_row_Some)

lemma body_text [simp]: "body_of_tenant t (asBody (text_error c m))" "body_of_tenant t (asBody (writeError c m))"
  "asBody (writeJSON c b) = b"
  by (simp_all add: body_of_tenant_def text_error_def writeError_def writeJSON_def)

lemma run_op_reads:
  "reads_only op \<Longrightarrow> snd (run_op cfg env raw op vs req ctx A) = A"
  by (cases op) (auto simp: run_op_def getTenant_def listUsers_def listTokens_def listSettings_def listAudit_def listImports_def
      getImport_def listModels_def listModelsGrouped_def cacheStats_def split: sum.splits option.splits prod.splits)

lemma own_db_statements:
  "CreateToken d i t ow n p h scs e db = (r1, db1) \<Longrightarrow> own_db t db db1"
  "RevokeToken dd t tid db = (r2, db2) \<Longrightarrow> own_db t db db2"
  "UpsertSetting d t scp k v n' db = (r3, db3) \<Longrightarrow> own_db t db db3"
  "own_db t db (InsertAudit d t x1 x2 x3 x4 x5 db)"
  by (auto simp: own_db_def CreateToken_def RevokeToken_def UpsertSetting_def InsertAudit_def Let_def same_setting_def
      split: if_splits option.splits intro!: filter_update_rows)

lemma insertAudit_own [simp]: "own_db (aTenant actor) (adb A) (adb (insertAudit env actor action resource outcome A))"
  by (simp add: insertAudit_def own_db_statements)

lemma insertAudit_own_queue [simp]:
  "own_db (aTenant actor) (adb A) (adb (insertAudit env actor action resource outcome (A\<lparr>aqueue := q\<rparr>)))"
  "own_db (aTenant actor) (adb A) (adb (insertAudit env actor action resource outcome (A\<lparr>acache := c\<rparr>)))"
  by (simp_all add: insertAudit_def own_db_statements)

lemma createToken_own: "own_db (aTenant (cActor ctx)) (adb A) (adb (snd (createToken env req ctx A)))"
  by (auto simp: createToken_def Let_def split: option.splits list.splits sum.splits prod.splits dest: own_db_statements(1))

lemma revokeToken_own: "own_db (aTenant (cActor ctx)) (adb A) (adb (snd (revokeToken env tid req ctx A)))"
  by (auto simp: revokeToken_def split: sum.splits prod.splits dest: own_db_statements(2))

lemma putSetting_own: "own_db (aTenant (cActor ctx)) (adb A) (adb (snd (putSetting env raw scp k req ctx A)))"
  by (auto simp: putSetting_def split: option.splits sum.splits prod.splits dest: own_db_statements(3))

lemma import_done_own: "own_db (aTenant (cActor ctx)) (adb A) (adb (snd (import_done env act msg jid r ctx A)))"
  by (auto simp: import_done_def split: option.splits prod.splits)

lemma createImport_own: "own_db (aTenant (cActor ctx)) (adb A) (adb (snd (createImport cfg env req ctx A)))"
  by (auto simp: createImport_def Let_def split: option.splits prod.splits sum.splits)

lemma purge_own: "own_db (aTenant (cActor ctx)) (adb A) (adb (snd (purgeCacheByPrefix env req ctx A)))"
  by (auto simp: purgeCacheByPrefix_def split: option.splits prod.splits)

lemma run_op_own: "own_db (aTenant (cActor ctx)) (adb A) (adb (snd (run_op cfg env raw op vs req ctx A)))"
proof (cases "reads_only op")
  case True
  then show ?thesis by (simp add: run_op_reads)
next
  case False
  then show ?thesis
    by (cases op) (simp_all add: run_op_def createToken_own revokeToken_own putSetting_own createImport_own purge_own
      cancelImport_def forceCancelImport_def deleteImport_def import_done_own)
qed

lemma jobFromRow_own: "jobFromRow row t = Inr j \<Longrightarrow> t \<noteq> [] \<Longrightarrow> ijTenant j = t"
  by (rule jobFromRow_tenant(2))

lemma GetImportJob_tenant: "GetImportJob rv t jid q = Inr j \<Longrightarrow> ijTenant j = t"
  by (cases rv) (auto simp: GetImportJob_def split: option.splits sum.splits if_splits)

lemma ListImportJobs_tenant: "ListImportJobs rv t lim q = Inr js \<Longrightarrow> t \<noteq> [] \<Longrightarrow> list_all (\<lambda>j. ijTenant j = t) js"
  by (auto simp: ListImportJobs_def split: option.splits sum.splits dest: jobs_from_rows_tenant)

lemma CreateImportJob_tenant: "CreateImportJob rv t by ty p q = (Inr j, q') \<Longrightarrow> t \<noteq> [] \<Longrightarrow> ijTenant j = t"
  by (auto simp: CreateImportJob_def Let_def split: option.splits sum.splits if_splits prod.splits dest: jobFromRow_own)

lemma list_tenant:
  "ListUsers d t l db = Inr us \<Longrightarrow> list_all (\<lambda>u. usTenant u = t) us"
  "ListTokens d t l db = Inr ts \<Longrightarrow> list_all (\<lambda>u. tkTenant u = t) ts"
  "ListAudit d t l db = Inr rs \<Longrightarrow> list_all (\<lambda>u. auTenant u = t) rs"
  "ListSettings d t scp db = Inr ss \<Longrightarrow> list_all (\<lambda>u. stTenant u = t) ss"
  "GetTenant d t db = Inr tn \<Longrightarrow> tnId tn = t"
  by (auto simp: ListUsers_def ListTokens_def ListAudit_def ListSettings_def GetTenant_def list_all_iff
      split: if_splits option.splits dest!: first_row_Some in_set_takeD)

lemma statement_rows:
  "CreateToken d i t ow n p h scs e db = (Inr r, db1) \<Longrightarrow> tkTenant r = t"
  "UpsertSetting d t scp k v n' db = (Inr x, db3) \<Longrightarrow> stTenant x = t"
  by (auto simp: CreateToken_def UpsertSetting_def Let_def same_setting_def split: if_splits option.splits dest!: first_row_Some)

named_theorems api_defs

lemmas [api_defs] = run_op_def getTenant_def listUsers_def listTokens_def createToken_def revokeToken_def listSettings_def putSetting_def
  listAudit_def createImport_def listImports_def getImport_def cancelImport_def forceCancelImport_def deleteImport_def import_done_def
  listModels_def listModelsGrouped_def cacheStats_def purgeCacheByPrefix_def unavailable_def

lemma run_op_body:
  assumes "aTenant (cActor ctx) \<noteq> []"
  shows "body_of_tenant (aTenant (cActor ctx)) (asBody (fst (run_op cfg env raw op vs req ctx A)))"
  using assms
  by (cases op)
    (auto simp: api_defs body_of_tenant_def writeError_def Let_def split: option.splits sum.splits prod.splits list.splits
      dest: list_tenant statement_rows GetImportJob_tenant ListImportJobs_tenant CreateImportJob_tenant)

lemma Mount_writes:
  "list_all (\<lambda>(m, p, role, scp, op). reads_only op \<or>
     role = RoleAdmin \<and> scp = ''admin:write'' \<and> m \<in> {''POST'', ''PUT'', ''DELETE''}) Mount"
  by (simp add: Mount_def)

lemma api_route_Mount:
  assumes "api_route req = Some (role, scp, op, vs)"
  shows "\<exists>m p. (m, p, role, scp, op) \<in> set Mount \<and> method_match m (rqMethod req) \<and> pat_match p (path_segs req) = Some vs"
proof -
  obtain m p xs where f: "filter (\<lambda>(m, p, _). method_match m (rqMethod req) \<and> pat_match p (path_segs req) \<noteq> None) Mount = (m, p, role, scp, op) # xs"
    and v: "vs = the (pat_match p (path_segs req))"
    using assms by (auto simp: api_route_def split: list.splits)
  have "(m, p, role, scp, op) \<in> set (filter (\<lambda>(m, p, _). method_match m (rqMethod req) \<and> pat_match p (path_segs req) \<noteq> None) Mount)"
    unfolding f by simp
  with v show ?thesis by auto
qed

lemma api_route_writes:
  assumes "api_route req = Some (role, scp, op, vs)" "\<not> reads_only op"
  shows "role = RoleAdmin \<and> scp = ''admin:write'' \<and> rqMethod req \<in> {''POST'', ''PUT'', ''DELETE''}"
proof -
  obtain m p where "(m, p, role, scp, op) \<in> set Mount" and m: "method_match m (rqMethod req)"
    using api_route_Mount [OF assms(1)] by blast
  with Mount_writes have "role = RoleAdmin \<and> scp = ''admin:write'' \<and> m \<in> {''POST'', ''PUT'', ''DELETE''}"
    unfolding list_all_iff using assms(2) by blast
  with m show ?thesis by (auto simp: method_match_def)
qed

end
