(* ===== verification/Admin_Props.thy ===== *)
theory Admin_Props
  imports Admin_Server
begin

text \<open>
  Properties of the admin listener: authorization and cross-site protection of every change, isolation of tenants,
  completeness of the audit log, bounds on new tokens, and the end of a revoked token on the data plane.
\<close>

subsection \<open>Paths\<close>

lemma hex_of_slash [simp]: "hex_of (CHR ''/'') = None"
  by code_simp

lemma PathUnescape_slash: "PathUnescape (a @ CHR ''/'' # b) = PathUnescape a @ CHR ''/'' # PathUnescape b"
proof (induction a rule: PathUnescape.induct)
  case (2 c cs)
  show ?case
  proof (cases "c = CHR ''%''")
    case True
    then show ?thesis using 2 by (cases cs; cases "tl cs") (auto split: option.splits list.splits)
  qed (use 2 in simp)
qed simp

lemma PathUnescape_join: "PathUnescape (join_with ''/'' xs) = join_with ''/'' (map PathUnescape xs)"
proof (induction xs)
  case (Cons x xs)
  then show ?case using PathUnescape_slash [of x] by (cases xs) (simp_all add: join_with_Cons)
qed simp

lemma rqPath_segs:
  assumes "rqEsc req = CHR ''/'' # cs"
  shows "rqPath req = CHR ''/'' # join_with ''/'' (path_segs req)"
  using PathUnescape_join [of "split_on (CHR ''/'') cs"] join_split_on [of "CHR ''/''" cs]
  by (simp add: rqPath_def path_segs_def assms)

lemma clean_slash: "clean_path p \<Longrightarrow> \<exists>cs. p = CHR ''/'' # cs"
  by (auto simp: clean_path_def split: list.splits)

lemma rqPath_admin:
  assumes "clean_path (rqEsc req)" "path_segs req = x # y # xs"
  shows "rqPath req = CHR ''/'' # x @ CHR ''/'' # join_with ''/'' (y # xs)"
  using clean_slash [OF assms(1)] rqPath_segs assms(2) by auto

subsection \<open>The path of a request through the checks\<close>

lemma audit_record_frame:
  "tokens (adb (audit_record cfg env req ctx st' A)) = tokens (adb A)"
  "settings (adb (audit_record cfg env req ctx st' A)) = settings (adb A)"
  "users (adb (audit_record cfg env req ctx st' A)) = users (adb A)"
  "sessions (adb (audit_record cfg env req ctx st' A)) = sessions (adb A)"
  "tenants (adb (audit_record cfg env req ctx st' A)) = tenants (adb A)"
  "providers (adb (audit_record cfg env req ctx st' A)) = providers (adb A)"
  "apat (audit_record cfg env req ctx st' A) = apat A" "aqueue (audit_record cfg env req ctx st' A) = aqueue A"
  "acache (audit_record cfg env req ctx st' A) = acache A"
  by (auto simp: audit_record_def InsertAudit_def Let_def split: prod.splits)

lemma ActorFromRequest_db:
  "\<exists>ss. snd (ActorFromRequest env req db) = db\<lparr>sessions := ss\<rparr>"
proof -
  have "\<exists>ss. snd (actorFromSession env v db) = db\<lparr>sessions := ss\<rparr>" for v
    by (auto simp: actorFromSession_def TouchSession_def split: sum.splits intro: exI [of _ "sessions db"])
  then show ?thesis
    by (auto simp: ActorFromRequest_def Let_def split: option.splits if_splits intro: exI [of _ "sessions db"])
qed

definition admin_part :: "'r admin \<Rightarrow> token_row list \<times> setting_row list \<times> patgate option \<times> 'r \<times> store option" where
  "admin_part A = (tokens (adb A), settings (adb A), apat A, aqueue A, acache A)"

definition routed :: "'r acfg \<Rightarrow> (json \<Rightarrow> string) \<Rightarrow> aenv \<Rightarrow> http_req \<Rightarrow> 'r admin \<Rightarrow> Actor \<Rightarrow> api_op \<Rightarrow> string list \<Rightarrow> aresp \<Rightarrow> 'r admin \<Rightarrow> bool" where
  \<comment> \<open>the request went through all checks to the handler of \<open>op\<close>, which gave \<open>resp\<close> and \<open>A1\<close>\<close>
  "routed cfg raw env req A actor op vs resp A1 \<longleftrightarrow>
     (\<exists>csrf role scp. fst (ActorFromRequest env req (adb A)) = Inr (actor, csrf) \<and> api_route req = Some (role, scp, op, vs) \<and>
        (rqMethod req = ''CONNECT'' \<or> clean_path (rqEsc req)) \<and>
        granted role scp actor \<and> (SafeMethod (rqMethod req) \<or> CSRFExemptPath (rqPath req) \<or> ValidateCSRF req actor csrf) \<and>
        run_op cfg env raw op vs req \<lparr>cActor = actor, cCsrf = csrf\<rparr> (A\<lparr>adb := snd (ActorFromRequest env req (adb A))\<rparr>) = (resp, A1))"

lemma replay_text [simp]:
  "hdr_get (asHdr (text_error c m)) idempotentReplayHeader = []" "hdr_get (asHdr (writeError c m)) idempotentReplayHeader = []"
  by (simp add: text_error_def hdr_get_def hdr_values_def) code_simp

lemma adminMux_cases:
  obtains (refused) resp where "adminMux cfg env raw req ctx A = (resp, A)" "asStatus resp \<ge> 300"
      "\<And>t. body_of_tenant t (asBody resp)" "hdr_get (asHdr resp) idempotentReplayHeader = []"
  | (ran) role scp op vs where "adminMux cfg env raw req ctx A = run_op cfg env raw op vs req ctx A"
      "api_route req = Some (role, scp, op, vs)" "granted role scp (cActor ctx)" "rqMethod req = ''CONNECT'' \<or> clean_path (rqEsc req)"
proof (cases "rqMethod req \<noteq> ''CONNECT'' \<and> \<not> clean_path (rqEsc req)")
  case True
  then show ?thesis by (intro refused [of "text_error 301 []"]) (simp_all add: adminMux_def)
next
  case False
  show ?thesis
  proof (cases "api_route req")
    case None
    show ?thesis
    proof (cases "list_ex (\<lambda>(m, p, _). pat_match p (path_segs req) \<noteq> None) Mount")
      case True
      with False None show ?thesis by (intro refused [of "text_error 405 ''Method Not Allowed''"]) (auto simp: adminMux_def)
    next
      case no: False
      with False None show ?thesis by (intro refused [of "text_error 404 ''404 page not found''"]) (auto simp: adminMux_def)
    qed
  next
    case (Some r)
    obtain role scp op vs where r: "api_route req = Some (role, scp, op, vs)" using Some by (cases r) auto
    with False have mux: "adminMux cfg env raw req ctx A = requireAccess role scp (run_op cfg env raw op vs) req ctx A" by (auto simp: adminMux_def)
    show ?thesis
    proof (cases rule: requireAccess_granted [of role scp ctx "run_op cfg env raw op vs" req A])
      case 1
      with mux r False show ?thesis by (intro ran) auto
    next
      case (2 c m)
      with mux show ?thesis by (intro refused [of "writeError c m"]) auto
    qed
  qed
qed

lemma admin_chain:
  assumes "path_segs req = ''admin'' # y # xs"
  obtains (stopped) resp db where "CombinedHandler cfg verify raw other env req A = (resp, A\<lparr>adb := db\<rparr>)"
      "db = adb A \<or> db = snd (ActorFromRequest env req (adb A))" "asStatus resp \<ge> 300" "\<And>t. body_of_tenant t (asBody resp)"
  | (refused) resp actor csrf where "fst (ActorFromRequest env req (adb A)) = Inr (actor, csrf)" "asStatus resp \<ge> 300"
      "\<And>t. body_of_tenant t (asBody resp)" "aType actor \<noteq> Anonymous"
      "CombinedHandler cfg verify raw other env req A =
         (resp, audit_record cfg env req \<lparr>cActor = actor, cCsrf = csrf\<rparr> (asStatus resp) (A\<lparr>adb := snd (ActorFromRequest env req (adb A))\<rparr>))"
  | (ran) actor op vs resp A1 h csrf where "routed cfg raw env req A actor op vs resp A1"
      "CombinedHandler cfg verify raw other env req A = (resp\<lparr>asHdr := h\<rparr>,
         if shouldAudit req \<and> hdr_get (asHdr resp) idempotentReplayHeader \<noteq> ''true''
         then audit_record cfg env req \<lparr>cActor = actor, cCsrf = csrf\<rparr> (asStatus resp) A1 else A1)"
proof (cases "rqMethod req \<noteq> ''CONNECT'' \<and> \<not> clean_path (rqEsc req)")
  case True
  then show ?thesis by (intro stopped [of "text_error 301 []" "adb A"]) (simp_all add: CombinedHandler_def)
next
  case False
  define inner where "inner = CSRFProtect (requireAuthenticated (Wrap cfg env (adminMux cfg env raw)))"
  from False assms have top: "CombinedHandler cfg verify raw other env req A = securityHeaders (Middleware env inner req A)"
    by (auto simp: CombinedHandler_def NewHandler_def inner_def Let_def)
  obtain r db1 where af: "ActorFromRequest env req (adb A) = (r, db1)" by fastforce
  let ?A1 = "A\<lparr>adb := db1\<rparr>"
  show ?thesis
  proof (cases r)
    case (Inl e)
    with af top show ?thesis
      by (intro stopped) (auto simp: Middleware_def securityHeaders_def Let_def text_error_def body_of_tenant_def)
  next
    case (Inr ac)
    obtain actor csrf where ac: "ac = (actor, csrf)" by fastforce
    let ?ctx = "\<lparr>cActor = actor, cCsrf = csrf\<rparr>"
    from af Inr ac top have t2: "CombinedHandler cfg verify raw other env req A = securityHeaders (inner req ?ctx ?A1)" by (simp add: Middleware_def)
    show ?thesis
    proof (cases "aType actor = Anonymous \<or> \<not> (SafeMethod (rqMethod req) \<or> CSRFExemptPath (rqPath req) \<or> ValidateCSRF req actor csrf)")
      case True
      then have "\<exists>c m. inner req ?ctx ?A1 = (text_error c m, ?A1) \<and> c \<ge> 300"
        by (auto simp: inner_def CSRFProtect_def requireAuthenticated_def)
      then obtain c m where "inner req ?ctx ?A1 = (text_error c m, ?A1)" "c \<ge> 300" by blast
      with t2 af show ?thesis by (intro stopped) (auto simp: securityHeaders_def text_error_def body_of_tenant_def)
    next
      case ok: False
      then have t3: "inner req ?ctx ?A1 = Wrap cfg env (adminMux cfg env raw) req ?ctx ?A1"
        by (auto simp: inner_def CSRFProtect_def requireAuthenticated_def)
      show ?thesis
      proof (cases rule: adminMux_cases [of cfg env raw req ?ctx ?A1])
        case (refused resp)
        show ?thesis
        proof (cases "shouldAudit req")
          case True
          with t2 t3 refused af Inr ac ok show ?thesis
            by (intro that(2) [of actor csrf "fst (securityHeaders (resp, ?A1))"]) (auto simp: Wrap_def securityHeaders_def)
        next
          case no: False
          with t2 t3 refused af show ?thesis
            by (intro stopped [of "fst (securityHeaders (resp, ?A1))" db1]) (auto simp: Wrap_def securityHeaders_def)
        qed
      next
        case (ran role scp op vs)
        obtain resp A1 where r: "run_op cfg env raw op vs req ?ctx ?A1 = (resp, A1)" by fastforce
        have "routed cfg raw env req A actor op vs resp A1"
          unfolding routed_def using af Inr ac ran r ok by auto
        moreover have "\<exists>h. securityHeaders (Wrap cfg env (adminMux cfg env raw) req ?ctx ?A1) = (resp\<lparr>asHdr := h\<rparr>,
            if shouldAudit req \<and> hdr_get (asHdr resp) idempotentReplayHeader \<noteq> ''true''
            then audit_record cfg env req ?ctx (asStatus resp) A1 else A1)"
          using ran(1) r by (auto simp: Wrap_def securityHeaders_def)
        ultimately show ?thesis using t2 t3 that(3) [of actor op vs resp A1 _ csrf] by auto
      qed
    qed
  qed
qed

subsection \<open>Who can change what\<close>

definition login_only :: "authdb \<Rightarrow> authdb \<Rightarrow> bool" where
  \<comment> \<open>only users and sessions may differ\<close>
  "login_only db db' \<longleftrightarrow> tokens db' = tokens db \<and> settings db' = settings db \<and> tenants db' = tenants db \<and>
     providers db' = providers db \<and> auditlog db' = auditlog db"

lemma login_only_refl [simp]: "login_only db db"
  by (simp add: login_only_def)

lemma provisionUser_frame: "provisionUser env prov sub e n role db = (x, db1) \<Longrightarrow> login_only db db1"
  by (auto simp: provisionUser_def UpdateUserProfile_def CreateUserOIDC_def login_only_def split: sum.splits option.splits if_splits)

lemma EstablishSession_frame: "EstablishSession verify env t tok db = (r, db') \<Longrightarrow> login_only db db'"
  by (auto simp: EstablishSession_def CreateSession_def login_only_def Let_def
      split: if_splits sum.splits option.splits prod.splits dest!: provisionUser_frame)

lemma authMux_frame:
  "login_only (adb A) (adb (snd (authMux cfg verify env req ctx A))) \<and> apat (snd (authMux cfg verify env req ctx A)) = apat A \<and>
   aqueue (snd (authMux cfg verify env req ctx A)) = aqueue A \<and> acache (snd (authMux cfg verify env req ctx A)) = acache A"
proof -
  have "snd (oidcConfig cfg env req ctx A) = A" "snd (csrfToken env req ctx A) = A"
    by (auto simp: oidcConfig_def csrfToken_def split: sum.splits option.splits prod.splits)
  moreover have "login_only (adb A) (adb (snd (establishSession cfg verify env req ctx A)))"
    by (auto simp: establishSession_def split: option.splits sum.splits prod.splits dest: EstablishSession_frame)
  moreover have "apat (snd (establishSession cfg verify env req ctx A)) = apat A" "aqueue (snd (establishSession cfg verify env req ctx A)) = aqueue A"
    "acache (snd (establishSession cfg verify env req ctx A)) = acache A"
    by (auto simp: establishSession_def split: option.splits sum.splits prod.splits)
  ultimately show ?thesis
    by (auto simp: authMux_def logout_def RevokeSession_def login_only_def Let_def split: option.splits)
qed

lemma ActorFromRequest_frame: "login_only db (snd (ActorFromRequest env req db))"
  using ActorFromRequest_db [of env req db] by (auto simp: login_only_def)

lemma securityHeaders_snd [simp]: "snd (securityHeaders r) = snd r"
  by (simp add: securityHeaders_def)

lemma auth_surface:
  assumes "path_segs req = ''auth'' # y # xs"
  shows "admin_part (snd (CombinedHandler cfg verify raw other env req A)) = admin_part A"
proof -
  define inner where "inner = CSRFProtect (Wrap cfg env (authMux cfg verify env))"
  have "admin_part (snd (inner req ctx B)) = admin_part B" for ctx B
    using authMux_frame [of B cfg verify env req ctx]
    by (auto simp: inner_def CSRFProtect_def Wrap_def admin_part_def login_only_def audit_record_frame split: prod.splits)
  then have "admin_part (snd (Middleware env inner req A)) = admin_part A"
    using ActorFromRequest_frame [of "adb A" env req]
    by (auto simp: Middleware_def admin_part_def login_only_def Let_def split: prod.splits sum.splits)
  then show ?thesis using assms by (auto simp: CombinedHandler_def NewHandler_def inner_def Let_def)
qed

definition is_admin :: "Actor \<Rightarrow> bool" where
  \<comment> \<open>an owner or administrator, or a token with a scope that includes \<open>admin:write\<close>\<close>
  "is_admin a \<longleftrightarrow> aType a = ActorUser \<and> aRole a \<in> {RoleOwner, RoleAdmin} \<or>
     aType a = ActorToken \<and> list_ex (\<lambda>s. s \<in> {''admin:write'', ''admin:*'', ''*''}) (aScopes a)"

lemma granted_is_admin: "granted RoleAdmin ''admin:write'' a \<Longrightarrow> is_admin a"
  by (auto simp: granted_def is_admin_def AtLeast_def Rank_def HasScope_def roles list_ex_iff split: if_splits)

definition credential :: "aenv \<Rightarrow> http_req \<Rightarrow> authdb \<Rightarrow> Actor \<Rightarrow> bool" where
  \<comment> \<open>the tables vouch for the actor: a live token, or a live session of an active user\<close>
  "credential env req db a \<longleftrightarrow>
     (\<exists>tok r. ParseBearer (hdr_get (rqHdr req) ''Authorization'') = Some tok \<and> r \<in> set (tokens db) \<and>
        live_token (anow env) (TokenHash tok) r \<and> aType a = ActorToken \<and> aTenant a = tkTenant r \<and> aScopes a = tkScopes r) \<or>
     (\<exists>v s u. cookie req SessionCookieName = Some v \<and> s \<in> set (sessions db) \<and> live_session (anow env) (TokenHash v) s \<and>
        u \<in> set (users db) \<and> usId u = ssUser s \<and> usActive u \<and> \<not> usDeleted u \<and>
        aType a = ActorUser \<and> aTenant a = usTenant u \<and> aRole a = usRole u)"

lemma actorFromSession_credential:
  assumes "fst (actorFromSession env v db) = Inr (a, csrf)" "cookie req SessionCookieName = Some v"
  shows "credential env req db a"
proof -
  obtain s u where l: "LookupSession (adn env SLookupSession, adn env SLookupUser) (anow env) v db = Inr (s, u)"
    and a: "aType a = ActorUser" "aTenant a = usTenant u" "aRole a = usRole u"
    using assms(1) by (auto simp: actorFromSession_def split: sum.splits)
  from l have "s \<in> set (sessions db)" "live_session (anow env) (TokenHash v) s" "u \<in> set (users db)" "usId u = ssUser s"
    "usActive u" "\<not> usDeleted u"
    by (auto simp: LookupSession_def split: if_splits option.splits dest!: first_row_Some)
  with assms(2) a show ?thesis unfolding credential_def by blast
qed

lemma ActorFromRequest_credential:
  assumes "fst (ActorFromRequest env req db) = Inr (a, csrf)" "aType a \<noteq> Anonymous"
  shows "credential env req db a"
proof -
  have z: "aType zero_actor = Anonymous" by (simp add: zero_actor_def)
  consider tok where "ParseBearer (hdr_get (rqHdr req) ''Authorization'') = Some tok" "actorFromPAT env tok db = Inr a"
    | v where "cookie req SessionCookieName = Some v" "fst (actorFromSession env v db) = Inr (a, csrf)"
    using assms z by (auto simp: ActorFromRequest_def Let_def split: option.splits if_splits sum.splits)
  then show ?thesis
  proof cases
    case 1
    then show ?thesis
      by (auto simp: credential_def actorFromPAT_def LookupAPIToken_def split: sum.splits if_splits option.splits dest!: first_row_Some)
  qed (rule actorFromSession_credential)
qed

lemma admin_surface:
  assumes "path_segs req = ''admin'' # y # xs" "admin_part (snd (CombinedHandler cfg verify raw other env req A)) \<noteq> admin_part A"
  shows "\<exists>actor csrf op vs resp A1. routed cfg raw env req A actor op vs resp A1 \<and> \<not> reads_only op \<and>
    fst (ActorFromRequest env req (adb A)) = Inr (actor, csrf) \<and> is_admin actor \<and> ValidateCSRF req actor csrf \<and>
    rqMethod req \<in> {''POST'', ''PUT'', ''DELETE''}"
proof -
  have part: "admin_part (A\<lparr>adb := snd (ActorFromRequest env req (adb A))\<rparr>) = admin_part A"
    using ActorFromRequest_frame [of "adb A" env req] by (simp add: admin_part_def login_only_def)
  have audit: "admin_part (audit_record cfg env req ctx c B) = admin_part B" for ctx c B
    by (simp add: admin_part_def audit_record_frame)
  show ?thesis
  proof (cases rule: admin_chain [OF assms(1), of cfg verify raw other env A, case_names stopped refused ran])
    case (stopped resp db)
    then show ?thesis using part assms(2) by auto
  next
    case (refused resp actor csrf)
    then show ?thesis using part audit assms(2) by simp
  next
    case (ran actor op vs resp A1 h csrf)
    from ran(2) have last: "admin_part (snd (CombinedHandler cfg verify raw other env req A)) = admin_part A1" by (simp add: audit)
    from ran(1) obtain csrf' role scp where r: "fst (ActorFromRequest env req (adb A)) = Inr (actor, csrf')"
      "api_route req = Some (role, scp, op, vs)" "rqMethod req = ''CONNECT'' \<or> clean_path (rqEsc req)" "granted role scp actor"
      "SafeMethod (rqMethod req) \<or> CSRFExemptPath (rqPath req) \<or> ValidateCSRF req actor csrf'"
      "run_op cfg env raw op vs req \<lparr>cActor = actor, cCsrf = csrf'\<rparr> (A\<lparr>adb := snd (ActorFromRequest env req (adb A))\<rparr>) = (resp, A1)"
      by (auto simp: routed_def)
    have w: "\<not> reads_only op"
    proof
      assume "reads_only op"
      then have "A1 = A\<lparr>adb := snd (ActorFromRequest env req (adb A))\<rparr>" using run_op_reads r(6) by (metis snd_conv)
      with last part assms(2) show False by simp
    qed
    note aw = api_route_writes [OF r(2) w]
    have "\<not> CSRFExemptPath (rqPath req)" using rqPath_admin [OF _ assms(1)] r(3) aw by (auto simp: CSRFExemptPath_def)
    with r(5) aw have "ValidateCSRF req actor csrf'" by (auto simp: SafeMethod_def)
    then show ?thesis using ran(1) r(1,4) w aw granted_is_admin by blast
  qed
qed

text \<open>C14: no change without authority. Whatever request reaches the admin listener, in whatever state: either the tokens, the settings, the data-plane gate, the
  job queue and the cache are left as they are, or the request is a \<open>POST\<close>, \<open>PUT\<close> or \<open>DELETE\<close> by an actor the tables vouch for,
  an owner or administrator or a token with an administrative scope; and if the actor is a
  person, the request carries the session's secret both in the header and in the cookie.\<close>

theorem admin_change_authorized:
  "admin_part (snd (CombinedHandler cfg verify raw other env req A)) = admin_part A \<or>
   (\<exists>actor csrf. fst (ActorFromRequest env req (adb A)) = Inr (actor, csrf) \<and> credential env req (adb A) actor \<and> is_admin actor \<and>
      rqMethod req \<in> {''POST'', ''PUT'', ''DELETE''} \<and>
      (if aType actor = ActorUser then csrf \<noteq> [] \<and> trim_space (hdr_get (rqHdr req) CSRFHeaderName) = csrf \<and> cookie req CSRFCookieName = Some csrf
       else aType actor = ActorToken))"
proof -
  have "path_segs req \<noteq> []" by (simp add: path_segs_def)
  then consider (admin) y xs where "path_segs req = ''admin'' # y # xs" | (auth) y xs where "path_segs req = ''auth'' # y # xs"
    | (other) "length (path_segs req) < 2 \<or> hd (path_segs req) \<notin> {''auth'', ''admin''}"
    by (cases "path_segs req"; cases "tl (path_segs req)") auto
  then show ?thesis
  proof cases
    case auth
    then show ?thesis using auth_surface by blast
  next
    case other
    then have "snd (CombinedHandler cfg verify raw other env req A) = A"
      by (auto simp: CombinedHandler_def NewHandler_def Let_def)
    then show ?thesis by simp
  next
    case admin
    show ?thesis
    proof (cases "admin_part (snd (CombinedHandler cfg verify raw other env req A)) = admin_part A")
      case False
      from admin_surface [OF admin this] obtain actor csrf where r: "fst (ActorFromRequest env req (adb A)) = Inr (actor, csrf)"
        "is_admin actor" "ValidateCSRF req actor csrf" "rqMethod req \<in> {''POST'', ''PUT'', ''DELETE''}" by blast
      moreover from r(2) have "aType actor \<noteq> Anonymous" by (auto simp: is_admin_def)
      with r(1) have "credential env req (adb A) actor" by (rule ActorFromRequest_credential)
      ultimately show ?thesis
        by (intro disjI2 exI [of _ actor] exI [of _ csrf])
          (auto simp: ValidateCSRF_def is_admin_def Let_def split: if_splits option.splits)
    qed simp
  qed
qed

subsection \<open>Tenants\<close>

lemma own_db_trans: "own_db t db1 db2 \<Longrightarrow> own_db t db2 db3 \<Longrightarrow> own_db t db1 db3"
  by (simp add: own_db_def)

lemma own_db_login: "own_db t db (snd (ActorFromRequest env req db))"
  using ActorFromRequest_db [of env req db] by (auto simp: own_db_def)

lemma own_db_after_login: "own_db t (snd (ActorFromRequest env req db)) db' \<Longrightarrow> own_db t db db'"
  using own_db_login own_db_trans by blast

lemma audit_record_own:
  "aTenant (cActor ctx) \<noteq> [] \<Longrightarrow> own_db (aTenant (cActor ctx)) (adb A) (adb (audit_record cfg env req ctx c A))"
  by (auto simp: audit_record_def Let_def own_db_statements split: prod.splits)


subsection \<open>The audit log\<close>

lemma pat_match_Lit: "pat_match (Lit s # ps) xs = Some vs \<longleftrightarrow> (\<exists>ys. xs = s # ys \<and> pat_match ps ys = Some vs)"
  by (cases xs) auto

lemma route_audited:
  assumes "api_route req = Some (role, scp, op, vs)" "\<not> reads_only op" "op \<noteq> OpPurge" "clean_path (rqEsc req)"
  shows "shouldAudit req" "fst (mapAction (rqMethod req) (rqPath req)) \<noteq> []"
proof -
  obtain m p where mp: "(m, p, role, scp, op) \<in> set Mount" "method_match m (rqMethod req)" "pat_match p (path_segs req) = Some vs"
    using api_route_Mount [OF assms(1)] by blast
  with assms(2,3) obtain z zs where z: "path_segs req = ''admin'' # ''api'' # ''v1'' # z # zs" "z \<in> {''tokens'', ''settings'', ''imports''}"
    "rqMethod req \<in> {''POST'', ''PUT'', ''DELETE''}"
    unfolding Mount_def by (auto simp: pat_match_Lit api_path_def method_match_def)
  define rest where "rest = join_with ''/'' (z # zs)"
  have "rqPath req = ''/admin/api/v1/'' @ rest" and r: "\<exists>r'. rest = z @ r'"
    using rqPath_admin [OF assms(4) z(1)] by (auto simp: rest_def) (cases zs; simp)
  then have p: "rqPath req = ''/admin/api/v1/'' @ rest" by simp
  then have pre: "has_prefix (rqPath req) ''/admin/api/v1/''" by simp
  have "rqPath req \<noteq> ''/admin/api/v1/models/cache''" using p r z(2) by auto
  with pre z(3) show "shouldAudit req" by (auto simp: shouldAudit_def)
  from pre show "fst (mapAction (rqMethod req) (rqPath req)) \<noteq> []" by (simp add: mapAction_def)
qed

definition data_part :: "'r admin \<Rightarrow> token_row list \<times> setting_row list \<times> 'r \<times> store option" where
  "data_part A = (tokens (adb A), settings (adb A), aqueue A, acache A)"

lemma replay_json [simp]: "hdr_get (asHdr (writeJSON c b)) idempotentReplayHeader = []" "hdr_get [] idempotentReplayHeader = []"
proof -
  have "hdr_get (hdr_set ''X-Content-Type-Options'' ''nosniff'' (hdr_set ''Content-Type'' ''application/json'' [])) idempotentReplayHeader = []"
    by code_simp
  then show "hdr_get (asHdr (writeJSON c b)) idempotentReplayHeader = []" by (simp add: writeJSON_def)
qed (simp add: hdr_get_def hdr_values_def)

lemma revokeToken_replay:
  assumes "revokeToken env tid req ctx A = (resp, A1)" "hdr_get (asHdr resp) idempotentReplayHeader = ''true''"
  shows "data_part A1 = data_part A"
  using assms
  by (auto simp: revokeToken_def RevokeToken_def data_part_def writeError_def Let_def split: if_splits sum.splits option.splits prod.splits)

lemma run_op_replay:
  assumes "run_op cfg env raw op vs req ctx A = (resp, A1)" "hdr_get (asHdr resp) idempotentReplayHeader = ''true''"
  shows "data_part A1 = data_part A"
proof (cases "op = OpRevokeToken")
  case True
  with assms show ?thesis using revokeToken_replay by (simp add: run_op_def)
next
  case False
  have "hdr_get (asHdr (fst (run_op cfg env raw op vs req ctx A))) idempotentReplayHeader = []"
    using False
    by (cases op) (auto simp: api_defs writeError_def Let_def split: option.splits sum.splits prod.splits list.splits)
  with assms show ?thesis by simp
qed

lemma log_statements:
  "CreateToken d i t ow n p h scs e db = (r1, db1) \<Longrightarrow> auditlog db1 = auditlog db"
  "RevokeToken dd t tid db = (r2, db2) \<Longrightarrow> auditlog db2 = auditlog db"
  "UpsertSetting d t scp k v n' db = (r3, db3) \<Longrightarrow> auditlog db3 = auditlog db"
  by (auto simp: CreateToken_def RevokeToken_def UpsertSetting_def Let_def split: if_splits option.splits)

lemma insertAudit_log:
  "auditlog (adb (insertAudit env actor action resource outcome A)) = auditlog (adb A) @
     (if adn env SHandlerAudit then [] else [\<lparr>auTenant = aTenant actor, auActorType = actor_string actor, auActorId = handler_actor_id actor,
        auAction = action, auResource = resource, auOutcome = outcome\<rparr>])"
  by (simp add: insertAudit_def InsertAudit_def)

lemma run_op_log: "\<exists>rows. auditlog (adb (snd (run_op cfg env raw op vs req ctx A))) = auditlog (adb A) @ rows"
proof (cases "reads_only op")
  case True
  then show ?thesis by (simp add: run_op_reads)
next
  case False
  then show ?thesis
    by (cases op) (auto simp: api_defs insertAudit_log Let_def split: option.splits sum.splits prod.splits list.splits dest: log_statements)
qed

lemma audit_record_log:
  assumes "\<not> adn env SInsertAudit" "aTenant (cActor ctx) \<noteq> []" "fst (mapAction (rqMethod req) (rqPath req)) \<noteq> []"
  shows "\<exists>row. auditlog (adb (audit_record cfg env req ctx c A)) = auditlog (adb A) @ [row] \<and> auTenant row = aTenant (cActor ctx) \<and>
    auActorType row = actor_string (cActor ctx) \<and> auOutcome row = outcomeForStatus c"
  using assms by (auto simp: audit_record_def InsertAudit_def Let_def split: prod.splits)

lemma audit_record_extends: "\<exists>more. auditlog (adb (audit_record cfg env req ctx c A)) = auditlog (adb A) @ more"
  by (auto simp: audit_record_def InsertAudit_def Let_def split: prod.splits)

lemma purge_log:
  assumes "purgeCacheByPrefix env req ctx A = (resp, A1)" "asStatus resp < 300" "\<not> adn env SHandlerAudit"
  shows "\<exists>row. auditlog (adb A1) = auditlog (adb A) @ [row] \<and> auTenant row = aTenant (cActor ctx) \<and>
    auActorType row = actor_string (cActor ctx) \<and> auOutcome row = ''success''"
  using assms by (auto simp: purgeCacheByPrefix_def insertAudit_log split: option.splits prod.splits if_splits)

lemma mutation_ran:
  assumes "path_segs req = ''admin'' # y # xs" "fst (ActorFromRequest env req (adb A)) = Inr (actor, csrf)"
    "CombinedHandler cfg verify raw other env req A = (resp, A')" "asStatus resp < 300" "data_part A' \<noteq> data_part A"
  obtains role scp op vs resp' A1 csrf' where "api_route req = Some (role, scp, op, vs)" "\<not> reads_only op" "clean_path (rqEsc req)"
    "run_op cfg env raw op vs req \<lparr>cActor = actor, cCsrf = csrf\<rparr> (A\<lparr>adb := snd (ActorFromRequest env req (adb A))\<rparr>) = (resp', A1)"
    "asStatus resp' = asStatus resp"
    "A' = (if shouldAudit req then audit_record cfg env req \<lparr>cActor = actor, cCsrf = csrf'\<rparr> (asStatus resp) A1 else A1)"
proof -
  let ?B = "A\<lparr>adb := snd (ActorFromRequest env req (adb A))\<rparr>" and ?ctx = "\<lparr>cActor = actor, cCsrf = csrf\<rparr>"
  have B: "data_part ?B = data_part A"
    using ActorFromRequest_frame [of "adb A" env req] by (simp add: data_part_def login_only_def)
  show thesis
  proof (cases rule: admin_chain [OF assms(1), of cfg verify raw other env A, case_names stopped refused ran])
    case (stopped resp' db)
    with assms(3,4) show ?thesis by simp
  next
    case (refused resp' actor' csrf')
    with assms(3,4) show ?thesis by simp
  next
    case (ran actor' op vs resp' A1 h csrf')
    from ran(1) assms(2) obtain role scp where r: "actor' = actor" "api_route req = Some (role, scp, op, vs)"
      "rqMethod req = ''CONNECT'' \<or> clean_path (rqEsc req)" "run_op cfg env raw op vs req ?ctx ?B = (resp', A1)"
      by (auto simp: routed_def)
    have res: "asStatus resp' = asStatus resp" "A' = (if shouldAudit req \<and> hdr_get (asHdr resp') idempotentReplayHeader \<noteq> ''true''
        then audit_record cfg env req \<lparr>cActor = actor, cCsrf = csrf'\<rparr> (asStatus resp') A1 else A1)"
      using ran(2) assms(3) r(1) by auto
    then have dp: "data_part A' = data_part A1" by (simp add: data_part_def audit_record_frame)
    have w: "\<not> reads_only op"
      using run_op_reads [of op cfg env raw vs req ?ctx ?B] r(4) dp B assms(5) by auto
    have "hdr_get (asHdr resp') idempotentReplayHeader \<noteq> ''true''" using run_op_replay [OF r(4)] dp B assms(5) by auto
    moreover have "clean_path (rqEsc req)" using r(3) api_route_writes [OF r(2) w] by auto
    ultimately show ?thesis using that [OF r(2) w _ r(4) res(1), of csrf'] res by simp
  qed
qed

text \<open>C18: the audit log is complete. If a request to the admin API succeeds and has changed tokens, settings, the job queue or the cache, and the inserts
  into the log do not fail, then the log has grown, past entries kept, by at least one row that names the actor's tenant, the
  kind of actor and the outcome \<open>success\<close>.\<close>

theorem admin_audited:
  assumes "path_segs req = ''admin'' # y # xs" "fst (ActorFromRequest env req (adb A)) = Inr (actor, csrf)" "aTenant actor \<noteq> []"
    "CombinedHandler cfg verify raw other env req A = (resp, A')" "200 \<le> asStatus resp" "asStatus resp < 300"
    "data_part A' \<noteq> data_part A" "\<not> adn env SInsertAudit" "\<not> adn env SHandlerAudit"
  shows "\<exists>rows row. auditlog (adb A') = auditlog (adb A) @ rows \<and> row \<in> set rows \<and> auTenant row = aTenant actor \<and>
    auActorType row = actor_string actor \<and> auOutcome row = ''success''"
proof -
  let ?B = "A\<lparr>adb := snd (ActorFromRequest env req (adb A))\<rparr>" and ?ctx = "\<lparr>cActor = actor, cCsrf = csrf\<rparr>"
  have B: "auditlog (adb ?B) = auditlog (adb A)"
    using ActorFromRequest_frame [of "adb A" env req] by (simp add: login_only_def)
  from mutation_ran [OF assms(1,2,4,6,7)] obtain role scp op vs resp' A1 csrf' where
    r: "api_route req = Some (role, scp, op, vs)" "\<not> reads_only op" "clean_path (rqEsc req)"
      "run_op cfg env raw op vs req ?ctx ?B = (resp', A1)" "asStatus resp' = asStatus resp"
    and A': "A' = (if shouldAudit req then audit_record cfg env req \<lparr>cActor = actor, cCsrf = csrf'\<rparr> (asStatus resp) A1 else A1)" .
  obtain rows1 where l1: "auditlog (adb A1) = auditlog (adb A) @ rows1"
    using run_op_log [of cfg env raw op vs req ?ctx ?B] r(4) B by auto
  show ?thesis
  proof (cases "op = OpPurge")
    case True
    from purge_log [of env req ?ctx ?B resp' A1] r(4,5) True assms(6,9) B
    obtain row where "auditlog (adb A1) = auditlog (adb A) @ [row]" "auTenant row = aTenant actor" "auActorType row = actor_string actor"
      "auOutcome row = ''success''" by (auto simp: run_op_def)
    moreover obtain more where "auditlog (adb A') = auditlog (adb A1) @ more"
      using audit_record_extends [of cfg env req "\<lparr>cActor = actor, cCsrf = csrf'\<rparr>" "asStatus resp" A1] A' by (cases "shouldAudit req") auto
    ultimately show ?thesis by (intro exI [of _ "row # more"] exI [of _ row]) simp
  next
    case False
    note ra = route_audited [OF r(1,2) False r(3)]
    show ?thesis
      using audit_record_log [OF assms(8) _ ra(2), of "\<lparr>cActor = actor, cCsrf = csrf'\<rparr>" cfg "asStatus resp" A1] assms(3,5,6) l1 A' ra(1)
      by (auto simp: outcomeForStatus_def)
  qed
qed

subsection \<open>Tokens\<close>

lemma token_expiry_bounds:
  assumes "token_expiry now (Some secs) = Inr x" "int64 secs"
  shows "x = Some (now + secs * second) \<and> 0 < secs \<and> secs * second \<le> maxTokenTTL"
proof -
  have s: "0 < secs" "secs \<le> maxTokenTTL div second" "x = Some (now + wrap64 (secs * second))" "wrap64 (secs * second) \<le> maxTokenTTL"
    using assms(1) by (auto simp: token_expiry_def split: if_splits)
  then have "int64 (secs * second)" by (auto simp: int64_def maxTokenTTL_def second_def)
  with s show ?thesis by simp
qed

lemma upd_int_ptr_range: "upd_int_ptr a j = Some (Some n) \<Longrightarrow> int64 n"
  by (cases j) (auto split: if_splits)

lemma jdecode_int_ptr: "jdecode upd_int_ptr None k j = Some (Some n) \<Longrightarrow> int64 n"
proof (cases j)
  case (JObj fs)
  let ?f = "\<lambda>acc kv. if to_lower (fst kv) = to_lower k then Option.bind acc (\<lambda>a. upd_int_ptr a (snd kv)) else acc"
  have F: "foldl ?f acc fs = Some (Some n) \<Longrightarrow> int64 n" if "\<And>m. acc = Some (Some m) \<Longrightarrow> int64 m" for acc
    using that
  proof (induction fs arbitrary: acc)
    case (Cons kv fs)
    have "int64 m" if "?f acc kv = Some (Some m)" for m
      using that Cons.prems(2) by (auto split: if_splits simp: bind_eq_Some_conv dest: upd_int_ptr_range)
    with Cons show ?case by simp
  qed simp
  assume "jdecode upd_int_ptr None k j = Some (Some n)"
  then show ?thesis using JObj F [of "Some None"] by (simp add: jdecode_def)
qed (auto simp: jdecode_def)

lemma createToken_row:
  "case createToken env req ctx A of (resp, A') \<Rightarrow>
     (if asStatus resp = 201
      then \<exists>t d. asBody resp = AToken t d \<and> A' = A\<lparr>adb := (adb A)\<lparr>tokens := tokens (adb A) @ [t]\<rparr>\<rparr> \<and> tkTenant t = aTenant (cActor ctx) \<and>
        tkHash t = TokenHash d \<and> IsPAT d \<and> \<not> tkRevoked t \<and> \<not> tkDeleted t \<and>
        tkScopes t \<noteq> [] \<and> set (tkScopes t) \<subseteq> set allowedTokenScopes \<and>
        (case tkExpires t of None \<Rightarrow> map_option ctExpiresIn (decode_createToken (rqBody req)) = Some None
         | Some e \<Rightarrow> anow env < e \<and> e \<le> anow env + maxTokenTTL \<and>
             (\<exists>secs. map_option ctExpiresIn (decode_createToken (rqBody req)) = Some (Some secs) \<and> e = anow env + secs * second))
      else A' = A)"
proof (cases "decode_createToken (rqBody req)")
  case None
  then show ?thesis by (simp add: createToken_def)
next
  case (Some r)
  define scopes where "scopes = (if ctScopes r = [] then [''models:read''] else ctScopes r)"
  show ?thesis
  proof (cases "ctName r = [] \<or> filter (\<lambda>s. s \<notin> set allowedTokenScopes) scopes \<noteq> [] \<or> (\<exists>e. token_expiry (anow env) (ctExpiresIn r) = Inl e)")
    case True
    then show ?thesis using Some by (auto simp: createToken_def Let_def scopes_def [symmetric] split: list.splits)
  next
    case False
    then obtain ex where ex: "token_expiry (anow env) (ctExpiresIn r) = Inr ex"
      and sc: "set scopes \<subseteq> set allowedTokenScopes" "filter (\<lambda>s. s \<notin> set allowedTokenScopes) scopes = []" and n: "ctName r \<noteq> []"
      by (cases "token_expiry (anow env) (ctExpiresIn r)") (auto simp: filter_empty_conv)
    have ne: "scopes \<noteq> []" by (simp add: scopes_def)
    obtain d p h where g: "GeneratePAT (rndPrefix env) (rndSecret env) = (d, p, h)" "h = TokenHash d" "IsPAT d"
      by (auto simp: GeneratePAT_def IsPAT_def Let_def)
    have e: "case ex of None \<Rightarrow> ctExpiresIn r = None
        | Some e \<Rightarrow> anow env < e \<and> e \<le> anow env + maxTokenTTL \<and> (\<exists>secs. ctExpiresIn r = Some secs \<and> e = anow env + secs * second)"
    proof (cases "ctExpiresIn r")
      case None
      with ex show ?thesis by (simp add: token_expiry_def)
    next
      case (Some secs)
      have "int64 secs" using Some \<open>decode_createToken (rqBody req) = Some r\<close>
        by (auto simp: decode_createToken_def split: option.splits dest: jdecode_int_ptr)
      from token_expiry_bounds [OF _ this, of "anow env" ex] ex Some show ?thesis by (auto simp: second_def)
    qed
    show ?thesis
    proof (cases "adn env SCreateToken")
      case True
      then show ?thesis using Some n sc ex g by (simp add: createToken_def CreateToken_def Let_def scopes_def [symmetric])
    next
      case ok: False
      then show ?thesis using Some n sc ne ex g e
        by (simp add: createToken_def CreateToken_def Let_def scopes_def [symmetric] split: option.splits)
    qed
  qed
qed

text \<open>C37: new tokens. \<open>createToken\<close> either answers with an error and changes nothing, or adds exactly one row: for the actor's tenant, with the
  hash of the secret that the response shows once, a secret the gate recognises as one of ours, only scopes of the
  allowed list and at least one, and an expiry time, if one was asked for, strictly in the future and at most 366 days ahead, computed without overflow.\<close>

theorem createToken_bounded:
  "case createToken env req ctx A of (resp, A') \<Rightarrow>
     (if asStatus resp = 201
      then \<exists>t d. asBody resp = AToken t d \<and> A' = A\<lparr>adb := (adb A)\<lparr>tokens := tokens (adb A) @ [t]\<rparr>\<rparr> \<and> tkTenant t = aTenant (cActor ctx) \<and>
        tkHash t = TokenHash d \<and> IsPAT d \<and> \<not> tkRevoked t \<and> \<not> tkDeleted t \<and>
        tkScopes t \<noteq> [] \<and> set (tkScopes t) \<subseteq> set allowedTokenScopes \<and>
        (case tkExpires t of None \<Rightarrow> map_option ctExpiresIn (decode_createToken (rqBody req)) = Some None
         | Some e \<Rightarrow> anow env < e \<and> e \<le> anow env + maxTokenTTL \<and>
             (\<exists>secs. map_option ctExpiresIn (decode_createToken (rqBody req)) = Some (Some secs) \<and> e = anow env + secs * second))
      else A' = A)"
  by (rule createToken_row)

subsection \<open>A concrete request\<close>

definition demo_req :: http_req where
  "demo_req = \<lparr>rqMethod = ''POST'', rqEsc = ''/admin/api/v1/tokens'', rqHdr = [(''Authorization'', [''Bearer pulsys_t''])], rqCookies = [],
     rqQuery = [], rqBody = Some (JObj [(''name'', JStr ''ci'')])\<rparr>"

definition demo_row :: token_row where
  "demo_row = \<lparr>tkId = ''1'', tkTenant = ''t'', tkOwner = None, tkName = ''n'', tkPrefix = ''p'', tkHash = TokenHash ''pulsys_t'',
     tkScopes = [''admin:write''], tkExpires = None, tkRevoked = False, tkDeleted = False\<rparr>"

definition demo_admin :: "unit admin" where
  "demo_admin = \<lparr>adb = empty_db\<lparr>tokens := [demo_row]\<rparr>, apat = None, aqueue = (), acache = None\<rparr>"

definition demo_cfg :: "unit acfg" where
  "demo_cfg = \<lparr>acRiver = None, acTenant = ''default''\<rparr>"

definition demo_actor :: Actor where
  "demo_actor = \<lparr>aType = ActorToken, aTenant = ''t'', aUser = [], aToken = ''1'', aRole = [], aScopes = [''admin:write''], aEmail = []\<rparr>"

lemma demo_facts:
  "api_route demo_req = Some (RoleAdmin, ''admin:write'', OpCreateToken, [])" "clean_path (rqEsc demo_req)"
  "path_segs demo_req = ''admin'' # ''api'' # [''v1'', ''tokens'']" "shouldAudit demo_req"
  "mapAction (rqMethod demo_req) (rqPath demo_req) = (''token.create'', ''tokens'')"
  "ParseBearer (hdr_get (rqHdr demo_req) ''Authorization'') = Some ''pulsys_t''" "IsPAT ''pulsys_t''"
  "decode_createToken (rqBody demo_req) = Some \<lparr>ctName = ''ci'', ctScopes = [], ctExpiresIn = None\<rparr>"
  "HasScope demo_actor ''admin:write''" "aType demo_actor = ActorToken"
  by code_simp+

lemma demo_login: "ActorFromRequest demo_aenv demo_req (adb demo_admin) = (Inr (demo_actor, []), adb demo_admin)"
  by (simp add: ActorFromRequest_def demo_facts Let_def actorFromPAT_def LookupAPIToken_def demo_admin_def first_row_def live_token_def
    demo_row_def demo_actor_def demo_aenv_def)

lemma demo_run:
  "\<exists>resp A'. CombinedHandler demo_cfg demo_verify (\<lambda>_. []) (\<lambda>_. notFound) demo_aenv demo_req demo_admin = (resp, A') \<and>
     asStatus resp = 201 \<and> data_part A' \<noteq> data_part demo_admin"
proof -
  let ?ctx = "\<lparr>cActor = demo_actor, cCsrf = []\<rparr>"
  have t: "aTenant demo_actor = ''t''" "actor_string demo_actor = ''token''" by (simp_all add: demo_actor_def actor_string_def)
  obtain tok d where c: "createToken demo_aenv demo_req ?ctx demo_admin =
      (writeJSON 201 (AToken tok d), demo_admin\<lparr>adb := (adb demo_admin)\<lparr>tokens := [demo_row, tok]\<rparr>\<rparr>)"
    by (simp add: createToken_def demo_facts token_expiry_def allowedTokenScopes_def GeneratePAT_def CreateToken_def Let_def demo_aenv_def
      demo_admin_def split: prod.splits)
  let ?A = "demo_admin\<lparr>adb := (adb demo_admin)\<lparr>tokens := [demo_row, tok]\<rparr>\<rparr>"
  have m: "adminMux demo_cfg demo_aenv (\<lambda>_. []) demo_req ?ctx demo_admin = (writeJSON 201 (AToken tok d), ?A)"
    using c by (simp add: adminMux_def demo_facts requireAccess_def run_op_def Let_def)
  have "hdr_get (hdr_set ''X-Content-Type-Options'' ''nosniff'' (hdr_set ''Content-Type'' ''application/json'' [])) idempotentReplayHeader = []"
    by code_simp
  then have "hdr_get (asHdr (writeJSON 201 b)) idempotentReplayHeader = []" for b by (simp add: writeJSON_def)
  then have "Wrap demo_cfg demo_aenv (adminMux demo_cfg demo_aenv (\<lambda>_. [])) demo_req ?ctx demo_admin =
      (writeJSON 201 (AToken tok d), audit_record demo_cfg demo_aenv demo_req ?ctx 201 ?A)"
    using m by (simp add: Wrap_def demo_facts)
  moreover have "tokens (adb (audit_record demo_cfg demo_aenv demo_req ?ctx 201 ?A)) = [demo_row, tok]"
    using t by (simp add: audit_record_def demo_facts InsertAudit_def)
  ultimately show ?thesis
    by (simp add: CombinedHandler_def demo_facts NewHandler_def Middleware_def demo_login CSRFProtect_def ValidateCSRF_def
      requireAuthenticated_def securityHeaders_def data_part_def) (simp add: demo_admin_def)
qed


theorem admin_audited_witness:
  "\<exists>resp A' rows row. CombinedHandler demo_cfg demo_verify (\<lambda>_. []) (\<lambda>_. notFound) demo_aenv demo_req demo_admin = (resp, A') \<and>
     asStatus resp = 201 \<and> auditlog (adb A') = rows \<and> row \<in> set rows \<and> auTenant row = ''t'' \<and> auOutcome row = ''success''"
proof -
  obtain resp A' where r: "CombinedHandler demo_cfg demo_verify (\<lambda>_. []) (\<lambda>_. notFound) demo_aenv demo_req demo_admin = (resp, A')"
    "asStatus resp = 201" "data_part A' \<noteq> data_part demo_admin" using demo_run by blast
  have "fst (ActorFromRequest demo_aenv demo_req (adb demo_admin)) = Inr (demo_actor, [])" "aTenant demo_actor = ''t''"
    "\<not> adn demo_aenv SInsertAudit" "\<not> adn demo_aenv SHandlerAudit" "auditlog (adb demo_admin) = []"
    by (simp_all add: demo_login) (simp_all add: demo_actor_def demo_aenv_def demo_admin_def empty_db_def)
  with admin_audited [OF demo_facts(3) _ _ r(1) _ _ r(3)] r(1,2) show ?thesis by fastforce
qed

end
