(* ===== verification/Directory.thy ===== *)
theory Directory
  imports Admin_Props
begin

text \<open>
  The types of the directory. The columns of the authentication tables are plain strings, so that a role is one of the
  four roles, a scope one of the allowed scopes or a provider complete is not checked by the database but kept by the code.
  \<open>dir_step\<close> is any change the programs make: a request to the admin listener, or one of the operations of the
  command line (\<open>EnsureTenant\<close>, \<open>UpsertOIDCProvider\<close>, \<open>GrantOwner\<close>). The rules for the statements are collected in \<open>typed\<close>
  and carried through the middleware by the rules for each layer.
\<close>

definition token_ok :: "token_row \<Rightarrow> bool" where
  "token_ok t \<longleftrightarrow> tkScopes t \<noteq> [] \<and> set (tkScopes t) \<subseteq> set allowedTokenScopes \<and> length (tkHash t) = 32"

definition role_ok :: "string \<Rightarrow> bool" where
  "role_ok r \<longleftrightarrow> ParseRole r \<noteq> None"

definition db_typed :: "authdb \<Rightarrow> bool" where
  "db_typed db \<longleftrightarrow>
     (\<forall>u \<in> set (users db). role_ok (usRole u)) \<and>
     (\<forall>p \<in> set (providers db). ValidateProvider p) \<and> distinct (map pvTenant (providers db)) \<and>
     (\<forall>t \<in> set (tokens db). token_ok t) \<and> (\<forall>s \<in> set (sessions db). length (ssHash s) = 32) \<and> settings_ok db"

named_theorems typed

lemma roles_parse [simp]: "role_ok RoleOwner" "role_ok RoleAdmin"
  by (simp_all add: role_ok_def ParseRole_def roles)

lemma length_TokenHash [simp]: "length (TokenHash s) = 32"
  by (simp add: TokenHash_def)

lemma token_ok_revoke [simp]: "token_ok (t\<lparr>tkRevoked := b\<rparr>) = token_ok t"
  by (simp add: token_ok_def)

lemma provider_ok_role: "ValidateProvider p \<Longrightarrow> role_ok (JITDefaultRole p)"
  by (simp add: ValidateProvider_def role_ok_def)

lemma typed_users: "db_typed db \<Longrightarrow> (\<And>u. role_ok (usRole u) \<Longrightarrow> role_ok (usRole (f u))) \<Longrightarrow> db_typed (db\<lparr>users := update_rows p f (users db)\<rparr>)"
  by (auto simp: db_typed_def update_rows_def settings_ok_def)

lemma settings_ok_frame [simp]: "settings_ok (db\<lparr>users := a\<rparr>) = settings_ok db" "settings_ok (db\<lparr>providers := b\<rparr>) = settings_ok db"
  "settings_ok (db\<lparr>tokens := c\<rparr>) = settings_ok db" "settings_ok (db\<lparr>sessions := d\<rparr>) = settings_ok db"
  "settings_ok (db\<lparr>auditlog := e\<rparr>) = settings_ok db" "settings_ok (db\<lparr>tenants := f\<rparr>) = settings_ok db"
  by (simp_all add: settings_ok_def)

lemma typed_audit [typed]: "db_typed db \<Longrightarrow> db_typed (InsertAudit d t a i act r oc db)"
  by (simp add: db_typed_def InsertAudit_def)

lemma typed_touch [typed]: "db_typed db \<Longrightarrow> db_typed (TouchSession d now i ttl db)"
  by (auto simp: db_typed_def TouchSession_def update_rows_def)

lemma typed_logout [typed]: "db_typed db \<Longrightarrow> db_typed (RevokeSession d tok db)"
  by (auto simp: db_typed_def RevokeSession_def update_rows_def)

lemma typed_session [typed]: "db_typed db \<Longrightarrow> db_typed (snd (CreateSession d now i p c u t ttl db))"
  by (auto simp: db_typed_def CreateSession_def Let_def)

lemma typed_revoke [typed]: "db_typed db \<Longrightarrow> db_typed (snd (RevokeToken d t i db))"
  by (auto simp: db_typed_def RevokeToken_def Let_def update_rows_def split: option.splits)

lemma typed_create_token [typed]:
  "db_typed db \<Longrightarrow> scs \<noteq> [] \<Longrightarrow> set scs \<subseteq> set allowedTokenScopes \<Longrightarrow> length h = 32 \<Longrightarrow>
   db_typed (snd (CreateToken d i t ow n p h scs e db))"
  by (simp add: db_typed_def CreateToken_def Let_def token_ok_def)

lemma typed_tenant [typed]: "db_typed db \<Longrightarrow> db_typed (snd (EnsureTenant d i n dn db))"
  by (simp add: db_typed_def EnsureTenant_def split: option.splits)

lemma typed_owner [typed]: "db_typed db \<Longrightarrow> db_typed (snd (GrantOwner d t e s db))"
proof -
  assume t: "db_typed db"
  then have "db_typed (db\<lparr>users := update_rows p (\<lambda>v. v\<lparr>usRole := RoleOwner, usActive := True\<rparr>) (users db)\<rparr>)" for p
    by (rule typed_users) simp
  then have "db_typed (db\<lparr>users := update_rows p (\<lambda>v. v\<lparr>usRole := RoleOwner, usActive := True\<rparr>) (users db), auditlog := l\<rparr>)" for p l
    by (simp add: db_typed_def)
  with t show ?thesis by (simp add: GrantOwner_def Let_def split: option.splits)
qed

lemma distinct_update_rows: "(\<And>r. p r \<Longrightarrow> k (f r) = k r) \<Longrightarrow> distinct (map k rows) \<Longrightarrow> distinct (map k (update_rows p f rows))"
proof -
  assume "\<And>r. p r \<Longrightarrow> k (f r) = k r"
  then have "map k (update_rows p f rows) = map k rows" by (simp add: update_rows_def)
  then show "distinct (map k rows) \<Longrightarrow> distinct (map k (update_rows p f rows))" by simp
qed

lemma typed_provider [typed]:
  assumes "db_typed db"
  shows "db_typed (snd (UpsertOIDCProvider d p db))"
proof (cases "ValidateProvider p \<and> \<not> d")
  case True
  let ?u = "update_rows (\<lambda>q. pvTenant q = pvTenant p) (\<lambda>_. p) (providers db)"
  have "distinct (map pvTenant ?u)" using assms by (intro distinct_update_rows) (auto simp: db_typed_def)
  moreover have "\<forall>q \<in> set ?u. ValidateProvider q" using assms True by (auto simp: update_rows_def db_typed_def)
  moreover have "distinct (map pvTenant (providers db @ [p]))" if "\<not> list_ex (\<lambda>q. pvTenant q = pvTenant p) (providers db)"
    using that assms by (auto simp: list_ex_iff db_typed_def)
  ultimately show ?thesis using assms True by (simp add: db_typed_def UpsertOIDCProvider_def)
qed (use assms in \<open>auto simp: UpsertOIDCProvider_def\<close>)

lemma settings_ok_upsert: "settings_ok db \<Longrightarrow> settings_ok (snd (UpsertSetting d t scp k v n db))"
proof -
  assume s: "settings_ok db"
  let ?hit = "\<lambda>s. same_setting t scp k s \<and> stVersion s = n" and ?f = "\<lambda>s. s\<lparr>stValue := v, stVersion := stVersion s + 1\<rparr>"
  have "distinct (map setting_key (update_rows ?hit ?f (settings db)))"
    using s by (intro distinct_update_rows) (simp_all add: settings_ok_def setting_key_def)
  moreover have "\<forall>s \<in> set (update_rows ?hit ?f (settings db)). stVersion s \<ge> 1"
    using s by (auto simp: update_rows_def settings_ok_def)
  moreover have "(t, scp, k) \<notin> setting_key ` set (settings db)" if "\<not> list_ex (same_setting t scp k) (settings db)"
    using that by (auto simp: list_ex_iff same_setting_key)
  ultimately show ?thesis using s
    by (simp add: UpsertSetting_def settings_ok_def Let_def setting_key_def split: option.splits)
qed

lemma typed_setting [typed]: "db_typed db \<Longrightarrow> db_typed (snd (UpsertSetting d t scp k v n db))"
  by (simp add: db_typed_def settings_ok_upsert) (auto simp: UpsertSetting_def Let_def split: option.splits)

lemma typed_user [typed]: "db_typed db \<Longrightarrow> role_ok role \<Longrightarrow> db_typed (snd (provisionUser env prov sub email name role db))"
proof -
  assume t: "db_typed db" "role_ok role"
  then have "db_typed (db\<lparr>users := update_rows p (\<lambda>u. u\<lparr>usEmail := email, usName := name, usRole := role\<rparr>) (users db)\<rparr>)" for p
    by (intro typed_users) simp_all
  moreover have "db_typed (db\<lparr>users := users db @ [u]\<rparr>)" if "usRole u = role" for u using t that by (simp add: db_typed_def)
  ultimately show ?thesis using t
    by (simp add: provisionUser_def FindUserByOIDCSub_def UpdateUserProfile_def CreateUserOIDC_def split: option.splits)
qed

lemma provider_role: "db_typed db \<Longrightarrow> GetOIDCProviderByTenant d t db = Inr prov \<Longrightarrow> role_ok (RoleFromGroups g a b (JITDefaultRole prov))"
  by (auto simp: db_typed_def GetOIDCProviderByTenant_def RoleFromGroups_def provider_ok_role
    split: option.splits if_splits dest!: first_row_Some)

lemma login_tail:
  assumes "db_typed (snd p)"
  shows "db_typed (snd (case p of (Inl e, db1) \<Rightarrow> (Inl e, db1)
     | (Inr user, db1) \<Rightarrow> (case CreateSession d now i pl c (usId user) (usTenant user) ttl db1 of
         (Inl e, db2) \<Rightarrow> (Inl e, db2) | (Inr sess, db2) \<Rightarrow> (Inr (sess, user), db2))))"
proof (cases p)
  case (Pair r db1)
  show ?thesis
  proof (cases r)
    case (Inr user)
    obtain q db2 where "CreateSession d now i pl c (usId user) (usTenant user) ttl db1 = (q, db2)" by fastforce
    moreover from this have "db_typed db2" using typed_session [of db1 d now i pl c "usId user" "usTenant user" ttl] assms Pair by simp
    ultimately show ?thesis using Pair Inr by (cases q) simp_all
  qed (use assms Pair in simp)
qed

lemma typed_login [typed]:
  assumes "db_typed db"
  shows "db_typed (snd (EstablishSession verify env t raw db))"
proof (cases "GetOIDCProviderByTenant (adn env SProvider) t db")
  case (Inr prov)
  have "db_typed (snd (provisionUser env prov sub email name (RoleFromGroups g a b (JITDefaultRole prov)) db))" for sub email name g a b
    by (rule typed_user [OF assms provider_role [OF assms Inr]])
  from login_tail [OF this] show ?thesis
    using Inr assms by (simp add: EstablishSession_def Let_def split: option.split)
qed (use assms in \<open>simp add: EstablishSession_def\<close>)

subsection \<open>Through the handlers\<close>

definition keeps :: "'r handler \<Rightarrow> bool" where
  "keeps hnd \<longleftrightarrow> (\<forall>req ctx A. db_typed (adb A) \<longrightarrow> db_typed (adb (snd (hnd req ctx A))))"

lemma keepsI: "(\<And>req ctx A. db_typed (adb A) \<Longrightarrow> db_typed (adb (snd (hnd req ctx A)))) \<Longrightarrow> keeps hnd"
  by (simp add: keeps_def)

lemma keepsD: "keeps hnd \<Longrightarrow> db_typed (adb A) \<Longrightarrow> db_typed (adb (snd (hnd req ctx A)))"
  by (simp add: keeps_def)

lemma insertAudit_typed [simp]: "db_typed (adb A) \<Longrightarrow> db_typed (adb (insertAudit env a act r oc A))"
  by (simp add: insertAudit_def typed)

lemma createToken_keeps [typed]: "keeps (createToken env :: 'q handler)"
proof (rule keepsI)
  fix req ctx and A :: "'q admin"
  assume t: "db_typed (adb A)"
  obtain resp A' where r: "createToken env req ctx A = (resp, A')" by fastforce
  with createToken_row [where env = env and req = req and ctx = ctx and A = A] have "A' = A \<or> (\<exists>t. A' = A\<lparr>adb := (adb A)\<lparr>tokens := tokens (adb A) @ [t]\<rparr>\<rparr> \<and> token_ok t)"
    by (auto simp: token_ok_def split: if_splits)
  with t r show "db_typed (adb (snd (createToken env req ctx A)))" by (auto simp: db_typed_def)
qed

lemma revokeToken_keeps [typed]: "keeps (revokeToken env i :: 'q handler)"
proof (rule keepsI)
  fix req ctx and A :: "'q admin"
  assume "db_typed (adb A)"
  from typed_revoke [OF this] have "db_typed db" if "RevokeToken d t i (adb A) = (res, db)" for d t res db using that by (metis snd_conv)
  then show "db_typed (adb (snd (revokeToken env i req ctx A)))" using \<open>db_typed (adb A)\<close>
    by (simp add: revokeToken_def split: prod.splits sum.splits)
qed

lemma putSetting_keeps [typed]: "keeps (putSetting env raw scp k :: 'q handler)"
proof (rule keepsI)
  fix req ctx and A :: "'q admin"
  assume "db_typed (adb A)"
  from typed_setting [OF this] have "db_typed db" if "UpsertSetting d t scp k v n (adb A) = (res, db)" for d t v n res db
    using that by (metis snd_conv)
  then show "db_typed (adb (snd (putSetting env raw scp k req ctx A)))" using \<open>db_typed (adb A)\<close>
    by (simp add: putSetting_def split: prod.splits sum.splits option.splits)
qed

lemma import_done_typed: "db_typed (adb A) \<Longrightarrow> db_typed (adb (snd (import_done env act msg i res ctx A)))"
  by (simp add: import_done_def split: prod.split option.split)

lemma import_keeps [typed]: "keeps (cancelImport cfg env i)" "keeps (forceCancelImport cfg env i)" "keeps (deleteImport cfg env i)"
  by (rule keepsI; simp add: cancelImport_def forceCancelImport_def deleteImport_def import_done_typed)+

lemma createImport_keeps [typed]: "keeps (createImport cfg env)"
  by (rule keepsI) (simp add: createImport_def Let_def split: prod.split sum.split option.split)

lemma purge_keeps [typed]: "keeps (purgeCacheByPrefix env)"
  by (rule keepsI) (simp add: purgeCacheByPrefix_def split: prod.split option.split)

lemma run_op_keeps [typed]: "keeps (run_op cfg env raw op vs)"
proof (cases "reads_only op")
  case True
  then show ?thesis by (intro keepsI) (simp add: run_op_reads)
next
  case False
  then show ?thesis by (cases op) (simp_all add: run_op_def typed)
qed

lemma adminMux_keeps [typed]: "keeps (adminMux cfg env raw)"
  by (rule keepsI) (simp add: adminMux_def requireAccess_def Let_def keepsD [OF run_op_keeps] split: option.split prod.split)

lemma establishSession_keeps [typed]: "keeps (establishSession cfg verify env :: 'q handler)"
proof (rule keepsI)
  fix req ctx and A :: "'q admin"
  assume t: "db_typed (adb A)"
  from typed_login [OF this] have "db_typed db" if "EstablishSession verify env t raw (adb A) = (res, db)" for t raw res db
    using that by (metis snd_conv)
  with t show "db_typed (adb (snd (establishSession cfg verify env req ctx A)))"
    unfolding establishSession_def by (auto split: option.split sum.split prod.split)
qed

lemma logout_keeps [typed]: "keeps (logout env)" "keeps (csrfToken env)" "keeps (oidcConfig cfg env)"
  by (rule keepsI; simp add: logout_def csrfToken_def oidcConfig_def Let_def typed_logout split: option.split sum.split prod.split)+

lemma authMux_keeps [typed]: "keeps (authMux cfg verify env)"
  by (rule keepsI) (simp add: authMux_def Let_def keepsD [OF establishSession_keeps] keepsD [OF logout_keeps(1)]
    keepsD [OF logout_keeps(2)] keepsD [OF logout_keeps(3)])

lemma audit_record_typed: "db_typed (adb A) \<Longrightarrow> db_typed (adb (audit_record cfg env req ctx c A))"
  by (simp add: audit_record_def Let_def typed_audit split: prod.splits)

lemma Wrap_keeps:
  assumes "keeps (hnd :: 'q handler)"
  shows "keeps (Wrap cfg env hnd)"
proof (rule keepsI)
  fix req ctx and A :: "'q admin"
  assume "db_typed (adb A)"
  from keepsD [OF assms this, of req ctx] show "db_typed (adb (snd (Wrap cfg env hnd req ctx A)))"
    by (cases "hnd req ctx A") (simp add: Wrap_def audit_record_typed)
qed

lemma guard_keeps: "keeps hnd \<Longrightarrow> keeps (CSRFProtect hnd)" "keeps hnd \<Longrightarrow> keeps (requireAuthenticated hnd)"
  by (auto simp: keeps_def CSRFProtect_def requireAuthenticated_def)

lemma ActorFromRequest_typed: "db_typed db \<Longrightarrow> db_typed (snd (ActorFromRequest env req db))"
  by (auto simp: ActorFromRequest_def actorFromSession_def Let_def typed_touch split: option.splits sum.splits)

lemma Middleware_keeps: "keeps hnd \<Longrightarrow> db_typed (adb A) \<Longrightarrow> db_typed (adb (snd (Middleware env hnd req A)))"
  using ActorFromRequest_typed [of "adb A" env req]
  by (auto simp: Middleware_def Let_def keeps_def split: prod.splits sum.splits)

lemma CombinedHandler_keeps:
  assumes "db_typed (adb A)"
  shows "db_typed (adb (snd (CombinedHandler cfg verify raw other env req A)))"
proof -
  have "db_typed (adb (snd (Middleware env (CSRFProtect (Wrap cfg env (authMux cfg verify env))) req A)))"
    "db_typed (adb (snd (Middleware env (CSRFProtect (requireAuthenticated (Wrap cfg env (adminMux cfg env raw)))) req A)))"
    by (intro Middleware_keeps guard_keeps Wrap_keeps authMux_keeps adminMux_keeps assms)+
  with assms show ?thesis by (simp add: CombinedHandler_def NewHandler_def securityHeaders_def Let_def)
qed

inductive dir_step :: "'r itself \<Rightarrow> authdb \<Rightarrow> authdb \<Rightarrow> bool" for Q where
  \<comment> \<open>\<open>Q\<close> is the type of the job queue\<close>
  ds_request: "CombinedHandler cfg verify raw other env req (A :: 'r admin) = (resp, A') \<Longrightarrow> dir_step Q (adb A) (adb A')"
| ds_tenant: "EnsureTenant d i n dn db = (res, db') \<Longrightarrow> dir_step Q db db'"
| ds_provider: "UpsertOIDCProvider d p db = (res, db') \<Longrightarrow> dir_step Q db db'"
| ds_owner: "GrantOwner d t e s db = (res, db') \<Longrightarrow> dir_step Q db db'"

lemma dir_step_typed: "dir_step Q db db' \<Longrightarrow> db_typed db \<Longrightarrow> db_typed db'"
  by (induction rule: dir_step.induct)
    (metis snd_conv CombinedHandler_keeps typed_tenant typed_provider typed_owner)+

text \<open>C22: the directory stays well typed. In every database that requests to the admin listener and the operations of the command line can make of the empty one, every user
  has one of the four roles, every provider is complete and the only one of its tenant, every token has a 32-byte hash and scopes of the allowed list, at
  least one, every session has a 32-byte hash, and settings have unique keys and versions from 1.\<close>

theorem directory_typed:
  "(dir_step Q)\<^sup>*\<^sup>* empty_db db \<Longrightarrow> db_typed db"
proof (induction rule: rtranclp_induct)
  case base
  show ?case by (simp add: db_typed_def empty_db_def settings_ok_def)
qed (rule dir_step_typed)

theorem directory_typed_witness:
  "(dir_step TYPE(unit))\<^sup>*\<^sup>* empty_db (empty_db\<lparr>providers := [demo_provider]\<rparr>) \<and> db_typed (empty_db\<lparr>providers := [demo_provider]\<rparr>)"
proof -
  have "UpsertOIDCProvider False demo_provider empty_db = (None, empty_db\<lparr>providers := [demo_provider]\<rparr>)"
    by (simp add: UpsertOIDCProvider_def ValidateProvider_def ParseRole_def roles demo_provider_def empty_db_def)
  then have "(dir_step TYPE(unit))\<^sup>*\<^sup>* empty_db (empty_db\<lparr>providers := [demo_provider]\<rparr>)" by (blast intro: ds_provider)
  from this directory_typed [OF this] show ?thesis ..
qed

end
