(* ===== verification/Registry.thy ===== *)
theory Registry
  imports Auth_Db "HOL-Library.AList"
begin

text \<open>
  The data layer of the model registry, \<open>internal/registry\<close>: repositories, commits, branches, file revisions, blobs and mirrors as lists
  of rows, one function per method of \<open>Store\<close>. \<open>CommitTx\<close> is one serializable transaction, so it happens in one piece or, when one of
  its statements fails, not at all; which statement fails and with what is the argument \<open>ceFail\<close>. The constraints of the schema
  (\<open>0004_registry.up.sql\<close>) that the code relies on, unique keys and the form of branch names, are part of the statements. Go maps keyed by path are association lists.
\<close>

datatype reg_err = RNotFound | ErrAlreadyExists | ErrInvalidInput | ErrBlobMissing | ErrLFSSizeMismatch | ErrCommitPathInvalid
  | SerializationFailure | RDbError | RCanceled

subsection \<open>Paths and names\<close>

definition MaxCommitFilePathBytes :: nat where
  "MaxCommitFilePathBytes = 1024"

definition splitPathSegments :: "string \<Rightarrow> string list" where
  "splitPathSegments p = filter (\<lambda>s. s \<noteq> []) (split_on CHR ''/'' p)"

definition ValidateCommitFilePath :: "string \<Rightarrow> bool" where
  "ValidateCommitFilePath p \<longleftrightarrow>
     p \<noteq> [] \<and> length p \<le> MaxCommitFilePathBytes \<and> hd p \<noteq> CHR ''/'' \<and>
     list_all (\<lambda>c. byte c \<notin> {0, 92, 13, 10}) p \<and> ''..'' \<notin> set (splitPathSegments p)"

definition is_alnum :: "char \<Rightarrow> bool" where
  "is_alnum c \<longleftrightarrow> is_digit c \<or> (97 \<le> byte c \<and> byte c \<le> 122) \<or> (65 \<le> byte c \<and> byte c \<le> 90)"

definition isRepoSlug :: "string \<Rightarrow> bool" where
  "isRepoSlug s \<longleftrightarrow> 0 < length s \<and> length s \<le> 96 \<and> list_all (\<lambda>c. is_alnum c \<or> c \<in> set ''._-'') s \<and> hd s \<notin> set ''._-''"

definition validateRepoTriple :: "string \<Rightarrow> string \<Rightarrow> string \<Rightarrow> bool" where
  "validateRepoTriple t ns name \<longleftrightarrow> t \<in> {''models'', ''datasets'', ''spaces''} \<and> isRepoSlug ns \<and> isRepoSlug name"

definition isHex :: "string \<Rightarrow> bool" where
  "isHex s \<longleftrightarrow> list_all is_hex s"

definition isHexN :: "string \<Rightarrow> nat \<Rightarrow> bool" where
  "isHexN s n \<longleftrightarrow> length s = n \<and> isHex s"

definition branch_name_ok :: "string \<Rightarrow> bool" where
  \<comment> \<open>the constraint \<open>branches_name_chk\<close>\<close>
  "branch_name_ok s \<longleftrightarrow> s \<noteq> [] \<and> length s \<le> 96 \<and> is_alnum (hd s) \<and> list_all (\<lambda>c. is_alnum c \<or> c \<in> set ''._/-'') s"

subsection \<open>Tables\<close>

record Repo =
  rpId :: string
  rpTenant :: string
  rpType :: string
  rpNs :: string
  rpName :: string
  rpPrivate :: bool
  rpDeleted :: bool

record Commit =
  cmId :: string
  cmRepo :: string
  cmSHA :: string
  cmParent :: string             \<comment> \<open>empty for \<open>NULL\<close>\<close>
  cmSummary :: string
  cmDesc :: string
  cmTime :: int

record file_row =
  frCommit :: string
  frPath :: string
  frOID :: string
  frLFS :: bool

record FileRevision =
  fvPath :: string
  fvOID :: string
  fvLFS :: bool
  fvSize :: int

record Blob =
  blOID :: string
  blSize :: int
  blURL :: string
  blRef :: int

record branch_row =
  brRepo :: string
  brName :: string
  brSHA :: string

record Mirror =
  mrTenant :: string
  mrType :: string
  mrNs :: string
  mrName :: string
  mrHost :: string
  mrPinned :: string
  mrDeleted :: bool

record regdb =
  repos :: "Repo list"
  blobs :: "Blob list"
  commits :: "Commit list"
  branches :: "branch_row list"
  files :: "file_row list"
  mirrors :: "Mirror list"

record CommitInput =
  ciRepo :: string
  ciBranch :: string
  ciSummary :: string
  ciDesc :: string
  ciInline :: "(string \<times> string \<times> int) list"      \<comment> \<open>path, object id, size\<close>
  ciLFS :: "(string \<times> string \<times> int) list"
  ciDeletes :: "string list"

record CommitResult =
  crCommit :: string
  crSHA :: string
  crBranch :: string

definition FullName :: "Repo \<Rightarrow> string" where
  "FullName r = rpNs r @ ''/'' @ rpName r"

subsection \<open>Repositories and mirrors\<close>

definition repo_at :: "string \<Rightarrow> string \<Rightarrow> string \<Rightarrow> string \<Rightarrow> Repo \<Rightarrow> bool" where
  "repo_at ten t ns n r \<longleftrightarrow> rpTenant r = ten \<and> rpType r = t \<and> rpNs r = ns \<and> rpName r = n \<and> \<not> rpDeleted r"

definition CreateRepo :: "bool \<Rightarrow> string \<Rightarrow> string \<Rightarrow> string \<Rightarrow> string \<Rightarrow> string \<Rightarrow> bool \<Rightarrow> regdb \<Rightarrow> (reg_err + Repo) \<times> regdb" where
  "CreateRepo down newId ten t ns n private db =
     (if \<not> validateRepoTriple t ns n then (Inl ErrInvalidInput, db)
      else if down then (Inl RDbError, db)
      else if list_ex (\<lambda>r. repo_at ten t ns n r \<or> rpId r = newId) (repos db) then (Inl ErrAlreadyExists, db)
      else let r = \<lparr>rpId = newId, rpTenant = ten, rpType = t, rpNs = ns, rpName = n, rpPrivate = private, rpDeleted = False\<rparr>
           in (Inr r, db\<lparr>repos := repos db @ [r]\<rparr>))"

definition GetRepo :: "bool \<Rightarrow> string \<Rightarrow> string \<Rightarrow> string \<Rightarrow> string \<Rightarrow> regdb \<Rightarrow> reg_err + Repo" where
  "GetRepo down ten t ns n db =
     (if down then Inl RDbError
      else case first_row (repo_at ten t ns n) (repos db) of None \<Rightarrow> Inl RNotFound | Some r \<Rightarrow> Inr r)"

definition mirror_at :: "string \<Rightarrow> string \<Rightarrow> string \<Rightarrow> string \<Rightarrow> Mirror \<Rightarrow> bool" where
  "mirror_at ten t ns n m \<longleftrightarrow> mrTenant m = ten \<and> mrType m = t \<and> mrNs m = ns \<and> mrName m = n \<and> \<not> mrDeleted m"

definition CreateMirror :: "bool \<Rightarrow> string \<Rightarrow> string \<Rightarrow> string \<Rightarrow> string \<Rightarrow> string \<Rightarrow> string \<Rightarrow> regdb \<Rightarrow> (reg_err + Mirror) \<times> regdb" where
  "CreateMirror down ten t ns n upstream0 pinned db =
     (let upstream = (if upstream0 = [] then ''huggingface.co'' else upstream0)
      in if \<not> validateRepoTriple t ns n then (Inl ErrInvalidInput, db)
         else if pinned \<noteq> [] \<and> \<not> isHexN pinned 40 then (Inl ErrInvalidInput, db)
         else if down then (Inl RDbError, db)
         else if list_ex (mirror_at ten t ns n) (mirrors db) then (Inl ErrAlreadyExists, db)
         else let m = \<lparr>mrTenant = ten, mrType = t, mrNs = ns, mrName = n, mrHost = upstream, mrPinned = pinned, mrDeleted = False\<rparr>
              in (Inr m, db\<lparr>mirrors := mirrors db @ [m]\<rparr>))"

definition GetMirror :: "bool \<Rightarrow> string \<Rightarrow> string \<Rightarrow> string \<Rightarrow> string \<Rightarrow> regdb \<Rightarrow> reg_err + Mirror" where
  "GetMirror down ten t ns n db =
     (if down then Inl RDbError
      else case first_row (mirror_at ten t ns n) (mirrors db) of None \<Rightarrow> Inl RNotFound | Some m \<Rightarrow> Inr m)"

subsection \<open>Reading a revision\<close>

definition ResolveBranch :: "(nat \<Rightarrow> bool) \<Rightarrow> string \<Rightarrow> string \<Rightarrow> regdb \<Rightarrow> reg_err + string" where
  "ResolveBranch down repo ref0 db =
     (let ref = (if ref0 = [] then ''main'' else ref0);
          exact = first_row (\<lambda>c. cmRepo c = repo \<and> cmSHA c = ref) (commits db);
          short = first_row (\<lambda>c. cmRepo c = repo \<and> has_prefix (cmSHA c) ref) (commits db)
      in if down 0 then Inl RDbError
         else case first_row (\<lambda>b. brRepo b = repo \<and> brName b = ref) (branches db) of
           Some b \<Rightarrow> Inr (brSHA b)
         | None \<Rightarrow>
             if length ref = 40 \<and> isHex ref \<and> down 1 then Inl RDbError
             else if length ref = 40 \<and> isHex ref \<and> exact \<noteq> None then Inr (cmSHA (the exact))
             else if length ref \<ge> 7 \<and> isHex ref \<and> down 2 then Inl RDbError
             else if length ref \<ge> 7 \<and> isHex ref \<and> short \<noteq> None then Inr (cmSHA (the short))
             else Inl RNotFound)"

definition commit_at :: "string \<Rightarrow> string \<Rightarrow> regdb \<Rightarrow> Commit option" where
  "commit_at repo sha db = first_row (\<lambda>c. cmRepo c = repo \<and> cmSHA c = sha) (commits db)"

definition with_size :: "regdb \<Rightarrow> file_row \<Rightarrow> FileRevision option" where
  \<comment> \<open>\<open>JOIN blobs b ON b.oid = fr.blob_oid\<close>\<close>
  "with_size db f = map_option (\<lambda>b. \<lparr>fvPath = frPath f, fvOID = frOID f, fvLFS = frLFS f, fvSize = blSize b\<rparr>)
     (first_row (\<lambda>b. blOID b = frOID f) (blobs db))"

definition files_of :: "string \<Rightarrow> regdb \<Rightarrow> (string \<times> FileRevision) list" where
  "files_of cid db = List.map_filter (\<lambda>f. map_option (\<lambda>v. (frPath f, v)) (with_size db f)) (filter (\<lambda>f. frCommit f = cid) (files db))"

definition ListFiles :: "(nat \<Rightarrow> bool) \<Rightarrow> string \<Rightarrow> string \<Rightarrow> regdb \<Rightarrow> reg_err + (string \<times> FileRevision) list \<times> Commit" where
  "ListFiles down repo sha db =
     (if down 0 then Inl RDbError
      else case commit_at repo sha db of
        None \<Rightarrow> Inl RNotFound
      | Some c \<Rightarrow> if down 1 then Inl RDbError else Inr (files_of (cmId c) db, c))"

definition LookupFile :: "(nat \<Rightarrow> bool) \<Rightarrow> string \<Rightarrow> string \<Rightarrow> string \<Rightarrow> regdb \<Rightarrow> reg_err + FileRevision \<times> Commit" where
  "LookupFile down repo ref path db =
     (case ResolveBranch down repo ref db of
        Inl e \<Rightarrow> Inl e
      | Inr sha \<Rightarrow>
          if down 3 then Inl RDbError
          else (case commit_at repo sha db of
                  None \<Rightarrow> Inl RNotFound
                | Some c \<Rightarrow>
                    if down 4 then Inl RDbError
                    else (case map_of (files_of (cmId c) db) path of None \<Rightarrow> Inl RNotFound | Some f \<Rightarrow> Inr (f, c))))"

definition HasBlob :: "bool \<Rightarrow> string \<Rightarrow> regdb \<Rightarrow> reg_err + Blob option" where
  "HasBlob down oid db = (if down then Inl RDbError else Inr (first_row (\<lambda>b. blOID b = oid) (blobs db)))"

definition UpsertBlob :: "bool \<Rightarrow> string \<Rightarrow> int \<Rightarrow> string \<Rightarrow> regdb \<Rightarrow> reg_err option \<times> regdb" where
  "UpsertBlob down oid n url db =
     (if \<not> isHexN oid 64 then (Some ErrInvalidInput, db)
      else if down then (Some RDbError, db)
      else if list_ex (\<lambda>b. blOID b = oid) (blobs db) then (None, db)
      else (None, db\<lparr>blobs := blobs db @ [\<lparr>blOID = oid, blSize = n, blURL = url, blRef = 0\<rparr>]\<rparr>))"

subsection \<open>Commits\<close>

definition deriveCommitSHA :: "string \<Rightarrow> int \<Rightarrow> string \<Rightarrow> string \<Rightarrow> string" where
  "deriveCommitSHA summary now parent nonce =
     take 40 (hex_encode (Sum256 (summary @ ''|'' @ parent @ ''|'' @ format_int now @ ''|'' @ hex_encode nonce)))"

record cenv =
  ceFail :: "nat \<Rightarrow> reg_err option"     \<comment> \<open>the error of each statement\<close>
  ceId :: string
  ceNow :: int
  ceNonce :: string

definition new_tree :: "(string \<times> FileRevision) list \<Rightarrow> CommitInput \<Rightarrow> (string \<times> FileRevision) list" where
  "new_tree parentFiles inp =
     (let t1 = foldl (\<lambda>t d. AList.delete d t) parentFiles (ciDeletes inp);
          t2 = foldl (\<lambda>t (p, oid, n). AList.update p \<lparr>fvPath = p, fvOID = oid, fvLFS = False, fvSize = n\<rparr> t) t1 (ciInline inp)
      in foldl (\<lambda>t (p, oid, n). AList.update p \<lparr>fvPath = p, fvOID = oid, fvLFS = True, fvSize = n\<rparr> t) t2 (ciLFS inp))"

definition check_blobs :: "(string \<times> FileRevision) list \<Rightarrow> regdb \<Rightarrow> reg_err option" where
  "check_blobs tree db =
     (let stored = (\<lambda>f. first_row (\<lambda>b. blOID b = fvOID f) (blobs db))
      in if list_ex (\<lambda>(p, f). case stored f of None \<Rightarrow> False | Some b \<Rightarrow> fvLFS f \<and> fvSize f > 0 \<and> fvSize f \<noteq> blSize b) tree
         then Some ErrLFSSizeMismatch
         else if list_ex (\<lambda>(p, f). stored f = None) tree then Some ErrBlobMissing else None)"

definition added_oids :: "(string \<times> FileRevision) list \<Rightarrow> (string \<times> FileRevision) list \<Rightarrow> string list" where
  \<comment> \<open>objects at a path that did not have them in the parent\<close>
  "added_oids parentFiles tree =
     map (fvOID \<circ> snd) (filter (\<lambda>(p, f). map_option fvOID (map_of parentFiles p) \<noteq> Some (fvOID f)) tree)"

definition set_branch :: "string \<Rightarrow> string \<Rightarrow> string \<Rightarrow> branch_row list \<Rightarrow> branch_row list" where
  "set_branch repo name sha bs =
     (if list_ex (\<lambda>b. brRepo b = repo \<and> brName b = name) bs
      then update_rows (\<lambda>b. brRepo b = repo \<and> brName b = name) (\<lambda>b. b\<lparr>brSHA := sha\<rparr>) bs
      else bs @ [\<lparr>brRepo = repo, brName = name, brSHA = sha\<rparr>])"

definition commit_rows :: "cenv \<Rightarrow> CommitInput \<Rightarrow> string \<Rightarrow> string \<Rightarrow> string \<Rightarrow> (string \<times> FileRevision) list \<Rightarrow> (string \<times> FileRevision) list \<Rightarrow> regdb \<Rightarrow> regdb" where
  \<comment> \<open>all rows a transaction writes\<close>
  "commit_rows env inp branch parent sha parentFiles tree db =
     db\<lparr>commits := commits db @ [\<lparr>cmId = ceId env, cmRepo = ciRepo inp, cmSHA = sha, cmParent = parent, cmSummary = ciSummary inp,
          cmDesc = ciDesc inp, cmTime = ceNow env\<rparr>],
        files := files db @ map (\<lambda>(p, f). \<lparr>frCommit = ceId env, frPath = p, frOID = fvOID f, frLFS = fvLFS f\<rparr>) tree,
        blobs := update_rows (\<lambda>b. blOID b \<in> set (added_oids parentFiles tree)) (\<lambda>b. b\<lparr>blRef := blRef b + 1\<rparr>) (blobs db),
        branches := set_branch (ciRepo inp) branch sha (branches db)\<rparr>"

definition fails :: "cenv \<Rightarrow> nat \<Rightarrow> bool" where
  "fails env k \<longleftrightarrow> ceFail env k \<noteq> None"

definition commit_error ::
  "cenv \<Rightarrow> CommitInput \<Rightarrow> string \<Rightarrow> string \<Rightarrow> string \<Rightarrow> (string \<times> FileRevision) list \<Rightarrow> (string \<times> FileRevision) list \<Rightarrow> regdb \<Rightarrow> reg_err option" where
  \<comment> \<open>the first failure on the way through the transaction\<close>
  "commit_error env inp branch parent sha parentFiles tree db =
     (if fails env 0 then ceFail env 0                               \<comment> \<open>begin\<close>
      else if fails env 1 then ceFail env 1                          \<comment> \<open>branch\<close>
      else if parent \<noteq> [] \<and> fails env 2 then ceFail env 2            \<comment> \<open>files of the parent\<close>
      else if \<not> list_all ValidateCommitFilePath (ciDeletes inp @ map fst (ciInline inp) @ map fst (ciLFS inp))
      then Some ErrCommitPathInvalid
      else if tree \<noteq> [] \<and> fails env 3 then ceFail env 3              \<comment> \<open>blobs\<close>
      else if check_blobs tree db \<noteq> None then check_blobs tree db
      else if fails env 4 then ceFail env 4                          \<comment> \<open>commit, with its keys\<close>
      else if \<not> list_ex (\<lambda>r. rpId r = ciRepo inp) (repos db) \<or> ceId env \<in> cmId ` set (commits db) \<or> commit_at (ciRepo inp) sha db \<noteq> None
      then Some RDbError
      else if tree \<noteq> [] \<and> fails env 5 then ceFail env 5              \<comment> \<open>file revisions\<close>
      else if added_oids parentFiles tree \<noteq> [] \<and> fails env 6 then ceFail env 6
      else if fails env 7 then ceFail env 7                          \<comment> \<open>branch pointer\<close>
      else if \<not> branch_name_ok branch then Some RDbError
      else if fails env 8 then ceFail env 8                          \<comment> \<open>repository time\<close>
      else ceFail env 9)"                                            \<comment> \<open>commit\<close>

definition CommitTx :: "cenv \<Rightarrow> CommitInput \<Rightarrow> regdb \<Rightarrow> (reg_err + CommitResult) \<times> regdb" where
  "CommitTx env inp db =
     (if ciRepo inp = [] then (Inl ErrInvalidInput, db)
      else let branch = (if ciBranch inp = [] then ''main'' else ciBranch inp);
               parent = (case first_row (\<lambda>b. brRepo b = ciRepo inp \<and> brName b = branch) (branches db) of None \<Rightarrow> [] | Some b \<Rightarrow> brSHA b);
               parentFiles = (if parent = [] then [] else case commit_at (ciRepo inp) parent db of None \<Rightarrow> [] | Some c \<Rightarrow> files_of (cmId c) db);
               tree = new_tree parentFiles inp;
               sha = deriveCommitSHA (ciSummary inp) (ceNow env) parent (ceNonce env)
           in case commit_error env inp branch parent sha parentFiles tree db of
                Some e \<Rightarrow> (Inl e, db)
              | None \<Rightarrow> (Inr \<lparr>crCommit = ceId env, crSHA = sha, crBranch = branch\<rparr>,
                         commit_rows env inp branch parent sha parentFiles tree db))"

subsection \<open>Invariant\<close>

definition reg_ok :: "regdb \<Rightarrow> bool" where
  "reg_ok db \<longleftrightarrow>
     distinct (map cmId (commits db)) \<and> distinct (map (\<lambda>c. (cmRepo c, cmSHA c)) (commits db)) \<and> distinct (map blOID (blobs db)) \<and>
     distinct (map (\<lambda>b. (brRepo b, brName b)) (branches db)) \<and> distinct (map (\<lambda>f. (frCommit f, frPath f)) (files db)) \<and>
     (\<forall>f \<in> set (files db). frOID f \<in> blOID ` set (blobs db) \<and> frCommit f \<in> cmId ` set (commits db) \<and> ValidateCommitFilePath (frPath f)) \<and>
     (\<forall>b \<in> set (branches db). commit_at (brRepo b) (brSHA b) db \<noteq> None) \<and>
     (\<forall>c \<in> set (commits db). length (cmSHA c) = 40 \<and> (cmParent c = [] \<or> commit_at (cmRepo c) (cmParent c) db \<noteq> None))"

definition empty_reg :: regdb where
  "empty_reg = \<lparr>repos = [], blobs = [], commits = [], branches = [], files = [], mirrors = []\<rparr>"

definition tree_of :: "regdb \<Rightarrow> string \<Rightarrow> string \<Rightarrow> string \<rightharpoonup> string \<times> bool" where
  \<comment> \<open>what a commit is: paths with object id and kind\<close>
  "tree_of db repo sha = (case commit_at repo sha db of None \<Rightarrow> Map.empty
     | Some c \<Rightarrow> map_option (\<lambda>f. (fvOID f, fvLFS f)) \<circ> map_of (files_of (cmId c) db))"

definition branch_head :: "regdb \<Rightarrow> string \<Rightarrow> string \<rightharpoonup> string" where
  "branch_head db repo name = map_option brSHA (first_row (\<lambda>b. brRepo b = repo \<and> brName b = name) (branches db))"

definition apply_commit :: "CommitInput \<Rightarrow> (string \<rightharpoonup> string \<times> bool) \<Rightarrow> (string \<rightharpoonup> string \<times> bool)" where
  \<comment> \<open>the abstract operation: remove, then add or replace; a later entry wins, and a pointer over an inline file\<close>
  "apply_commit inp t = t |` (- set (ciDeletes inp)) ++ map_of (rev (map (\<lambda>(p, oid, n). (p, oid, False)) (ciInline inp)))
     ++ map_of (rev (map (\<lambda>(p, oid, n). (p, oid, True)) (ciLFS inp)))"

lemma reg_ok_empty [simp]: "reg_ok empty_reg"
  by (simp add: reg_ok_def empty_reg_def)

lemma foldl_delete: "map_of (foldl (\<lambda>t d. AList.delete d t) t ds) = map_of t |` (- set ds)"
  by (induction ds arbitrary: t) (auto simp: AList.delete_conv' fun_eq_iff restrict_map_def)

lemma foldl_update:
  "map_of (foldl (\<lambda>t (p, oid, n). AList.update p (g p oid n) t) t xs) = map_of t ++ map_of (rev (map (\<lambda>(p, oid, n). (p, g p oid n)) xs))"
proof (induction xs arbitrary: t)
  case (Cons x xs)
  obtain p oid n where x: "x = (p, oid, n)" by (metis prod.exhaust)
  show ?case using Cons.IH [of "AList.update p (g p oid n) t"]
    by (auto simp: x AList.update_conv' fun_eq_iff map_add_def split: option.splits)
qed simp

lemma map_of_rev_comp: "map_option h (map_of (rev (map (\<lambda>(p, oid, n). (p, f p oid n)) xs)) q) = map_of (rev (map (\<lambda>(p, oid, n). (p, h (f p oid n))) xs)) q"
proof -
  have "rev (map (\<lambda>(p, oid, n). (p, h (f p oid n))) xs) = map (\<lambda>(k, v). (k, h v)) (rev (map (\<lambda>(p, oid, n). (p, f p oid n)) xs))"
    by (simp add: rev_map split_def)
  then show ?thesis by (simp add: map_of_map)
qed

abbreviation inline_file :: "string \<Rightarrow> string \<Rightarrow> int \<Rightarrow> FileRevision" where
  "inline_file p oid n \<equiv> \<lparr>fvPath = p, fvOID = oid, fvLFS = False, fvSize = n\<rparr>"

abbreviation lfs_file :: "string \<Rightarrow> string \<Rightarrow> int \<Rightarrow> FileRevision" where
  "lfs_file p oid n \<equiv> \<lparr>fvPath = p, fvOID = oid, fvLFS = True, fvSize = n\<rparr>"

lemma new_tree_map_of:
  "map_of (new_tree pf inp) = map_of pf |` (- set (ciDeletes inp)) ++ map_of (rev (map (\<lambda>(p, oid, n). (p, inline_file p oid n)) (ciInline inp)))
      ++ map_of (rev (map (\<lambda>(p, oid, n). (p, lfs_file p oid n)) (ciLFS inp)))"
  by (simp only: new_tree_def Let_def foldl_update [where g = lfs_file] foldl_update [where g = inline_file] foldl_delete)

lemma map_option_add: "map_option h \<circ> (m1 ++ m2) = (map_option h \<circ> m1) ++ (map_option h \<circ> m2)"
  by (auto simp: map_add_def fun_eq_iff split: option.splits)

lemma map_option_restrict: "map_option h \<circ> (m |` X) = (map_option h \<circ> m) |` X"
  by (auto simp: restrict_map_def fun_eq_iff)

lemma new_tree_map:
  "map_option (\<lambda>f. (fvOID f, fvLFS f)) \<circ> map_of (new_tree pf inp) = apply_commit inp (map_option (\<lambda>f. (fvOID f, fvLFS f)) \<circ> map_of pf)"
proof -
  let ?h = "\<lambda>f. (fvOID f, fvLFS f)"
  have "map_option ?h \<circ> map_of (rev (map (\<lambda>(p, oid, n). (p, inline_file p oid n)) xs)) = map_of (rev (map (\<lambda>(p, oid, n). (p, oid, False)) xs))"
    "map_option ?h \<circ> map_of (rev (map (\<lambda>(p, oid, n). (p, lfs_file p oid n)) xs)) = map_of (rev (map (\<lambda>(p, oid, n). (p, oid, True)) xs))" for xs :: "(string \<times> string \<times> int) list"
    by (simp_all add: fun_eq_iff map_of_rev_comp [where h = ?h])
  then show ?thesis by (simp only: new_tree_map_of map_option_add map_option_restrict apply_commit_def)
qed

lemma distinct_foldl_delete: "distinct (map fst t) \<Longrightarrow> distinct (map fst (foldl (\<lambda>t d. AList.delete d t) t ds))"
  by (induction ds arbitrary: t) (auto simp: AList.distinct_delete)

lemma distinct_foldl_update:
  "distinct (map fst t) \<Longrightarrow> distinct (map fst (foldl (\<lambda>t (p, oid, n). AList.update p (g p oid n) t) t xs))"
  by (induction xs arbitrary: t) (auto simp: AList.distinct_update)

lemma new_tree_distinct: "distinct (map fst pf) \<Longrightarrow> distinct (map fst (new_tree pf inp))"
  by (simp add: new_tree_def Let_def distinct_foldl_update distinct_foldl_delete)

lemma new_tree_keys: "fst ` set (new_tree pf inp) \<subseteq> fst ` set pf \<union> fst ` set (ciInline inp) \<union> fst ` set (ciLFS inp)"
proof -
  have d: "dom (map_of (rev (map (\<lambda>(p, oid, n). (p, g p oid n)) xs))) = fst ` set xs" for g :: "string \<Rightarrow> string \<Rightarrow> int \<Rightarrow> FileRevision" and xs
    by (force simp: dom_map_of_conv_image_fst)
  have "fst ` set (new_tree pf inp) = dom (map_of (new_tree pf inp))" by (simp add: dom_map_of_conv_image_fst)
  also have "\<dots> \<subseteq> dom (map_of pf) \<union> fst ` set (ciInline inp) \<union> fst ` set (ciLFS inp)"
    unfolding new_tree_map_of dom_map_add d dom_restrict by blast
  finally show ?thesis by (simp add: dom_map_of_conv_image_fst)
qed

subsection \<open>What a transaction writes\<close>

lemma first_row_append: "first_row p (xs @ ys) = (case first_row p xs of None \<Rightarrow> first_row p ys | Some r \<Rightarrow> Some r)"
  by (auto simp: first_row_def split: list.splits)

lemma first_row_update:
  "(\<And>r. p (f r) = p r) \<Longrightarrow> first_row p (update_rows q f rows) = map_option (\<lambda>r. if q r then f r else r) (first_row p rows)"
  by (induction rows) (auto simp: first_row_def update_rows_def split: list.splits)

lemma with_size_rows: "with_size (commit_rows env inp br par sha pf tree db) f = with_size db f"
  by (simp add: with_size_def commit_rows_def first_row_update option.map_comp o_def) (auto intro: option.map_cong0)

lemma commit_at_rows:
  assumes "commit_at (ciRepo inp) sha db = None"
  shows "commit_at r s (commit_rows env inp br par sha pf tree db) =
    (if r = ciRepo inp \<and> s = sha
     then Some \<lparr>cmId = ceId env, cmRepo = ciRepo inp, cmSHA = sha, cmParent = par, cmSummary = ciSummary inp, cmDesc = ciDesc inp, cmTime = ceNow env\<rparr>
     else commit_at r s db)"
  using assms by (auto simp: commit_at_def commit_rows_def first_row_append first_row_def split: option.splits list.splits)

lemma files_of_rows_old:
  "cid \<noteq> ceId env \<Longrightarrow> files_of cid (commit_rows env inp br par sha pf tree db) = files_of cid db"
proof -
  assume "cid \<noteq> ceId env"
  then have "filter (\<lambda>f. frCommit f = cid) (files (commit_rows env inp br par sha pf tree db)) = filter (\<lambda>f. frCommit f = cid) (files db)"
    by (simp add: commit_rows_def filter_map o_def split_def)
  then show ?thesis by (simp add: files_of_def with_size_rows)
qed

lemma map_filter_Some: "List.map_filter (\<lambda>x. Some (g x)) xs = map g xs"
  by (induction xs) (simp_all add: map_filter_simps)

lemma files_of_rows_new:
  assumes "\<forall>f \<in> set (files db). frCommit f \<noteq> ceId env" "check_blobs tree db = None"
  shows "map_option (\<lambda>f. (fvOID f, fvLFS f)) \<circ> map_of (files_of (ceId env) (commit_rows env inp br par sha pf tree db)) =
    map_option (\<lambda>f. (fvOID f, fvLFS f)) \<circ> map_of tree"
proof -
  let ?row = "\<lambda>(p, f). \<lparr>frCommit = ceId env, frPath = p, frOID = fvOID f, frLFS = fvLFS f\<rparr>"
  let ?new = "commit_rows env inp br par sha pf tree db"
  have rows: "filter (\<lambda>f. frCommit f = ceId env) (files ?new) = map ?row tree"
    using assms(1) by (simp add: commit_rows_def filter_map o_def split_def)
  have "first_row (\<lambda>b. blOID b = fvOID f) (blobs db) \<noteq> None" if "(p, f) \<in> set tree" for p f
    using assms(2) that by (auto simp: check_blobs_def Let_def list_ex_iff split: if_splits)
  then obtain sz where sz: "\<And>p f. (p, f) \<in> set tree \<Longrightarrow>
      with_size db \<lparr>frCommit = ceId env, frPath = p, frOID = fvOID f, frLFS = fvLFS f\<rparr> = Some \<lparr>fvPath = p, fvOID = fvOID f, fvLFS = fvLFS f, fvSize = sz f\<rparr>"
    by (atomize_elim, intro exI [of _ "\<lambda>f. blSize (the (first_row (\<lambda>b. blOID b = fvOID f) (blobs db)))"]) (fastforce simp: with_size_def)
  have "files_of (ceId env) ?new = map (\<lambda>(p, f). (p, \<lparr>fvPath = p, fvOID = fvOID f, fvLFS = fvLFS f, fvSize = sz f\<rparr>)) tree"
  proof -
    have "List.map_filter (\<lambda>f. map_option (\<lambda>v. (frPath f, v)) (with_size db f)) (map ?row xs) =
        map (\<lambda>(p, f). (p, \<lparr>fvPath = p, fvOID = fvOID f, fvLFS = fvLFS f, fvSize = sz f\<rparr>)) xs" if "set xs \<subseteq> set tree" for xs
      using that by (induction xs) (auto simp: map_filter_simps sz)
    then show ?thesis by (simp add: files_of_def rows with_size_rows)
  qed
  moreover have "map_option (\<lambda>f. (fvOID f, fvLFS f)) (map_of (map (\<lambda>(p, f). (p, \<lparr>fvPath = p, fvOID = fvOID f, fvLFS = fvLFS f, fvSize = sz f\<rparr>)) xs) x) =
      map_option (\<lambda>f. (fvOID f, fvLFS f)) (map_of xs x)" for xs x
    by (induction xs) auto
  ultimately show ?thesis by (simp add: fun_eq_iff)
qed

lemma CommitTx_error: "CommitTx env inp db = (Inl e, db') \<Longrightarrow> db' = db"
  by (auto simp: CommitTx_def Let_def split: if_splits option.splits)

lemma commit_error_None:
  "commit_error env inp branch parent sha pf tree db = None \<Longrightarrow>
   list_all ValidateCommitFilePath (ciDeletes inp @ map fst (ciInline inp) @ map fst (ciLFS inp)) \<and> check_blobs tree db = None \<and>
   commit_at (ciRepo inp) sha db = None \<and> branch_name_ok branch \<and> list_ex (\<lambda>r. rpId r = ciRepo inp) (repos db) \<and> ceId env \<notin> cmId ` set (commits db)"
  by (simp add: commit_error_def fails_def split: if_splits)

definition parent_of :: "CommitInput \<Rightarrow> regdb \<Rightarrow> string" where
  "parent_of inp db = (case branch_head db (ciRepo inp) (if ciBranch inp = [] then ''main'' else ciBranch inp) of None \<Rightarrow> [] | Some sha \<Rightarrow> sha)"

definition parent_files :: "CommitInput \<Rightarrow> regdb \<Rightarrow> (string \<times> FileRevision) list" where
  "parent_files inp db = (if parent_of inp db = [] then []
     else case commit_at (ciRepo inp) (parent_of inp db) db of None \<Rightarrow> [] | Some c \<Rightarrow> files_of (cmId c) db)"

lemma CommitTx_ok:
  assumes "CommitTx env inp db = (Inr res, db')"
  defines "tree \<equiv> new_tree (parent_files inp db) inp" and "branch \<equiv> (if ciBranch inp = [] then ''main'' else ciBranch inp)"
  shows "db' = commit_rows env inp branch (parent_of inp db) (crSHA res) (parent_files inp db) tree db"
    "crSHA res = deriveCommitSHA (ciSummary inp) (ceNow env) (parent_of inp db) (ceNonce env)" "crBranch res = branch" "crCommit res = ceId env"
    "commit_error env inp branch (parent_of inp db) (crSHA res) (parent_files inp db) tree db = None"
proof -
  have p: "parent_of inp db = (case first_row (\<lambda>b. brRepo b = ciRepo inp \<and> brName b = branch) (branches db) of None \<Rightarrow> [] | Some b \<Rightarrow> brSHA b)"
    by (simp add: parent_of_def branch_head_def branch_def split: option.splits)
  note facts = assms(1) [unfolded CommitTx_def Let_def, folded branch_def, folded p, folded parent_files_def, folded tree_def]
  from facts show "db' = commit_rows env inp branch (parent_of inp db) (crSHA res) (parent_files inp db) tree db"
    "crSHA res = deriveCommitSHA (ciSummary inp) (ceNow env) (parent_of inp db) (ceNonce env)" "crBranch res = branch" "crCommit res = ceId env"
    "commit_error env inp branch (parent_of inp db) (crSHA res) (parent_files inp db) tree db = None"
    by (auto split: if_splits option.splits)
qed

lemma length_commit_sha [simp]: "length (deriveCommitSHA sm now par nonce) = 40"
  by (simp add: deriveCommitSHA_def)

lemma first_row_same: "first_row p rows = Some r \<Longrightarrow> r \<in> set rows" "first_row p rows = Some r \<Longrightarrow> p r"
  by (auto dest: first_row_Some)

lemma branch_head_set:
  "branch_head (db\<lparr>branches := set_branch repo nm sha (branches db)\<rparr>) r n = (if r = repo \<and> n = nm then Some sha else branch_head db r n)"
proof (cases "first_row (\<lambda>b. brRepo b = r \<and> brName b = n) (branches db)")
  case None
  then have "first_row (\<lambda>b. brRepo b = r \<and> brName b = n) (update_rows q (\<lambda>b. b\<lparr>brSHA := sha\<rparr>) (branches db)) = None" for q
    by (subst first_row_update) simp_all
  moreover have "list_ex (\<lambda>b. brRepo b = r \<and> brName b = n) (branches db) = False" using None by (auto simp: first_row_None list_ex_iff)
  ultimately show ?thesis using None
    by (auto simp: branch_head_def set_branch_def first_row_append first_row_def [of _ "[_]"])
next
  case (Some b)
  then have b: "brRepo b = r" "brName b = n" "b \<in> set (branches db)" by (auto dest: first_row_Some)
  have "first_row (\<lambda>b. brRepo b = r \<and> brName b = n) (update_rows q (\<lambda>b. b\<lparr>brSHA := sha\<rparr>) (branches db)) =
      Some (if q b then b\<lparr>brSHA := sha\<rparr> else b)" for q
    using Some by (subst first_row_update) simp_all
  moreover have "r = repo \<Longrightarrow> n = nm \<Longrightarrow> list_ex (\<lambda>b. brRepo b = repo \<and> brName b = nm) (branches db)" using b by (auto simp: list_ex_iff)
  ultimately show ?thesis using Some b
    by (auto simp: branch_head_def set_branch_def first_row_append)
qed

lemma files_of_distinct:
  assumes "distinct (map (\<lambda>f. (frCommit f, frPath f)) (files db))"
  shows "distinct (map fst (files_of cid db))"
proof -
  have "distinct (map fst (List.map_filter (\<lambda>f. map_option (\<lambda>v. (frPath f, v)) (with_size db f)) (filter (\<lambda>f. frCommit f = cid) fs)))"
    if "distinct (map (\<lambda>f. (frCommit f, frPath f)) fs)" for fs
    using that
  proof (induction fs)
    case (Cons f fs)
    have "frPath f \<notin> fst ` set (List.map_filter (\<lambda>f. map_option (\<lambda>v. (frPath f, v)) (with_size db f)) (filter (\<lambda>f. frCommit f = cid) fs))"
      if "frCommit f = cid"
    proof
      assume "frPath f \<in> fst ` set (List.map_filter (\<lambda>f. map_option (\<lambda>v. (frPath f, v)) (with_size db f)) (filter (\<lambda>f. frCommit f = cid) fs))"
      then obtain x where "x \<in> set fs" "frCommit x = cid" "frPath x = frPath f" by (auto simp: List.map_filter_def)
      then have "(frCommit f, frPath f) \<in> (\<lambda>f. (frCommit f, frPath f)) ` set fs" using that by (intro rev_image_eqI [of x]) auto
      with Cons.prems show False by simp
    qed
    with Cons show ?case by (auto simp: map_filter_simps split: option.splits)
  qed (simp add: map_filter_simps)
  with assms show ?thesis by (simp add: files_of_def)
qed

lemma files_of_paths: "(p, f) \<in> set (files_of cid db) \<Longrightarrow> \<exists>r \<in> set (files db). frPath r = p \<and> frCommit r = cid"
  by (auto simp: files_of_def List.map_filter_def)

lemma files_of_valid: "reg_ok db \<Longrightarrow> (p, f) \<in> set (files_of cid db) \<Longrightarrow> ValidateCommitFilePath p"
  by (auto simp: reg_ok_def dest!: files_of_paths)

lemma parent_files_facts:
  assumes "reg_ok db"
  shows "distinct (map fst (parent_files inp db))" "p \<in> fst ` set (parent_files inp db) \<Longrightarrow> ValidateCommitFilePath p"
proof -
  have "distinct (map (\<lambda>f. (frCommit f, frPath f)) (files db))" using assms by (simp add: reg_ok_def)
  from files_of_distinct [OF this] show "distinct (map fst (parent_files inp db))" by (simp add: parent_files_def split: option.split)
  show "p \<in> fst ` set (parent_files inp db) \<Longrightarrow> ValidateCommitFilePath p"
    using files_of_valid [OF assms] by (auto simp: parent_files_def split: option.splits if_splits)
qed

lemma commit_at_mono:
  assumes "commit_at (ciRepo inp) sha db = None" "commit_at r s db \<noteq> None"
  shows "commit_at r s (commit_rows env inp br par sha pf tree db) = commit_at r s db"
  using assms by (auto simp: commit_at_rows)

lemma commit_at_mem: "commit_at r s db = Some c \<Longrightarrow> c \<in> set (commits db) \<and> cmRepo c = r \<and> cmSHA c = s"
  by (auto simp: commit_at_def dest: first_row_Some)

lemma commit_at_ex: "commit_at r s db = None \<longleftrightarrow> (\<forall>c \<in> set (commits db). \<not> (cmRepo c = r \<and> cmSHA c = s))"
  by (simp add: commit_at_def first_row_None)

lemma set_branch_mem: "b \<in> set (set_branch repo nm sha bs) \<Longrightarrow> b \<in> set bs \<or> brRepo b = repo \<and> brSHA b = sha"
  by (auto simp: set_branch_def update_rows_def split: if_splits)

lemma set_branch_distinct:
  "distinct (map (\<lambda>b. (brRepo b, brName b)) bs) \<Longrightarrow> distinct (map (\<lambda>b. (brRepo b, brName b)) (set_branch repo nm sha bs))"
proof -
  assume d: "distinct (map (\<lambda>b. (brRepo b, brName b)) bs)"
  have "map (\<lambda>b. (brRepo b, brName b)) (update_rows q (\<lambda>b. b\<lparr>brSHA := sha\<rparr>) bs) = map (\<lambda>b. (brRepo b, brName b)) bs" for q
    by (simp add: update_rows_def)
  with d show ?thesis by (auto simp: set_branch_def list_ex_iff)
qed

lemma check_blobs_present: "check_blobs tree db = None \<Longrightarrow> (p, f) \<in> set tree \<Longrightarrow> fvOID f \<in> blOID ` set (blobs db)"
  by (auto simp: check_blobs_def Let_def list_ex_iff split: if_splits option.splits dest!: first_row_Some) (force dest: first_row_Some)

lemma commit_rows_blobs [simp]: "map blOID (blobs (commit_rows env inp br par sha pf tree db)) = map blOID (blobs db)"
  by (simp add: commit_rows_def update_rows_def)

lemma commit_rows_files:
  "files (commit_rows env inp br par sha pf tree db) =
     files db @ map (\<lambda>(p, f). \<lparr>frCommit = ceId env, frPath = p, frOID = fvOID f, frLFS = fvLFS f\<rparr>) tree"
  by (simp add: commit_rows_def)

lemma reg_ok_rows:
  assumes ok: "reg_ok db" and new: "ceId env \<notin> cmId ` set (commits db)" and c: "commit_at (ciRepo inp) sha db = None" and "length sha = 40"
    and tree: "distinct (map fst tree)" "\<And>p. p \<in> fst ` set tree \<Longrightarrow> ValidateCommitFilePath p" "check_blobs tree db = None"
    and par: "par = [] \<or> commit_at (ciRepo inp) par db \<noteq> None"
  shows "reg_ok (commit_rows env inp br par sha pf tree db)"
proof -
  let ?db = "commit_rows env inp br par sha pf tree db"
  have b: "blOID ` set (blobs ?db) = blOID ` set (blobs db)" by (metis commit_rows_blobs set_map)
  have cs: "cmId ` set (commits ?db) = insert (ceId env) (cmId ` set (commits db))" by (auto simp: commit_rows_def)
  have old: "commit_at r s ?db \<noteq> None" if "commit_at r s db \<noteq> None" for r s using commit_at_mono [OF c that] that by simp
  have "distinct (map (\<lambda>f. (frCommit f, frPath f)) (files ?db))"
  proof -
    have "map (\<lambda>f. (frCommit f, frPath f)) (files ?db) = map (\<lambda>f. (frCommit f, frPath f)) (files db) @ map (\<lambda>p. (ceId env, p)) (map fst tree)"
      by (simp add: commit_rows_files split_def o_def)
    moreover have "distinct (map (\<lambda>p. (ceId env, p)) (map fst tree))" using tree(1) by (intro distinct_map [THEN iffD2]) (simp add: inj_on_def)
    moreover have "frCommit f \<noteq> ceId env" if "f \<in> set (files db)" for f using ok new that by (force simp: reg_ok_def)
    ultimately show ?thesis using ok by (auto simp: reg_ok_def)
  qed
  moreover have "frOID f \<in> blOID ` set (blobs ?db) \<and> frCommit f \<in> cmId ` set (commits ?db) \<and> ValidateCommitFilePath (frPath f)" if "f \<in> set (files ?db)" for f
    using that ok check_blobs_present [OF tree(3)] tree(2) unfolding b cs commit_rows_files by (force simp: reg_ok_def)
  moreover have "commit_at (brRepo x) (brSHA x) ?db \<noteq> None" if "x \<in> set (branches ?db)" for x
    using that set_branch_mem [of x "ciRepo inp" br sha "branches db"] ok old [of "brRepo x" "brSHA x"] commit_at_rows [OF c]
    by (auto simp: commit_rows_def reg_ok_def)
  moreover have "length (cmSHA x) = 40 \<and> (cmParent x = [] \<or> commit_at (cmRepo x) (cmParent x) ?db \<noteq> None)" if "x \<in> set (commits ?db)" for x
    using that ok par old \<open>length sha = 40\<close> by (auto simp: commit_rows_def reg_ok_def)
  moreover have "distinct (map cmId (commits ?db))" "distinct (map (\<lambda>c. (cmRepo c, cmSHA c)) (commits ?db))"
    using ok new c by (auto simp: commit_rows_def reg_ok_def commit_at_ex)
  moreover have "distinct (map (\<lambda>b. (brRepo b, brName b)) (branches ?db))"
    using ok set_branch_distinct by (auto simp: commit_rows_def reg_ok_def)
  moreover have "distinct (map blOID (blobs ?db))" using ok by (simp add: reg_ok_def)
  ultimately show ?thesis unfolding reg_ok_def by blast
qed

lemma branch_head_rows:
  "branch_head (commit_rows env inp br par sha pf tree db) r n = (if r = ciRepo inp \<and> n = br then Some sha else branch_head db r n)"
  using branch_head_set [where db = db and repo = "ciRepo inp" and nm = br and sha = sha and r = r and n = n] by (simp add: commit_rows_def branch_head_def)

lemma parent_known:
  assumes "reg_ok db"
  shows "parent_of inp db = [] \<or> commit_at (ciRepo inp) (parent_of inp db) db \<noteq> None"
  using assms by (auto simp: parent_of_def branch_head_def reg_ok_def split: option.splits dest!: first_row_Some)

lemma parent_tree: "map_option (\<lambda>f. (fvOID f, fvLFS f)) \<circ> map_of (parent_files inp db) =
    (if parent_of inp db = [] then Map.empty else tree_of db (ciRepo inp) (parent_of inp db))"
  by (auto simp: parent_files_def tree_of_def fun_eq_iff split: option.splits)

lemma CommitTx_keeps:
  assumes "reg_ok db" "CommitTx env inp db = (res, db')"
  shows "reg_ok db'"
proof (cases res)
  case (Inl e)
  with assms CommitTx_error show ?thesis by fastforce
next
  case (Inr r)
  let ?t = "new_tree (parent_files inp db) inp"
  note ok = CommitTx_ok [OF assms(2) [unfolded Inr]]
  note chk = commit_error_None [OF ok(5)]
  show ?thesis
  proof (unfold ok(1), rule reg_ok_rows [OF assms(1)])
    show "length (crSHA r) = 40" by (simp add: ok(2))
    show "distinct (map fst ?t)" by (rule new_tree_distinct [OF parent_files_facts(1) [OF assms(1)]])
    show "ValidateCommitFilePath p" if "p \<in> fst ` set ?t" for p
    proof -
      from that new_tree_keys [of "parent_files inp db" inp]
      have "p \<in> fst ` set (parent_files inp db) \<or> p \<in> set (map fst (ciInline inp) @ map fst (ciLFS inp))" by (simp add: subset_eq) blast
      then show ?thesis using parent_files_facts(2) [OF assms(1), of p inp] chk unfolding list_all_iff by (elim disjE) simp_all
    qed
  qed (use chk parent_known [OF assms(1)] in auto)
qed

lemma CommitTx_new_tree:
  assumes "reg_ok db" "CommitTx env inp db = (Inr r, db')"
  shows "tree_of db' (ciRepo inp) (crSHA r) =
    apply_commit inp (case branch_head db (ciRepo inp) (crBranch r) of None \<Rightarrow> Map.empty | Some sha \<Rightarrow> tree_of db (ciRepo inp) sha)"
proof -
  let ?t = "new_tree (parent_files inp db) inp"
  note ok = CommitTx_ok [OF assms(2)]
  note chk = commit_error_None [OF ok(5)]
  have nof: "\<forall>f \<in> set (files db). frCommit f \<noteq> ceId env" using chk assms(1) by (force simp: reg_ok_def)
  have "tree_of db' (ciRepo inp) (crSHA r) = map_option (\<lambda>f. (fvOID f, fvLFS f)) \<circ> map_of (files_of (ceId env) db')"
    using chk by (simp add: tree_of_def ok(1) commit_at_rows)
  also have "\<dots> = map_option (\<lambda>f. (fvOID f, fvLFS f)) \<circ> map_of ?t" unfolding ok(1) using chk nof by (blast intro: files_of_rows_new)
  also have "\<dots> = apply_commit inp (if parent_of inp db = [] then Map.empty else tree_of db (ciRepo inp) (parent_of inp db))"
    unfolding new_tree_map parent_tree ..
  also have "(if parent_of inp db = [] then Map.empty else tree_of db (ciRepo inp) (parent_of inp db)) =
      (case branch_head db (ciRepo inp) (crBranch r) of None \<Rightarrow> Map.empty | Some sha \<Rightarrow> tree_of db (ciRepo inp) sha)"
  proof (cases "branch_head db (ciRepo inp) (crBranch r)")
    case None
    then show ?thesis by (simp add: parent_of_def ok(3))
  next
    case (Some sha)
    then obtain c where "commit_at (ciRepo inp) sha db = Some c"
      using assms(1) by (auto simp: branch_head_def reg_ok_def dest!: first_row_Some)
    then have "length sha = 40" using assms(1) commit_at_mem by (fastforce simp: reg_ok_def)
    with Some show ?thesis by (auto simp: parent_of_def ok(3))
  qed
  finally show ?thesis .
qed

lemma CommitTx_old_tree:
  assumes "CommitTx env inp db = (Inr r, db')" "commit_at repo sha db \<noteq> None"
  shows "commit_at repo sha db' = commit_at repo sha db" "tree_of db' repo sha = tree_of db repo sha"
proof -
  note ok = CommitTx_ok [OF assms(1)]
  note chk = commit_error_None [OF ok(5)]
  obtain x where x: "commit_at repo sha db = Some x" using assms(2) by blast
  then have "cmId x \<noteq> ceId env" using chk commit_at_mem [OF x] by force
  moreover show "commit_at repo sha db' = commit_at repo sha db" unfolding ok(1) using chk assms(2) by (simp add: commit_at_mono)
  ultimately show "tree_of db' repo sha = tree_of db repo sha" using x ok(1) by (simp add: tree_of_def files_of_rows_old)
qed

lemma CommitTx_branches:
  assumes "CommitTx env inp db = (Inr r, db')"
  shows "branch_head db' repo n = (if repo = ciRepo inp \<and> n = crBranch r then Some (crSHA r) else branch_head db repo n)"
  using CommitTx_ok(1,3) [OF assms] by (simp add: branch_head_rows)

text \<open>C8: a commit refines its abstract meaning. On a well-formed registry, \<open>CommitTx\<close> either reports an error and changes nothing, or the branch then
  points to a new commit whose tree is the tree of the old head with the given deletions, inline files and pointers applied; every older commit keeps its
  tree, every other branch its head, and the registry stays well-formed: every file refers to a stored blob, every branch and parent to a commit.\<close>

theorem CommitTx_refines:
  assumes "reg_ok db" "CommitTx env inp db = (res, db')"
  shows "(case res of
      Inl e \<Rightarrow> db' = db
    | Inr r \<Rightarrow>
        branch_head db' (ciRepo inp) (crBranch r) = Some (crSHA r) \<and> commit_at (ciRepo inp) (crSHA r) db = None \<and>
        tree_of db' (ciRepo inp) (crSHA r) = apply_commit inp (case branch_head db (ciRepo inp) (crBranch r) of None \<Rightarrow> Map.empty | Some sha \<Rightarrow> tree_of db (ciRepo inp) sha) \<and>
        (\<forall>repo sha. commit_at repo sha db = None \<or> tree_of db' repo sha = tree_of db repo sha) \<and>
        (\<forall>repo n. repo = ciRepo inp \<and> n = crBranch r \<or> branch_head db' repo n = branch_head db repo n)) \<and>
    reg_ok db'"
proof (cases res)
  case (Inl e)
  with assms CommitTx_error show ?thesis by fastforce
next
  case (Inr r)
  note tx = assms(2) [unfolded Inr]
  have "commit_at (ciRepo inp) (crSHA r) db = None" using commit_error_None [OF CommitTx_ok(5) [OF tx]] by blast
  moreover have "commit_at repo sha db = None \<or> tree_of db' repo sha = tree_of db repo sha" for repo sha
    using CommitTx_old_tree(2) [OF tx] by blast
  ultimately show ?thesis unfolding Inr sum.case
    by (simp add: CommitTx_new_tree [OF assms(1) tx] CommitTx_branches [OF tx] CommitTx_keeps [OF assms])
qed

definition calm_tx :: "string \<Rightarrow> cenv" where
  "calm_tx i = \<lparr>ceFail = (\<lambda>_. None), ceId = i, ceNow = 0, ceNonce = ''n''\<rparr>"

definition demo_oid :: string where
  "demo_oid = replicate 64 CHR ''a''"

definition demo_reg :: regdb where
  "demo_reg = empty_reg\<lparr>repos := [\<lparr>rpId = ''r'', rpTenant = ''t'', rpType = ''models'', rpNs = ''o'', rpName = ''m'', rpPrivate = False, rpDeleted = False\<rparr>],
     blobs := [\<lparr>blOID = demo_oid, blSize = 3, blURL = ''u'', blRef = 0\<rparr>]\<rparr>"

definition demo_commit :: CommitInput where
  "demo_commit = \<lparr>ciRepo = ''r'', ciBranch = [], ciSummary = ''first'', ciDesc = [], ciInline = [(''a.txt'', demo_oid, 3)], ciLFS = [(''b.bin'', demo_oid, 3)],
     ciDeletes = []\<rparr>"

theorem CommitTx_refines_witness:
  "\<exists>r db'. CommitTx (calm_tx ''c'') demo_commit demo_reg = (Inr r, db') \<and> branch_head db' ''r'' ''main'' = Some (crSHA r) \<and>
     tree_of db' ''r'' (crSHA r) ''b.bin'' = Some (demo_oid, True) \<and> reg_ok db'"
proof -
  have paths: "ValidateCommitFilePath ''a.txt''" "ValidateCommitFilePath ''b.bin''" "branch_name_ok ''main''" by code_simp+
  obtain r db' where c: "CommitTx (calm_tx ''c'') demo_commit demo_reg = (Inr r, db')" "crBranch r = ''main''"
    by (simp add: CommitTx_def demo_commit_def demo_reg_def empty_reg_def calm_tx_def commit_error_def fails_def paths new_tree_def check_blobs_def
      first_row_def commit_at_def Let_def)
  have ok: "reg_ok demo_reg"
    by (simp add: reg_ok_def demo_reg_def empty_reg_def)
  have "apply_commit demo_commit Map.empty ''b.bin'' = Some (demo_oid, True)" "branch_head demo_reg ''r'' ''main'' = None" "ciRepo demo_commit = ''r''"
    by (simp_all add: apply_commit_def demo_commit_def branch_head_def demo_reg_def empty_reg_def first_row_def)
  with CommitTx_refines [OF ok c(1)] c show ?thesis by auto
qed

end
