(* ===== verification/Blob_Store.thy ===== *)
theory Blob_Store
  imports Sha256
begin

text \<open>
  The content-addressed object store of \<open>internal/blobstore/local.go\<close>: bodies are streamed into a temporary file, hashed on the
  way, checked against what was declared, and renamed to the path of their hash. Files are maps from names to contents; every
  system call may fail (\<open>benv\<close>); a body is the list of chunks its reader delivers and the error it ends with, if any. \<open>Put\<close> is given
  twice: as the function the code is, and cut into the steps between which other threads may run and at any of which the
  process may stop. The interface that the registry relies on is the locale \<open>blob_store\<close>.
\<close>

datatype blob_err = BlobNotFound | ErrOIDMismatch | ErrSizeMismatch | BlobCanceled | BlobIO

record blob_stat =
  bsOID :: string
  bsSize :: int
  bsURL :: string

record LocalStore =
  root :: string
  tmpDir :: "nat \<rightharpoonup> string"
  blobDir :: "string \<rightharpoonup> string"        \<comment> \<open>by object id\<close>

record benv =
  bCreate :: bool
  bWrite :: "nat \<Rightarrow> bool"             \<comment> \<open>the write of this chunk fails\<close>
  bClose :: bool
  bStat :: bool                     \<comment> \<open>the first \<open>Stat\<close> reports an error for a file that exists\<close>
  bMkdir :: bool
  bRename :: bool
  bStatAgain :: bool
  bOpen :: bool
  bRemove :: bool

definition oid_of :: "string \<Rightarrow> string" where
  "oid_of b = hex_encode (Sum256 b)"

definition validOID :: "string \<Rightarrow> bool" where
  "validOID s \<longleftrightarrow> length s = 64 \<and> list_all is_hex s"

definition blob_path :: "LocalStore \<Rightarrow> string \<Rightarrow> string" where
  "blob_path s oid = root s @ ''/blobs/'' @ take 2 oid @ ''/'' @ oid"

definition storageURL :: "LocalStore \<Rightarrow> string \<Rightarrow> string" where
  "storageURL s oid = ''file://'' @ blob_path s oid"

definition NewLocal :: "string \<Rightarrow> LocalStore option" where
  "NewLocal r = (if r = [] then None else Some \<lparr>root = r, tmpDir = Map.empty, blobDir = Map.empty\<rparr>)"

subsection \<open>Storing\<close>

fun copy_loop :: "benv \<Rightarrow> nat \<Rightarrow> nat \<Rightarrow> string \<Rightarrow> string list \<Rightarrow> LocalStore \<Rightarrow> (blob_err + string) \<times> LocalStore" where
  \<comment> \<open>\<open>io.Copy\<close> into the temporary file \<open>n\<close> and the hash\<close>
  "copy_loop env n i acc [] s = (Inr acc, s)"
| "copy_loop env n i acc (c # cs) s =
     (if bWrite env i then (Inl BlobIO, s)
      else copy_loop env n (Suc i) (acc @ c) cs (s\<lparr>tmpDir := (tmpDir s)(n \<mapsto> acc @ c)\<rparr>))"

definition drop_tmp :: "nat \<Rightarrow> LocalStore \<Rightarrow> LocalStore" where
  "drop_tmp n s = s\<lparr>tmpDir := (tmpDir s)(n := None)\<rparr>"

definition stat_of :: "LocalStore \<Rightarrow> string \<Rightarrow> blob_stat" where
  "stat_of s b = \<lparr>bsOID = oid_of b, bsSize = int (length b), bsURL = storageURL s (oid_of b)\<rparr>"

definition checked :: "string \<Rightarrow> int \<Rightarrow> string \<Rightarrow> blob_err option" where
  "checked eoid esize b =
     (if esize > 0 \<and> int (length b) \<noteq> esize then Some ErrSizeMismatch
      else if eoid \<noteq> [] \<and> oid_of b \<noteq> eoid then Some ErrOIDMismatch else None)"

definition install :: "benv \<Rightarrow> nat \<Rightarrow> string \<Rightarrow> LocalStore \<Rightarrow> (blob_err + blob_stat) \<times> LocalStore" where
  \<comment> \<open>from the \<open>MkdirAll\<close> of the fan-out directory on\<close>
  "install env n b s =
     (if bMkdir env then (Inl BlobIO, drop_tmp n s)
      else if bRename env then
        (if blobDir s (oid_of b) \<noteq> None \<and> \<not> bStatAgain env then (Inr (stat_of s b), drop_tmp n s) else (Inl BlobIO, drop_tmp n s))
      else (Inr (stat_of s b), (drop_tmp n s)\<lparr>blobDir := (blobDir s)(oid_of b := tmpDir s n)\<rparr>))"

definition finish_put ::
  "benv \<Rightarrow> nat \<Rightarrow> blob_err option \<Rightarrow> string \<Rightarrow> int \<Rightarrow> string \<Rightarrow> LocalStore \<Rightarrow> (blob_err + blob_stat) \<times> LocalStore" where
  \<comment> \<open>once the body has been read: \<open>rerr\<close> is the error of \<open>io.Copy\<close>\<close>
  "finish_put env n rerr eoid esize b s =
     (case rerr of
        Some e \<Rightarrow> (Inl e, drop_tmp n s)
      | None \<Rightarrow>
          if bClose env then (Inl BlobIO, drop_tmp n s)
          else (case checked eoid esize b of
                  Some e \<Rightarrow> (Inl e, drop_tmp n s)
                | None \<Rightarrow>
                    if blobDir s (oid_of b) \<noteq> None \<and> \<not> bStat env then (Inr (stat_of s b), drop_tmp n s)
                    else install env n b s))"

definition Put ::
  "benv \<Rightarrow> nat \<Rightarrow> string list \<Rightarrow> blob_err option \<Rightarrow> string \<Rightarrow> int \<Rightarrow> LocalStore \<Rightarrow> (blob_err + blob_stat) \<times> LocalStore" where
  "Put env n chunks rerr eoid esize s =
     (if eoid \<noteq> [] \<and> \<not> validOID eoid then (Inl ErrOIDMismatch, s)
      else if bCreate env then (Inl BlobIO, s)
      else case copy_loop env n 0 [] chunks (s\<lparr>tmpDir := (tmpDir s)(n \<mapsto> [])\<rparr>) of
        (Inl e, s1) \<Rightarrow> (Inl e, drop_tmp n s1)
      | (Inr b, s1) \<Rightarrow> finish_put env n rerr eoid esize b s1)"

subsection \<open>Reading and deleting\<close>

definition Open :: "benv \<Rightarrow> string \<Rightarrow> LocalStore \<Rightarrow> blob_err + string \<times> blob_stat" where
  "Open env oid s =
     (if \<not> validOID oid then Inl BlobNotFound
      else case blobDir s oid of
        None \<Rightarrow> Inl BlobNotFound
      | Some b \<Rightarrow> if bOpen env \<or> bStat env then Inl BlobIO
                  else Inr (b, \<lparr>bsOID = oid, bsSize = int (length b), bsURL = storageURL s oid\<rparr>))"

definition StatBlob :: "benv \<Rightarrow> string \<Rightarrow> LocalStore \<Rightarrow> blob_err + blob_stat" where
  "StatBlob env oid s =
     (if \<not> validOID oid then Inl BlobNotFound
      else case blobDir s oid of
        None \<Rightarrow> Inl BlobNotFound
      | Some b \<Rightarrow> if bStat env then Inl BlobIO else Inr \<lparr>bsOID = oid, bsSize = int (length b), bsURL = storageURL s oid\<rparr>)"

definition DeleteBlob :: "benv \<Rightarrow> string \<Rightarrow> LocalStore \<Rightarrow> blob_err option \<times> LocalStore" where
  "DeleteBlob env oid s =
     (if \<not> validOID oid then (None, s)
      else if blobDir s oid \<noteq> None \<and> bRemove env then (Some BlobIO, s)
      else (None, s\<lparr>blobDir := (blobDir s)(oid := None)\<rparr>))"

subsection \<open>The interface\<close>

definition addressed :: "LocalStore \<Rightarrow> bool" where
  \<comment> \<open>every object is stored under its own hash\<close>
  "addressed s \<longleftrightarrow> (\<forall>oid b. blobDir s oid = Some b \<longrightarrow> oid_of b = oid)"

definition holds :: "LocalStore \<Rightarrow> string \<Rightarrow> string option" where
  "holds s oid = blobDir s oid"

locale blob_store =
  fixes good :: "'s \<Rightarrow> bool"
    and content :: "'s \<Rightarrow> string \<Rightarrow> string option"
    and put :: "'e \<Rightarrow> nat \<Rightarrow> string list \<Rightarrow> blob_err option \<Rightarrow> string \<Rightarrow> int \<Rightarrow> 's \<Rightarrow> (blob_err + blob_stat) \<times> 's"
  assumes content_hash: "good s \<Longrightarrow> content s oid = Some b \<Longrightarrow> oid_of b = oid"
    and put_good: "good s \<Longrightarrow> good (snd (put e n cs r eo es s))"
    and put_keeps: "good s \<Longrightarrow> content s oid = Some b \<Longrightarrow> \<exists>b'. content (snd (put e n cs r eo es s)) oid = Some b'"
    and put_stored: "good s \<Longrightarrow> put e n cs r eo es s = (Inr st, s') \<Longrightarrow>
      r = None \<and> bsOID st = oid_of (concat cs) \<and> bsSize st = int (length (concat cs)) \<and> content s' (bsOID st) \<noteq> None"
begin

lemma put_verified:
  \<comment> \<open>what is stored under the reported id has the hash of the body that was sent\<close>
  assumes "good s" "put e n cs r eo es s = (Inr st, s')"
  shows "\<exists>b. content s' (bsOID st) = Some b \<and> oid_of b = oid_of (concat cs)"
proof -
  from put_stored [OF assms] obtain b where b: "content s' (bsOID st) = Some b" "bsOID st = oid_of (concat cs)" by auto
  moreover have "good s'" using put_good [OF assms(1), of e n cs r eo es] assms(2) by simp
  ultimately show ?thesis using content_hash by fastforce
qed

end

lemma copy_loop_result:
  "copy_loop env n i acc cs s = (Inr b, s') \<Longrightarrow> tmpDir s n = Some acc \<Longrightarrow> b = acc @ concat cs \<and> tmpDir s' n = Some b"
  by (induction cs arbitrary: i acc s) (fastforce split: if_splits)+

lemma copy_loop_frame: "copy_loop env n i acc cs s = (r, s') \<Longrightarrow> blobDir s' = blobDir s \<and> root s' = root s"
  by (induction cs arbitrary: i acc s) (auto split: if_splits)

lemma drop_tmp_frame [simp]: "blobDir (drop_tmp n s) = blobDir s" "root (drop_tmp n s) = root s"
  by (simp_all add: drop_tmp_def)

lemma Put_cases:
  assumes "Put env n cs r eoid esize s = (res, s')"
  shows "(\<exists>e. res = Inl e \<and> blobDir s' = blobDir s) \<or>
    (r = None \<and> checked eoid esize (concat cs) = None \<and> res = Inr (stat_of s (concat cs)) \<and>
     (blobDir s (oid_of (concat cs)) \<noteq> None \<and> blobDir s' = blobDir s \<or> blobDir s' = (blobDir s)(oid_of (concat cs) \<mapsto> concat cs)))"
proof -
  obtain c s1 where c: "copy_loop env n 0 [] cs (s\<lparr>tmpDir := (tmpDir s)(n \<mapsto> [])\<rparr>) = (c, s1)" by fastforce
  then have s1: "blobDir s1 = blobDir s" "root s1 = root s" using copy_loop_frame [OF c] by auto
  show ?thesis
  proof (cases c)
    case (Inl e)
    with assms c s1 show ?thesis by (auto simp: Put_def split: if_splits)
  next
    case (Inr b)
    with c have b: "b = concat cs" "tmpDir s1 n = Some b" using copy_loop_result [of env n 0 "[]" cs _ b s1] by auto
    have st: "stat_of s1 b = stat_of s (concat cs)" by (simp add: stat_of_def storageURL_def blob_path_def s1 b)
    show ?thesis
    proof (cases "(eoid \<noteq> [] \<and> \<not> validOID eoid) \<or> bCreate env \<or> r \<noteq> None \<or> bClose env \<or> checked eoid esize b \<noteq> None")
      case True
      with Inr assms c s1 show ?thesis by (auto simp: Put_def finish_put_def split: if_splits option.splits)
    next
      case False
      then have "Put env n cs r eoid esize s =
          (if blobDir s1 (oid_of b) \<noteq> None \<and> \<not> bStat env then (Inr (stat_of s1 b), drop_tmp n s1) else install env n b s1)"
        using Inr c by (auto simp: Put_def finish_put_def)
      with assms False s1 b st show ?thesis by (auto simp: install_def split: if_splits)
    qed
  qed
qed

lemma Put_addressed: "addressed s \<Longrightarrow> addressed (snd (Put env n cs r eoid esize s))"
  using Put_cases [of env n cs r eoid esize s "fst (Put env n cs r eoid esize s)" "snd (Put env n cs r eoid esize s)"]
  by (auto simp: addressed_def split: if_splits)

interpretation lbs: blob_store addressed holds Put
proof unfold_locales
  show "oid_of b = oid" if "addressed s" "holds s oid = Some b" for s oid b
    using that by (simp add: addressed_def holds_def)
  show "addressed (snd (Put e n cs r eo es s))" if "addressed s" for e n cs r eo es s
    using that by (rule Put_addressed)
  show "\<exists>b'. holds (snd (Put e n cs r eo es s)) oid = Some b'" if "addressed s" "holds s oid = Some b" for e n cs r eo es s oid b
    using that(2) Put_cases [of e n cs r eo es s "fst (Put e n cs r eo es s)" "snd (Put e n cs r eo es s)"]
    by (auto simp: holds_def)
  show "r = None \<and> bsOID st = oid_of (concat cs) \<and> bsSize st = int (length (concat cs)) \<and> holds s' (bsOID st) \<noteq> None"
    if "addressed s" "Put e n cs r eo es s = (Inr st, s')" for e n cs r eo es s st s'
    using Put_cases [OF that(2)] by (auto simp: holds_def stat_of_def)
qed

subsection \<open>Many writers at once\<close>

datatype put_phase =
    Creating | Copying nat string "string list" | Closing string | Checking string | Looking string
  | MakingDir string | Renaming string | LookingAgain string | Finished "blob_err + blob_stat"

record put_job =
  jTmp :: nat                    \<comment> \<open>the name \<open>os.CreateTemp\<close> picks\<close>
  jEnv :: benv
  jBody :: "string list"         \<comment> \<open>what the reader delivers\<close>
  jErr :: "blob_err option"      \<comment> \<open>how the body ends\<close>
  jOID :: string
  jSize :: int
  jPhase :: put_phase

definition put_step :: "put_job \<Rightarrow> LocalStore \<Rightarrow> put_phase \<times> LocalStore" where
  \<comment> \<open>what a call of \<open>Put\<close> does up to its next system call\<close>
  "put_step j s =
     (let n = jTmp j; env = jEnv j
      in case jPhase j of
        Creating \<Rightarrow>
          if jOID j \<noteq> [] \<and> \<not> validOID (jOID j) then (Finished (Inl ErrOIDMismatch), s)
          else if bCreate env then (Finished (Inl BlobIO), s)
          else (Copying 0 [] (jBody j), s\<lparr>tmpDir := (tmpDir s)(n \<mapsto> [])\<rparr>)
      | Copying i acc (c # cs) \<Rightarrow>
          if bWrite env i then (Finished (Inl BlobIO), drop_tmp n s)
          else (Copying (Suc i) (acc @ c) cs, s\<lparr>tmpDir := (tmpDir s)(n \<mapsto> acc @ c)\<rparr>)
      | Copying i acc [] \<Rightarrow> (case jErr j of Some e \<Rightarrow> (Finished (Inl e), drop_tmp n s) | None \<Rightarrow> (Closing acc, s))
      | Closing b \<Rightarrow> if bClose env then (Finished (Inl BlobIO), drop_tmp n s) else (Checking b, s)
      | Checking b \<Rightarrow> (case checked (jOID j) (jSize j) b of Some e \<Rightarrow> (Finished (Inl e), drop_tmp n s) | None \<Rightarrow> (Looking b, s))
      | Looking b \<Rightarrow>
          if blobDir s (oid_of b) \<noteq> None \<and> \<not> bStat env then (Finished (Inr (stat_of s b)), drop_tmp n s) else (MakingDir b, s)
      | MakingDir b \<Rightarrow> if bMkdir env then (Finished (Inl BlobIO), drop_tmp n s) else (Renaming b, s)
      | Renaming b \<Rightarrow>
          if bRename env then (LookingAgain b, s)
          else (Finished (Inr (stat_of s b)), (drop_tmp n s)\<lparr>blobDir := (blobDir s)(oid_of b := tmpDir s n)\<rparr>)
      | LookingAgain b \<Rightarrow>
          if blobDir s (oid_of b) \<noteq> None \<and> \<not> bStatAgain env then (Finished (Inr (stat_of s b)), drop_tmp n s)
          else (Finished (Inl BlobIO), drop_tmp n s)
      | Finished r \<Rightarrow> (Finished r, s))"

inductive put_run :: "put_job \<times> LocalStore \<Rightarrow> put_job \<times> LocalStore \<Rightarrow> bool" where
  pr_refl: "put_run p p"
| pr_step: "put_step j s = (ph, s1) \<Longrightarrow> put_run (j\<lparr>jPhase := ph\<rparr>, s1) q \<Longrightarrow> put_run (j, s) q"

lemma put_run_copy:
  assumes "jPhase j = Copying i acc cs" "copy_loop (jEnv j) (jTmp j) i acc cs s = (r, s')"
  shows "case r of Inl e \<Rightarrow> put_run (j, s) (j\<lparr>jPhase := Finished (Inl e)\<rparr>, drop_tmp (jTmp j) s')
    | Inr b \<Rightarrow> \<exists>k. put_run (j, s) (j\<lparr>jPhase := Copying k b []\<rparr>, s')"
  using assms
proof (induction cs arbitrary: i acc s j)
  case Nil
  have "j\<lparr>jPhase := jPhase j\<rparr> = j" by simp
  with Nil have eq: "j\<lparr>jPhase := Copying i acc []\<rparr> = j" by metis
  from Nil show ?case using pr_refl [of "(j, s)"] by (auto intro!: exI [of _ i] simp: eq)
next
  case (Cons c cs)
  show ?case
  proof (cases "bWrite (jEnv j) i")
    case True
    have "put_run (j, s) (j\<lparr>jPhase := Finished (Inl BlobIO)\<rparr>, drop_tmp (jTmp j) s)"
      by (rule pr_step [OF _ pr_refl]) (use Cons True in \<open>simp add: put_step_def\<close>)
    with Cons.prems True show ?thesis by auto
  next
    case False
    let ?j = "j\<lparr>jPhase := Copying (Suc i) (acc @ c) cs\<rparr>" and ?s = "s\<lparr>tmpDir := (tmpDir s)(jTmp j \<mapsto> acc @ c)\<rparr>"
    have st: "put_step j s = (Copying (Suc i) (acc @ c) cs, ?s)" using Cons.prems False by (simp add: put_step_def)
    have "copy_loop (jEnv ?j) (jTmp ?j) (Suc i) (acc @ c) cs ?s = (r, s')" using Cons.prems False by simp
    from Cons.IH [OF _ this] show ?thesis by (auto split: sum.splits intro: pr_step [OF st])
  qed
qed

lemma put_run_trans: "put_run p q \<Longrightarrow> put_run q r \<Longrightarrow> put_run p r"
  by (induction rule: put_run.induct) (auto intro: pr_step)

lemma put_run_install:
  "jPhase j = MakingDir b \<Longrightarrow> put_run (j, s) (j\<lparr>jPhase := Finished (fst (install (jEnv j) (jTmp j) b s))\<rparr>, snd (install (jEnv j) (jTmp j) b s))"
proof -
  assume j: "jPhase j = MakingDir b"
  have r: "put_run (j\<lparr>jPhase := Renaming b\<rparr>, s) (j\<lparr>jPhase := Finished (fst (install (jEnv j) (jTmp j) b s))\<rparr>, snd (install (jEnv j) (jTmp j) b s))"
    if "\<not> bMkdir (jEnv j)"
  proof (cases "bRename (jEnv j)")
    case True
    have "put_run (j\<lparr>jPhase := LookingAgain b\<rparr>, s) (j\<lparr>jPhase := Finished (fst (install (jEnv j) (jTmp j) b s))\<rparr>, snd (install (jEnv j) (jTmp j) b s))"
      by (rule pr_step [OF surjective_pairing]) (use that True pr_refl in \<open>auto simp: put_step_def install_def Let_def\<close>)
    then show ?thesis using that True by - (rule pr_step [of "j\<lparr>jPhase := Renaming b\<rparr>" s "LookingAgain b" s], simp_all add: put_step_def)
  next
    case False
    then show ?thesis using that pr_refl by - (rule pr_step [OF surjective_pairing], auto simp: put_step_def install_def Let_def)
  qed
  show ?thesis
  proof (cases "bMkdir (jEnv j)")
    case True
    then show ?thesis using j pr_refl by - (rule pr_step [OF surjective_pairing], auto simp: put_step_def install_def Let_def)
  next
    case False
    with j have "put_step j s = (Renaming b, s)" by (simp add: put_step_def)
    from pr_step [OF this r [OF False]] show ?thesis .
  qed
qed

lemma put_run_finish:
  assumes "jPhase j = Copying k b []"
  shows "put_run (j, s) (j\<lparr>jPhase := Finished (fst (finish_put (jEnv j) (jTmp j) (jErr j) (jOID j) (jSize j) b s))\<rparr>,
    snd (finish_put (jEnv j) (jTmp j) (jErr j) (jOID j) (jSize j) b s))" (is "put_run _ ?fin")
proof -
  have one: "put_run (j\<lparr>jPhase := p\<rparr>, s) ?fin" if "put_step (j\<lparr>jPhase := p\<rparr>) s = (Finished r, s')" "?fin = (j\<lparr>jPhase := Finished r\<rparr>, s')" for p r s'
    using pr_step [OF that(1) pr_refl] that(2) by simp
  have more: "put_run (j\<lparr>jPhase := p\<rparr>, s) ?fin" if "put_step (j\<lparr>jPhase := p\<rparr>) s = (q, s)" "put_run (j\<lparr>jPhase := q\<rparr>, s) ?fin" for p q
    using pr_step [OF that(1), of ?fin] that(2) by simp
  have "j\<lparr>jPhase := jPhase j\<rparr> = j" by simp
  with assms have j: "j\<lparr>jPhase := Copying k b []\<rparr> = j" by metis
  have look: "put_run (j\<lparr>jPhase := Looking b\<rparr>, s) ?fin" if "jErr j = None" "\<not> bClose (jEnv j)" "checked (jOID j) (jSize j) b = None"
  proof (cases "blobDir s (oid_of b) \<noteq> None \<and> \<not> bStat (jEnv j)")
    case True
    show ?thesis by (rule one) (use that True in \<open>auto simp: put_step_def finish_put_def\<close>)
  next
    case False
    show ?thesis using that False put_run_install [of "j\<lparr>jPhase := MakingDir b\<rparr>" b s]
      by - (rule more [of _ "MakingDir b"], auto simp: put_step_def finish_put_def)
  qed
  have chk: "put_run (j\<lparr>jPhase := Checking b\<rparr>, s) ?fin" if "jErr j = None" "\<not> bClose (jEnv j)"
  proof (cases "checked (jOID j) (jSize j) b")
    case None
    from look [OF that None] None show ?thesis by - (rule more [of _ "Looking b"], auto simp: put_step_def)
  next
    case (Some e)
    show ?thesis by (rule one) (use that Some in \<open>auto simp: put_step_def finish_put_def\<close>)
  qed
  have cls: "put_run (j\<lparr>jPhase := Closing b\<rparr>, s) ?fin" if "jErr j = None"
  proof (cases "bClose (jEnv j)")
    case True
    show ?thesis by (rule one) (use that True in \<open>auto simp: put_step_def finish_put_def\<close>)
  next
    case False
    from chk [OF that False] False show ?thesis by - (rule more [of _ "Checking b"], auto simp: put_step_def)
  qed
  have "put_run (j\<lparr>jPhase := Copying k b []\<rparr>, s) ?fin"
  proof (cases "jErr j")
    case None
    from cls [OF None] None show ?thesis by - (rule more [of _ "Closing b"], auto simp: put_step_def)
  next
    case (Some e)
    show ?thesis by (rule one) (use Some in \<open>auto simp: put_step_def finish_put_def\<close>)
  qed
  then show ?thesis by (simp add: j)
qed

lemma Put_run:
  assumes "jPhase j = Creating" "Put (jEnv j) (jTmp j) (jBody j) (jErr j) (jOID j) (jSize j) s = (res, s')"
  shows "put_run (j, s) (j\<lparr>jPhase := Finished res\<rparr>, s')"
proof (cases "jOID j \<noteq> [] \<and> \<not> validOID (jOID j) \<or> bCreate (jEnv j)")
  case True
  with assms have "put_step j s = (Finished res, s')" by (auto simp: put_step_def Put_def split: if_splits)
  from pr_step [OF this pr_refl] show ?thesis .
next
  case False
  let ?s = "s\<lparr>tmpDir := (tmpDir s)(jTmp j \<mapsto> [])\<rparr>" and ?j = "j\<lparr>jPhase := Copying 0 [] (jBody j)\<rparr>"
  have st: "put_step j s = (Copying 0 [] (jBody j), ?s)" using False assms(1) by (auto simp: put_step_def)
  obtain r s1 where c: "copy_loop (jEnv ?j) (jTmp ?j) 0 [] (jBody j) ?s = (r, s1)" by fastforce
  note run = put_run_copy [OF _ c]
  have "put_run (?j, ?s) (j\<lparr>jPhase := Finished res\<rparr>, s')"
  proof (cases r)
    case (Inl e)
    with run c assms(2) False show ?thesis by (auto simp: Put_def)
  next
    case (Inr b)
    with run obtain k where "put_run (?j, ?s) (?j\<lparr>jPhase := Copying k b []\<rparr>, s1)" by auto
    from put_run_trans [OF this put_run_finish [of "?j\<lparr>jPhase := Copying k b []\<rparr>" k b s1]] Inr c assms(2) False
    show ?thesis by (auto simp: Put_def)
  qed
  from pr_step [OF st this] show ?thesis .
qed

record blob_sys =
  jobs :: "put_job list"
  bstore :: LocalStore
  deleted :: "string set"         \<comment> \<open>ids that have ever been deleted\<close>

definition active :: "put_job \<Rightarrow> bool" where
  "active j \<longleftrightarrow> (\<forall>r. jPhase j \<noteq> Finished r)"

inductive blob_step :: "blob_sys \<Rightarrow> blob_sys \<Rightarrow> bool" where
  bl_start: "jPhase j = Creating \<Longrightarrow> \<forall>k \<in> set (jobs S). active k \<longrightarrow> jTmp k \<noteq> jTmp j \<Longrightarrow> blob_step S (S\<lparr>jobs := jobs S @ [j]\<rparr>)"
| bl_put: "i < length (jobs S) \<Longrightarrow> put_step (jobs S ! i) (bstore S) = (ph, s') \<Longrightarrow>
    blob_step S (S\<lparr>jobs := (jobs S)[i := (jobs S ! i)\<lparr>jPhase := ph\<rparr>], bstore := s'\<rparr>)"
| bl_delete: "DeleteBlob env oid (bstore S) = (e, s') \<Longrightarrow> blob_step S (S\<lparr>bstore := s', deleted := insert oid (deleted S)\<rparr>)"

definition blob_start :: "string \<Rightarrow> blob_sys" where
  "blob_start r = \<lparr>jobs = [], bstore = \<lparr>root = r, tmpDir = Map.empty, blobDir = Map.empty\<rparr>, deleted = {}\<rparr>"

fun phase_ok :: "string option \<Rightarrow> string \<Rightarrow> put_phase \<Rightarrow> bool" where
  \<comment> \<open>of the temporary file and the whole body: the file holds what has been read so far\<close>
  "phase_ok t b Creating = True"
| "phase_ok t b (Copying i acc cs) = (t = Some acc \<and> acc @ concat cs = b)"
| "phase_ok t b (Closing c) = (t = Some b \<and> c = b)"
| "phase_ok t b (Checking c) = (t = Some b \<and> c = b)"
| "phase_ok t b (Looking c) = (t = Some b \<and> c = b)"
| "phase_ok t b (MakingDir c) = (t = Some b \<and> c = b)"
| "phase_ok t b (Renaming c) = (t = Some b \<and> c = b)"
| "phase_ok t b (LookingAgain c) = (t = Some b \<and> c = b)"
| "phase_ok t b (Finished r) = (case r of Inl e \<Rightarrow> True | Inr st \<Rightarrow> bsOID st = oid_of b \<and> bsSize st = int (length b))"

definition job_ok :: "LocalStore \<Rightarrow> string set \<Rightarrow> put_job \<Rightarrow> bool" where
  "job_ok s gone j \<longleftrightarrow> phase_ok (tmpDir s (jTmp j)) (concat (jBody j)) (jPhase j) \<and>
     (\<forall>st. jPhase j = Finished (Inr st) \<longrightarrow> bsOID st \<in> gone \<or> blobDir s (bsOID st) \<noteq> None)"

definition blob_inv :: "blob_sys \<Rightarrow> bool" where
  "blob_inv S \<longleftrightarrow> addressed (bstore S) \<and> (\<forall>i < length (jobs S). job_ok (bstore S) (deleted S) (jobs S ! i)) \<and>
     (\<forall>i < length (jobs S). \<forall>k < length (jobs S). i \<noteq> k \<longrightarrow> active (jobs S ! i) \<longrightarrow> active (jobs S ! k) \<longrightarrow> jTmp (jobs S ! i) \<noteq> jTmp (jobs S ! k))"

lemma put_step_others:
  assumes "put_step j s = (ph, s')"
  shows "n \<noteq> jTmp j \<Longrightarrow> tmpDir s' n = tmpDir s n" "blobDir s oid \<noteq> None \<Longrightarrow> job_ok s gone j \<Longrightarrow> blobDir s' oid \<noteq> None"
    "\<not> active j \<Longrightarrow> s' = s \<and> ph = jPhase j"
  using assms
  by (auto simp: put_step_def job_ok_def active_def drop_tmp_def Let_def split: put_phase.splits list.splits option.splits if_splits sum.splits)

lemma put_step_own:
  assumes "put_step j s = (ph, s')" "job_ok s gone j" "addressed s"
  shows "job_ok s' gone (j\<lparr>jPhase := ph\<rparr>) \<and> addressed s'"
proof (cases "active j")
  case True
  then show ?thesis using assms
    by (auto simp: put_step_def job_ok_def addressed_def active_def Let_def stat_of_def
      split: put_phase.splits list.splits option.splits if_splits sum.splits)
next
  case False
  with put_step_others(3) [OF assms(1)] assms(2,3) show ?thesis by simp
qed

lemma job_ok_frame:
  assumes "job_ok s gone k" "active k \<Longrightarrow> tmpDir s' (jTmp k) = tmpDir s (jTmp k)" "gone \<subseteq> gone'"
    "\<And>oid. oid \<notin> gone' \<Longrightarrow> blobDir s oid \<noteq> None \<Longrightarrow> blobDir s' oid \<noteq> None"
  shows "job_ok s' gone' k"
proof (cases "active k")
  case True
  with assms(1,2) show ?thesis by (simp add: job_ok_def active_def)
next
  case False
  then obtain r where r: "jPhase k = Finished r" by (auto simp: active_def)
  with assms(1) have "phase_ok (tmpDir s' (jTmp k)) (concat (jBody k)) (jPhase k)" by (simp add: job_ok_def)
  moreover have "bsOID st \<in> gone' \<or> blobDir s' (bsOID st) \<noteq> None" if "r = Inr st" for st
    using assms(1,3) assms(4) [of "bsOID st"] r that by (cases "bsOID st \<in> gone'") (auto simp: job_ok_def)
  ultimately show ?thesis using r by (auto simp: job_ok_def)
qed

lemma blob_inv_put:
  assumes inv: "blob_inv S" and i: "i < length (jobs S)" and st: "put_step (jobs S ! i) (bstore S) = (ph, s')"
  shows "blob_inv (S\<lparr>jobs := (jobs S)[i := (jobs S ! i)\<lparr>jPhase := ph\<rparr>], bstore := s'\<rparr>)"
proof -
  let ?j = "jobs S ! i"
  have ok: "job_ok (bstore S) (deleted S) ?j" "addressed (bstore S)" using inv i by (auto simp: blob_inv_def)
  have own: "job_ok s' (deleted S) (?j\<lparr>jPhase := ph\<rparr>)" "addressed s'" using put_step_own [OF st ok] by auto
  have act: "active (?j\<lparr>jPhase := ph\<rparr>) \<Longrightarrow> active ?j" using put_step_others(3) [OF st] by (auto simp: active_def)
  have "job_ok s' (deleted S) ((jobs S)[i := ?j\<lparr>jPhase := ph\<rparr>] ! k)" if k: "k < length (jobs S)" for k
  proof (cases "k = i")
    case False
    have "job_ok s' (deleted S) (jobs S ! k)"
    proof (rule job_ok_frame [where s = "bstore S" and gone = "deleted S"])
      show "job_ok (bstore S) (deleted S) (jobs S ! k)" using inv k by (simp add: blob_inv_def)
      show "tmpDir s' (jTmp (jobs S ! k)) = tmpDir (bstore S) (jTmp (jobs S ! k))" if "active (jobs S ! k)"
        using inv i k that False put_step_others(1) [OF st, of "jTmp (jobs S ! k)"] put_step_others(3) [OF st]
        unfolding blob_inv_def by metis
    qed (use put_step_others(2) [OF st _ ok(1)] in auto)
    with False show ?thesis by simp
  qed (use own(1) i in simp)
  moreover have "jTmp ((jobs S)[i := ?j\<lparr>jPhase := ph\<rparr>] ! k) = jTmp (jobs S ! k)" for k
    by (cases "k = i") (auto simp: nth_list_update i)
  moreover have "active ((jobs S)[i := ?j\<lparr>jPhase := ph\<rparr>] ! k) \<Longrightarrow> active (jobs S ! k)" for k
    using act i by (cases "k = i") auto
  ultimately show ?thesis using inv own(2) unfolding blob_inv_def by auto
qed

lemma blob_inv_step: "blob_step S T \<Longrightarrow> blob_inv S \<Longrightarrow> blob_inv T"
proof (induction rule: blob_step.induct)
  case (bl_start j S)
  then have "\<forall>i < length (jobs S). active (jobs S ! i) \<longrightarrow> jTmp (jobs S ! i) \<noteq> jTmp j" by (auto simp: all_set_conv_all_nth)
  moreover have "job_ok (bstore S) (deleted S) j" using bl_start by (simp add: job_ok_def)
  ultimately show ?case using bl_start(3) by (auto simp: blob_inv_def nth_append less_Suc_eq)
next
  case (bl_put i S ph s')
  then show ?case by (intro blob_inv_put)
next
  case (bl_delete env oid S e s')
  then have s': "tmpDir s' = tmpDir (bstore S)" "blobDir s' = blobDir (bstore S) \<or> blobDir s' = (blobDir (bstore S))(oid := None)"
    by (auto simp: DeleteBlob_def split: if_splits)
  have "job_ok s' (insert oid (deleted S)) j" if "job_ok (bstore S) (deleted S) j" for j
    using s' by (intro job_ok_frame [OF that]) auto
  moreover have "addressed s'" using s' bl_delete(2) by (auto simp: blob_inv_def addressed_def split: if_splits)
  ultimately show ?case using bl_delete(2) by (simp add: blob_inv_def)
qed

lemma blob_inv_reach: "blob_step\<^sup>*\<^sup>* (blob_start r) S \<Longrightarrow> blob_inv S"
proof (induction rule: rtranclp_induct)
  case base
  show ?case by (simp add: blob_inv_def blob_start_def addressed_def)
qed (rule blob_inv_step)

text \<open>C9: uploads are atomic and verified. Any number of calls of \<open>Put\<close>, stopped at any of their system calls and interleaved in any way
  with each other and with deletions, starting from an empty store: every object that can be seen is complete and is stored under its own SHA-256;
  and a call that has reported success has reported hash and size of the whole body it was given, and under that id there is an object with that hash,
  unless it has been deleted.\<close>

theorem blobs_atomic:
  assumes "blob_step\<^sup>*\<^sup>* (blob_start r) S"
  shows "(blobDir (bstore S) oid = Some b \<longrightarrow> oid_of b = oid) \<and>
    (j \<in> set (jobs S) \<and> jPhase j = Finished (Inr st) \<longrightarrow>
       bsOID st = oid_of (concat (jBody j)) \<and> bsSize st = int (length (concat (jBody j))) \<and>
       (bsOID st \<in> deleted S \<or> (\<exists>c. blobDir (bstore S) (bsOID st) = Some c \<and> oid_of c = bsOID st)))"
proof -
  have inv: "addressed (bstore S)" "\<And>j. j \<in> set (jobs S) \<Longrightarrow> job_ok (bstore S) (deleted S) j"
    using blob_inv_reach [OF assms] by (auto simp: blob_inv_def in_set_conv_nth)
  show ?thesis using inv(1) inv(2) [of j] by (auto simp: addressed_def job_ok_def)
qed

lemma put_run_steps:
  assumes "put_run (j, s) (j', s')" "i < length (jobs S)" "jobs S ! i = j" "bstore S = s"
  shows "blob_step\<^sup>*\<^sup>* S (S\<lparr>jobs := (jobs S)[i := j'], bstore := s'\<rparr>)"
  using assms
proof (induction "(j, s)" "(j', s')" arbitrary: j s S rule: put_run.induct)
  case pr_refl
  have "S\<lparr>jobs := (jobs S)[i := jobs S ! i], bstore := bstore S\<rparr> = S" by simp
  with pr_refl show ?case by simp
next
  case (pr_step j s ph s1)
  let ?T = "S\<lparr>jobs := (jobs S)[i := j\<lparr>jPhase := ph\<rparr>], bstore := s1\<rparr>"
  have "blob_step S ?T" using bl_put [of i S ph s1] pr_step by simp
  moreover have "blob_step\<^sup>*\<^sup>* ?T (?T\<lparr>jobs := (jobs ?T)[i := j'], bstore := s'\<rparr>)" using pr_step(4,5) by (intro pr_step(3)) simp_all
  ultimately show ?case by (simp add: converse_rtranclp_into_rtranclp)
qed

definition calm :: benv where
  "calm = \<lparr>bCreate = False, bWrite = (\<lambda>_. False), bClose = False, bStat = False, bMkdir = False, bRename = False, bStatAgain = False,
     bOpen = False, bRemove = False\<rparr>"

definition demo_job :: put_job where
  "demo_job = \<lparr>jTmp = 0, jEnv = calm, jBody = [''ab'', ''c''], jErr = None, jOID = [], jSize = 3, jPhase = Creating\<rparr>"

theorem blobs_atomic_witness:
  "\<exists>S st. blob_step\<^sup>*\<^sup>* (blob_start ''/data'') S \<and> map jPhase (jobs S) = [Finished (Inr st)] \<and> bsOID st = oid_of ''abc'' \<and> bsSize st = 3 \<and>
     (\<exists>c. blobDir (bstore S) (bsOID st) = Some c \<and> oid_of c = bsOID st)"
proof -
  let ?A = "blob_start ''/data''"
  let ?B = "?A\<lparr>jobs := [demo_job]\<rparr>"
  have "blob_step ?A (?A\<lparr>jobs := jobs ?A @ [demo_job]\<rparr>)" by (rule bl_start) (simp_all add: demo_job_def blob_start_def)
  then have S1: "blob_step ?A ?B" by (simp add: blob_start_def)
  obtain st s' where p: "Put (jEnv demo_job) (jTmp demo_job) (jBody demo_job) (jErr demo_job) (jOID demo_job) (jSize demo_job) (bstore ?B) = (Inr st, s')"
    by (simp add: Put_def finish_put_def install_def demo_job_def calm_def checked_def blob_start_def)
  let ?C = "?B\<lparr>jobs := [demo_job\<lparr>jPhase := Finished (Inr st)\<rparr>], bstore := s'\<rparr>"
  have "blob_step\<^sup>*\<^sup>* ?B (?B\<lparr>jobs := (jobs ?B)[0 := demo_job\<lparr>jPhase := Finished (Inr st)\<rparr>], bstore := s'\<rparr>)"
    by (rule put_run_steps [OF Put_run [OF _ p]]) (simp_all add: demo_job_def)
  then have r: "blob_step\<^sup>*\<^sup>* ?A ?C" using S1 by (simp add: converse_rtranclp_into_rtranclp)
  have d: "deleted ?C = {}" "concat (jBody demo_job) = ''abc''" by (simp_all add: blob_start_def demo_job_def)
  have w: "bsOID st = oid_of (concat (jBody demo_job)) \<and> bsSize st = int (length (concat (jBody demo_job))) \<and>
      (\<exists>c. blobDir (bstore ?C) (bsOID st) = Some c \<and> oid_of c = bsOID st)"
    using blobs_atomic [OF r, of "bsOID st" "''abc''" "demo_job\<lparr>jPhase := Finished (Inr st)\<rparr>" st] d(1) by auto
  from w d(2) have "bsOID st = oid_of ''abc''" "bsSize st = 3" by simp_all
  moreover from w have "\<exists>c. blobDir (bstore ?C) (bsOID st) = Some c \<and> oid_of c = bsOID st" by (elim conjE)
  moreover have "map jPhase (jobs ?C) = [Finished (Inr st)]" by simp
  ultimately show ?thesis using r by (intro exI [of _ ?C] exI [of _ st] conjI)
qed

end
