(* ===== verification/Upload_Handler.thy ===== *)
theory Upload_Handler
  imports Registry Blob_Store Go_Json Http_Header
begin

text \<open>
  The write side of the model registry, \<open>internal/proxy/upload_handler.go\<close>: creating repositories, announcing an upload, commits as lines of
  JSON, and the LFS protocol with its capped uploads. A handler takes the request and the state, which is the registry database, the object store and
  the audit log, and answers; \<open>Forward\<close> is a request handed to the next handler. JSON bodies are documents (\<open>None\<close>: malformed, or cut off by the
  size limit of the reader); the body of a commit is the list of its non-empty lines. Failures of statements and system calls come from \<open>renv\<close>.
\<close>

record ureq =
  uqMethod :: string
  uqPath :: string
  uqRange :: string
  uqLength :: int                        \<comment> \<open>\<open>ContentLength\<close>, \<open>-1\<close> if unknown\<close>
  uqJson :: "json option"
  uqLines :: "json option list"
  uqSize :: int                          \<comment> \<open>bytes of the lines\<close>
  uqSeen :: nat                          \<comment> \<open>lines scanned before a reader that is cut off reports it\<close>
  uqBroken :: bool                       \<comment> \<open>reading the lines ends with another error\<close>
  uqChunks :: "string list"              \<comment> \<open>what reading the raw body gives, piece by piece\<close>
  uqErr :: "blob_err option"             \<comment> \<open>the error after the last piece; \<open>None\<close> is the end of the body\<close>
  uqEarly :: bool                        \<comment> \<open>that end or error comes together with the last piece\<close>

datatype lfs_action = Upload string string | Download string | Nothing
datatype lfs_entry = LfsActions string int lfs_action | LfsError string int int

datatype ubody = UNone | UErr string | URepo string string | UPre "(string \<times> string \<times> bool \<times> string) list" | UCommit string string
  | UBatch "lfs_entry list" | UInfo string string "FileRevision list" bool | UTree "FileRevision list" | UPaths "FileRevision list" Commit
  | UBytes string

record uresp =
  urStatus :: int
  urHdr :: header
  urBody :: ubody

datatype ureply = Forward | Reply uresp

record rcfg =
  rhTenant :: string
  PublicURL :: string
  LFSMaxBytes :: int
  CommitMaxBytes :: int
  rhAudit :: bool                        \<comment> \<open>\<open>AuditPool\<close> is set\<close>

record renv =
  reDown :: "nat \<Rightarrow> bool"                \<comment> \<open>statements outside transactions, in the order of each handler\<close>
  reTx :: "nat \<Rightarrow> cenv"                   \<comment> \<open>one per attempt to commit\<close>
  reCancel :: "nat \<Rightarrow> bool"               \<comment> \<open>the client is gone before this attempt, or after the last one\<close>
  reBlob :: "nat \<Rightarrow> benv"
  reTmp :: "nat \<Rightarrow> nat"
  reId :: string
  reAuditDown :: bool

record rstate =
  rsDb :: regdb
  rsBlobs :: LocalStore
  rsAudit :: "audit_row list"

definition defaultLFSMaxBytes :: int where "defaultLFSMaxBytes = 200 * 2 ^ 30"
definition defaultCommitMaxBytes :: int where "defaultCommitMaxBytes = 64 * 2 ^ 20"

definition uwriteJSON :: "ubody \<Rightarrow> uresp" where
  "uwriteJSON b = \<lparr>urStatus = 200, urHdr = hdr_set ''Content-Type'' ''application/json'' [], urBody = b\<rparr>"

definition writeJSONError :: "int \<Rightarrow> string \<Rightarrow> uresp" where
  "writeJSONError status msg = \<lparr>urStatus = status, urHdr = hdr_set ''Content-Type'' ''application/json'' [], urBody = UErr msg\<rparr>"

definition publicURL :: "rcfg \<Rightarrow> string" where
  "publicURL cfg = rev (dropWhile (\<lambda>c. c = CHR ''/'') (rev (PublicURL cfg)))"

definition repoTypePlural :: "string \<Rightarrow> string option" where
  "repoTypePlural t =
     (if to_lower t \<in> {''model'', ''models''} then Some ''models''
      else if to_lower t \<in> {''dataset'', ''datasets''} then Some ''datasets''
      else if to_lower t \<in> {''space'', ''spaces''} then Some ''spaces'' else None)"

definition splitRepoName :: "string \<Rightarrow> string \<Rightarrow> string \<times> string" where
  "splitRepoName name org =
     (case index_byte name CHR ''/'' of
        Some i \<Rightarrow> if i > 0 then (take i name, drop (Suc i) name) else if org \<noteq> [] then (org, name) else ([], [])
      | None \<Rightarrow> if org \<noteq> [] then (org, name) else ([], []))"

subsection \<open>Repositories\<close>

definition createRepoRequest :: "json \<Rightarrow> (string \<times> string \<times> string \<times> bool) option" where
  "createRepoRequest j =
     (case (jstring ''name'' j, jstring ''organization'' j, jstring ''type'' j, jdecode upd_bool False ''private'' j) of
        (Some a, Some b, Some c, Some d) \<Rightarrow> Some (a, b, c, d) | _ \<Rightarrow> None)"

definition createRepo :: "rcfg \<Rightarrow> renv \<Rightarrow> ureq \<Rightarrow> rstate \<Rightarrow> ureply \<times> rstate" where
  "createRepo cfg env req st =
     (case Option.bind (uqJson req) createRepoRequest of
        None \<Rightarrow> (Reply (writeJSONError 400 ''bad json''), st)
      | Some (nm, org, typ, private) \<Rightarrow>
          (case repoTypePlural typ of
             None \<Rightarrow> (Reply (writeJSONError 400 ''type must be model|dataset|space''), st)
           | Some t \<Rightarrow>
               let (ns, name) = splitRepoName nm org;
                   answer = (\<lambda>r. URepo (publicURL cfg @ ''/'' @ FullName r) (FullName r))
               in if ns = [] \<or> name = [] then (Reply (writeJSONError 400 ''name required''), st)
                  else case CreateRepo (reDown env 0) (reId env) (rhTenant cfg) t ns name private (rsDb st) of
                    (Inr r, db) \<Rightarrow> (Reply \<lparr>urStatus = 201, urHdr = [], urBody = answer r\<rparr>, st\<lparr>rsDb := db\<rparr>)
                  | (Inl e, db) \<Rightarrow>
                      if e = ErrAlreadyExists then
                        (case GetRepo (reDown env 1) (rhTenant cfg) t ns name db of
                           Inl e2 \<Rightarrow> (Reply (writeJSONError 500 ''store''), st\<lparr>rsDb := db\<rparr>)
                         | Inr r \<Rightarrow> (Reply (uwriteJSON (answer r)), st\<lparr>rsDb := db\<rparr>))
                      else (Reply (writeJSONError (if e = ErrInvalidInput then 400 else 500) ''create''), st\<lparr>rsDb := db\<rparr>)))"

definition lfsThreshold :: int where "lfsThreshold = 10 * 2 ^ 20"

definition hasLFSExtension :: "string \<Rightarrow> bool" where
  "hasLFSExtension path = list_ex (has_suffix (to_lower path))
     [''.safetensors'', ''.gguf'', ''.onnx'', ''.pth'', ''.pt'', ''.bin'', ''.ckpt'', ''.tar'', ''.zip'', ''.7z'', ''.msgpack'', ''.npz'']"

definition pre_file :: "json \<Rightarrow> (string \<times> int) option" where
  "pre_file j = (case (jstring ''path'' j, jstring ''sample'' j, jdecode upd_int 0 ''size'' j) of (Some p, Some _, Some n) \<Rightarrow> Some (p, n) | _ \<Rightarrow> None)"

fun all_some :: "'a option list \<Rightarrow> 'a list option" where
  "all_some [] = Some []"
| "all_some (x # xs) = Option.bind x (\<lambda>a. map_option ((#) a) (all_some xs))"

fun upd_list :: "(json \<Rightarrow> 'a option) \<Rightarrow> 'a list \<Rightarrow> json \<Rightarrow> 'a list option" where
  "upd_list f a JNull = Some []"
| "upd_list f a (JArr js) = all_some (map f js)"
| "upd_list f a _ = None"

definition pre_answer :: "(string \<times> FileRevision) list \<Rightarrow> string \<times> int \<Rightarrow> string \<times> string \<times> bool \<times> string" where
  "pre_answer current = (\<lambda>(p, n).
     let mode = (if n > lfsThreshold \<or> hasLFSExtension p then ''lfs'' else ''regular'')
     in case map_of current p of
          Some f \<Rightarrow> if fvSize f = n then (p, mode, True, fvOID f) else (p, mode, False, [])
        | None \<Rightarrow> (p, mode, False, []))"

definition preupload :: "rcfg \<Rightarrow> renv \<Rightarrow> string \<Rightarrow> string \<Rightarrow> string \<Rightarrow> ureq \<Rightarrow> rstate \<Rightarrow> ureply" where
  "preupload cfg env t ns name req st =
     (case GetRepo (reDown env 0) (rhTenant cfg) t ns name (rsDb st) of
        Inl e \<Rightarrow> Reply (if e = RNotFound then writeJSONError 404 ''repo not found'' else writeJSONError 500 ''store'')
      | Inr repo \<Rightarrow>
          (case Option.bind (uqJson req) (jdecode (upd_list pre_file) [] ''files'') of
             None \<Rightarrow> Reply (writeJSONError 400 ''bad json'')
           | Some fs \<Rightarrow>
               let current =              \<comment> \<open>a listing that fails, even midway, counts as empty\<close>
                     (case ResolveBranch (reDown env \<circ> Suc) (rpId repo) ''main'' (rsDb st) of
                                Inl e \<Rightarrow> []
                              | Inr sha \<Rightarrow> (case ListFiles (reDown env \<circ> (+) 6) (rpId repo) sha (rsDb st) of Inl e \<Rightarrow> [] | Inr (l, c) \<Rightarrow> l))
               in Reply (uwriteJSON (UPre (map (pre_answer current) fs)))))"

subsection \<open>Commits\<close>

definition b64_val :: "char \<Rightarrow> nat option" where
  "b64_val c =
     (let b = byte c
      in if 65 \<le> b \<and> b \<le> 90 then Some (b - 65) else if 97 \<le> b \<and> b \<le> 122 then Some (b - 71)
         else if 48 \<le> b \<and> b \<le> 57 then Some (b + 4) else if b = 43 then Some 62 else if b = 47 then Some 63 else None)"

fun b64_quads :: "string \<Rightarrow> string option" where
  "b64_quads [] = Some []"
| "b64_quads (a # b # c # d # rest) =
     (if rest = [] \<and> d = CHR ''='' then
        (if c = CHR ''='' then
           (case (b64_val a, b64_val b) of (Some x, Some y) \<Rightarrow> Some [char_of (x * 4 + y div 16)] | _ \<Rightarrow> None)
         else (case (b64_val a, b64_val b, b64_val c) of
                 (Some x, Some y, Some z) \<Rightarrow> Some [char_of (x * 4 + y div 16), char_of (y mod 16 * 16 + z div 4)] | _ \<Rightarrow> None))
      else (case (b64_val a, b64_val b, b64_val c, b64_val d) of
              (Some x, Some y, Some z, Some w) \<Rightarrow>
                map_option ((@) [char_of (x * 4 + y div 16), char_of (y mod 16 * 16 + z div 4), char_of (z mod 4 * 64 + w)]) (b64_quads rest)
            | _ \<Rightarrow> None))"
| "b64_quads _ = None"

definition b64_decode :: "string \<Rightarrow> string option" where
  \<comment> \<open>\<open>base64.StdEncoding.DecodeString\<close>: line ends are skipped\<close>
  "b64_decode s = b64_quads (filter (\<lambda>c. byte c \<noteq> 13 \<and> byte c \<noteq> 10) s)"

record commit_body =
  cbSummary :: string
  cbDesc :: string
  cbInline :: "(string \<times> string) list"
  cbLFS :: "(string \<times> string \<times> int) list"
  cbDeletes :: "string list"

datatype nd_err = MaxBytes | BadLine string

definition commit_file :: "json \<Rightarrow> (string \<times> string) option" where
  "commit_file v =
     (case (jstring ''path'' v, jstring ''encoding'' v, jstring ''content'' v) of
        (Some p, Some enc, Some content) \<Rightarrow>
          if enc = [] \<or> enc = ''utf-8'' then Some (p, content)
          else if enc = ''base64'' then map_option (Pair p) (b64_decode content) else None
      | _ \<Rightarrow> None)"

definition commit_lfs :: "json \<Rightarrow> (string \<times> string \<times> int) option" where
  "commit_lfs v =
     (case (jstring ''path'' v, jstring ''oid'' v, jdecode upd_int 0 ''size'' v, jstring ''algo'' v) of
        (Some p, Some oid, Some n, Some _) \<Rightarrow> Some (p, oid, n) | _ \<Rightarrow> None)"

definition commit_env :: "json option \<Rightarrow> (string \<times> json option) option" where
  \<comment> \<open>the envelope of a line: its key, and its value if it has one\<close>
  "commit_env line = Option.bind line (\<lambda>j. case (jstring ''key'' j, jdecode (\<lambda>a v. Some (Some v)) None ''value'' j) of
     (Some k, Some v) \<Rightarrow> Some (k, v) | _ \<Rightarrow> None)"

definition commit_header :: "json \<Rightarrow> (string \<times> string) option" where
  "commit_header v = (case (jstring ''summary'' v, jstring ''description'' v) of (Some s, Some d) \<Rightarrow> Some (s, d) | _ \<Rightarrow> None)"

definition commit_line :: "commit_body \<Rightarrow> json option \<Rightarrow> nd_err + commit_body" where
  "commit_line b line =
     (case commit_env line of
        None \<Rightarrow> Inl (BadLine ''bad commit envelope'')
      | Some (k, val) \<Rightarrow>
          if k = ''header'' then
            (case Option.bind val commit_header of
               None \<Rightarrow> Inl (BadLine ''header'') | Some (s, d) \<Rightarrow> Inr (b\<lparr>cbSummary := s, cbDesc := d\<rparr>))
          else if k = ''file'' then
            (case Option.bind val commit_file of
               None \<Rightarrow> Inl (BadLine ''file'') | Some (p, content) \<Rightarrow> Inr (b\<lparr>cbInline := AList.update p content (cbInline b)\<rparr>))
          else if k = ''lfsFile'' then
            (case Option.bind val commit_lfs of
               None \<Rightarrow> Inl (BadLine ''lfsFile'') | Some (p, oid, n) \<Rightarrow> Inr (b\<lparr>cbLFS := AList.update p (oid, n) (cbLFS b)\<rparr>))
          else if k = ''deletedFile'' \<or> k = ''deletedFolder'' then
            (case Option.bind val (jstring ''path'') of
               None \<Rightarrow> Inl (BadLine ''deletedFile'') | Some p \<Rightarrow> Inr (b\<lparr>cbDeletes := cbDeletes b @ [p]\<rparr>))
          else Inr b)"

fun commit_lines :: "commit_body \<Rightarrow> json option list \<Rightarrow> nd_err + commit_body" where
  "commit_lines b [] = Inr b"
| "commit_lines b (l # ls) = (case commit_line b l of Inl e \<Rightarrow> Inl e | Inr b' \<Rightarrow> commit_lines b' ls)"

definition parseCommitNDJSON :: "int \<Rightarrow> ureq \<Rightarrow> nd_err + commit_body" where
  \<comment> \<open>\<open>cap\<close> is the limit of \<open>http.MaxBytesReader\<close>, none if not positive\<close>
  "parseCommitNDJSON cap req =
     (let over = (cap > 0 \<and> uqSize req > cap)
      in case commit_lines \<lparr>cbSummary = [], cbDesc = [], cbInline = [], cbLFS = [], cbDeletes = []\<rparr>
                (if over then take (uqSeen req) (uqLines req) else uqLines req) of
           Inl e \<Rightarrow> Inl e
         | Inr b \<Rightarrow>
             if over then Inl MaxBytes
             else if uqBroken req then Inl (BadLine ''read'')
             else if cbSummary b = [] then Inl (BadLine ''commit header required (summary)'') else Inr b)"

fun store_inline :: "renv \<Rightarrow> nat \<Rightarrow> (string \<times> string) list \<Rightarrow> rstate \<Rightarrow> (string \<times> string \<times> int) list option \<times> rstate" where
  \<comment> \<open>each file into the object store and the blobs table; \<open>None\<close>: an error\<close>
  "store_inline env k [] st = (Some [], st)"
| "store_inline env k ((p, body) # fs) st =
     (case Put (reBlob env k) (reTmp env k) [body] None [] 0 (rsBlobs st) of
        (Inl e, bs) \<Rightarrow> (None, st\<lparr>rsBlobs := bs\<rparr>)
      | (Inr s, bs) \<Rightarrow>
          (case UpsertBlob (reDown env (Suc k)) (bsOID s) (bsSize s) (bsURL s) (rsDb st) of
             (Some e, db) \<Rightarrow> (None, st\<lparr>rsBlobs := bs, rsDb := db\<rparr>)
           | (None, db) \<Rightarrow>
               (case store_inline env (Suc k) fs (st\<lparr>rsBlobs := bs, rsDb := db\<rparr>) of
                  (None, st') \<Rightarrow> (None, st')
                | (Some xs, st') \<Rightarrow> (Some ((p, bsOID s, bsSize s) # xs), st'))))"

definition maxAttempts :: nat where "maxAttempts = 12"

fun commit_attempts :: "renv \<Rightarrow> CommitInput \<Rightarrow> nat \<Rightarrow> nat \<Rightarrow> reg_err \<Rightarrow> regdb \<Rightarrow> (reg_err + CommitResult) \<times> regdb" where
  \<comment> \<open>attempt \<open>k\<close> with \<open>n\<close> left; \<open>e\<close> is the last error\<close>
  "commit_attempts env inp k 0 e db = (Inl (if reCancel env k then RCanceled else e), db)"
| "commit_attempts env inp k (Suc n) e db =
     (if reCancel env k then (Inl RCanceled, db)
      else case CommitTx (reTx env k) inp db of
        (Inr r, db') \<Rightarrow> (Inr r, db')
      | (Inl e', db') \<Rightarrow> if e' = SerializationFailure then commit_attempts env inp (Suc k) n e' db' else (Inl e', db'))"

definition commitWithRetry :: "renv \<Rightarrow> CommitInput \<Rightarrow> regdb \<Rightarrow> (reg_err + CommitResult) \<times> regdb" where
  "commitWithRetry env inp db = commit_attempts env inp 0 maxAttempts RDbError db"

definition audit :: "rcfg \<Rightarrow> renv \<Rightarrow> string \<Rightarrow> string \<Rightarrow> rstate \<Rightarrow> rstate" where
  "audit cfg env action resource st =
     (if \<not> rhAudit cfg \<or> reAuditDown env then st
      else st\<lparr>rsAudit := rsAudit st @ [\<lparr>auTenant = rhTenant cfg, auActorType = ''system'', auActorId = None, auAction = action,
             auResource = resource, auOutcome = ''success''\<rparr>]\<rparr>)"

definition commit_request :: "rcfg \<Rightarrow> renv \<Rightarrow> string \<Rightarrow> string \<Rightarrow> string \<Rightarrow> string \<Rightarrow> ureq \<Rightarrow> rstate \<Rightarrow> ureply \<times> rstate" where
  "commit_request cfg env t ns name rv req st =
     (case GetRepo (reDown env 0) (rhTenant cfg) t ns name (rsDb st) of
        Inl e \<Rightarrow> (Reply (if e = RNotFound then writeJSONError 404 ''repo not found'' else writeJSONError 500 ''store''), st)
      | Inr repo \<Rightarrow>
          (case parseCommitNDJSON (if CommitMaxBytes cfg = 0 then defaultCommitMaxBytes else CommitMaxBytes cfg) req of
             Inl MaxBytes \<Rightarrow> (Reply (writeJSONError 413 ''commit body exceeds cap''), st)
           | Inl (BadLine msg) \<Rightarrow> (Reply (writeJSONError 400 msg), st)
           | Inr b \<Rightarrow>
               (case store_inline env 0 (cbInline b) st of
                  (None, st1) \<Rightarrow> (Reply (writeJSONError 500 ''blob put''), st1)
                | (Some inline, st1) \<Rightarrow>
                    (case commitWithRetry env \<lparr>ciRepo = rpId repo, ciBranch = rv, ciSummary = cbSummary b, ciDesc = cbDesc b, ciInline = inline,
                            ciLFS = cbLFS b, ciDeletes = cbDeletes b\<rparr> (rsDb st1) of
                       (Inl e, db) \<Rightarrow>
                         (Reply (writeJSONError (if e = ErrBlobMissing \<or> e = ErrCommitPathInvalid then 400 else if e = ErrLFSSizeMismatch then 422 else 500)
                            ''commit''), st1\<lparr>rsDb := db\<rparr>)
                     | (Inr res, db) \<Rightarrow>
                         (Reply (uwriteJSON (UCommit (crSHA res) (publicURL cfg @ ''/'' @ FullName repo @ ''/commit/'' @ crSHA res))),
                          audit cfg env ''upload.commit'' (t @ ''/'' @ FullName repo @ ''@'' @ crSHA res) (st1\<lparr>rsDb := db\<rparr>))))))"

subsection \<open>LFS\<close>

definition batch_obj :: "json \<Rightarrow> (string \<times> int) option" where
  "batch_obj j = (case (jstring ''oid'' j, jdecode upd_int 0 ''size'' j) of (Some a, Some n) \<Rightarrow> Some (a, n) | _ \<Rightarrow> None)"

definition batch_entry :: "rcfg \<Rightarrow> bool \<Rightarrow> string \<Rightarrow> string \<Rightarrow> string \<Rightarrow> regdb \<Rightarrow> string \<times> int \<Rightarrow> lfs_entry" where
  "batch_entry cfg down op ns name db = (\<lambda>(oid, n).
     if op = ''upload'' then
       (case HasBlob down oid db of
          Inl e \<Rightarrow> LfsError oid n 500
        | Inr (Some b) \<Rightarrow> LfsActions oid n Nothing
        | Inr None \<Rightarrow> LfsActions oid n (Upload (publicURL cfg @ ''/lfs-storage/'' @ oid)
            (publicURL cfg @ ''/'' @ ns @ ''/'' @ name @ ''.git/info/lfs/verify'')))
     else if op = ''download'' then
       (case HasBlob down oid db of
          Inl e \<Rightarrow> LfsError oid n 500
        | Inr None \<Rightarrow> LfsError oid n 404
        | Inr (Some b) \<Rightarrow> LfsActions oid n (Download (publicURL cfg @ ''/lfs-storage/'' @ oid)))
     else LfsError oid n 400)"

definition lfsBatchReq :: "json \<Rightarrow> (string \<times> (string \<times> int) list) option" where
  "lfsBatchReq j =
     (case (jstring ''operation'' j, jdecode upd_strings [] ''transfers'' j, jdecode (upd_list batch_obj) [] ''objects'' j) of
        (Some op, Some _, Some os) \<Rightarrow> Some (op, os) | _ \<Rightarrow> None)"

definition lfsBatch :: "rcfg \<Rightarrow> renv \<Rightarrow> string \<Rightarrow> string \<Rightarrow> string \<Rightarrow> ureq \<Rightarrow> rstate \<Rightarrow> ureply" where
  "lfsBatch cfg env t ns name req st =
     (case GetRepo (reDown env 0) (rhTenant cfg) t ns name (rsDb st) of
        Inl e \<Rightarrow> Reply (if e = RNotFound then writeJSONError 404 ''repo not found'' else writeJSONError 500 ''store'')
      | Inr repo \<Rightarrow>
          (case Option.bind (uqJson req) lfsBatchReq of
             None \<Rightarrow> Reply (writeJSONError 400 ''bad json'')
           | Some (op, os) \<Rightarrow> Reply (uwriteJSON (UBatch (map (\<lambda>(i, ob). batch_entry cfg (reDown env (Suc i)) op ns name (rsDb st) ob) (enumerate 0 os))))))"

definition lfsVerify :: "rcfg \<Rightarrow> renv \<Rightarrow> string \<Rightarrow> string \<Rightarrow> string \<Rightarrow> ureq \<Rightarrow> rstate \<Rightarrow> ureply" where
  "lfsVerify cfg env t ns name req st =
     (case GetRepo (reDown env 0) (rhTenant cfg) t ns name (rsDb st) of
        Inl e \<Rightarrow> Reply (writeJSONError 404 ''repo not found'')
      | Inr repo \<Rightarrow>
          (case Option.bind (uqJson req) batch_obj of
             None \<Rightarrow> Reply (writeJSONError 400 ''bad json'')
           | Some (oid, n) \<Rightarrow>
               (case HasBlob (reDown env 1) oid (rsDb st) of
                  Inl e \<Rightarrow> Reply (writeJSONError 500 ''store'')
                | Inr None \<Rightarrow> Reply (writeJSONError 404 ''object not uploaded'')
                | Inr (Some b) \<Rightarrow>
                    if n \<noteq> 0 \<and> blSize b \<noteq> n then Reply (writeJSONError 422 ''size mismatch'')
                    else Reply \<lparr>urStatus = 200, urHdr = [], urBody = UNone\<rparr>)))"

definition serveLFSGit :: "rcfg \<Rightarrow> renv \<Rightarrow> ureq \<Rightarrow> rstate \<Rightarrow> ureply" where
  "serveLFSGit cfg env req st =
     (case index_str (uqPath req) ''.git/info/lfs/'' of
        None \<Rightarrow> Reply (writeJSONError 404 ''not found'')
      | Some i \<Rightarrow>
          let tail = drop (i + length ''.git/info/lfs/'') (uqPath req)
          in case split_on CHR ''/'' (trim_prefix (take i (uqPath req)) ''/'') of
               [ns, name] \<Rightarrow>
                 if uqMethod req \<noteq> ''POST'' then Reply (writeJSONError 405 ''method not allowed'')
                 else if tail = ''objects/batch'' then lfsBatch cfg env ''models'' ns name req st
                 else if tail = ''verify'' then lfsVerify cfg env ''models'' ns name req st
                 else Reply (writeJSONError 404 ''not found'')
             | _ \<Rightarrow> Reply (writeJSONError 404 ''not found''))"

definition lfsMaxBytes :: "rcfg \<Rightarrow> int" where
  "lfsMaxBytes cfg = (if LFSMaxBytes cfg > 0 then LFSMaxBytes cfg else defaultLFSMaxBytes)"

fun lfs_limit :: "int \<Rightarrow> string list \<Rightarrow> blob_err option \<Rightarrow> bool \<Rightarrow> string list \<times> blob_err option \<times> bool" where
  \<comment> \<open>\<open>lfsLimitReader\<close>: what its reader gets, how it ends, and whether it has \<open>Tripped\<close>; \<open>N\<close> is what may still be read\<close>
  "lfs_limit N [] err early = (if N \<le> 0 then ([], None, True) else ([], err, False))"
| "lfs_limit N (c # cs) err early =
     (if N \<le> 0 then ([], None, True)
      else if int (length c) > N then ([take (nat N) c], None, True)
      else if N - int (length c) \<le> 0 then (if cs = [] \<and> early then ([c], err, False) else ([c], None, True))
      else case lfs_limit (N - int (length c)) cs err early of (ds, e, trip) \<Rightarrow> (c # ds, e, trip))"

definition read_all :: "benv \<Rightarrow> string \<Rightarrow> string list \<Rightarrow> bool" where
  \<comment> \<open>\<open>Put\<close> gets as far as its last read: it refuses no id, creates its file, and no earlier write fails\<close>
  "read_all env oid chunks \<longleftrightarrow> validOID oid \<and> \<not> bCreate env \<and> list_all (\<lambda>j. \<not> bWrite env j) [0..<length chunks - 1]"

definition serveLFSStorage :: "rcfg \<Rightarrow> renv \<Rightarrow> ureq \<Rightarrow> rstate \<Rightarrow> ureply \<times> rstate" where
  "serveLFSStorage cfg env req st =
     (let oid = trim_prefix (uqPath req) ''/lfs-storage/'';
          mx = lfsMaxBytes cfg;
          big = Reply (writeJSONError 413 ''upload exceeds maximum LFS object size'')
      in if uqMethod req \<noteq> ''PUT'' then (Reply (writeJSONError 405 ''method not allowed''), st)
         else if oid = [] \<or> CHR ''/'' \<in> set oid then (Reply (writeJSONError 400 ''missing oid''), st)
         else if uqLength req > mx then (big, st)
         else case lfs_limit (wrap64 (mx + 1)) (uqChunks req) (uqErr req) (uqEarly req) of
           (chunks, err, trip) \<Rightarrow>
             let tripped = (trip \<and> read_all (reBlob env 0) oid chunks)
             in (case Put (reBlob env 0) (reTmp env 0) chunks err oid (if uqLength req > 0 then uqLength req else 0) (rsBlobs st) of
                (Inl e, bs) \<Rightarrow>
                  (if tripped then big
                   else Reply (writeJSONError (if e = ErrOIDMismatch \<or> e = ErrSizeMismatch then 422 else if e = BlobCanceled then 504 else 500) ''put''),
                   st\<lparr>rsBlobs := bs\<rparr>)
              | (Inr s, bs) \<Rightarrow>
                  if tripped then (big, st\<lparr>rsBlobs := bs\<rparr>)
                  else (case UpsertBlob (reDown env 0) (bsOID s) (bsSize s) (bsURL s) (rsDb st) of
                          (Some e, db) \<Rightarrow> (Reply (writeJSONError 500 ''upsert blob''), st\<lparr>rsBlobs := bs, rsDb := db\<rparr>)
                        | (None, db) \<Rightarrow> (Reply \<lparr>urStatus = 200, urHdr = [], urBody = UNone\<rparr>, st\<lparr>rsBlobs := bs, rsDb := db\<rparr>))))"

end
