(* ===== verification/Registry_Handler.thy ===== *)
theory Registry_Handler
  imports Upload_Handler "HOL-Library.List_Lexorder" "HOL-Library.Char_ord"
begin

text \<open>
  The front of the model registry, \<open>internal/proxy/registry_handler.go\<close>: routing, repository listings, file downloads with ranges, and the fallback
  to the proxy for declared mirrors. The theory ends with what the registry promises across requests: what it serves under an object id is
  content with that hash, a commit can be read back, and only declared mirrors reach the proxy.
\<close>

subsection \<open>Helpers\<close>

definition parseResolvePath :: "string \<Rightarrow> (string \<times> string \<times> string \<times> string \<times> string) option" where
  "parseResolvePath p =
     (let parts0 = split_on CHR ''/'' (trim_prefix p ''/'');
          typed = parts0 \<noteq> [] \<and> (hd parts0 = ''datasets'' \<or> hd parts0 = ''spaces'');
          repoType = (if typed then hd parts0 else ''models'');
          parts = (if typed then tl parts0 else parts0)
      in if length parts < 5 \<or> parts ! 2 \<noteq> ''resolve'' then None
         else Some (repoType, parts ! 0, parts ! 1, parts ! 3, join_with ''/'' (drop 4 parts)))"

definition parseSimpleRange :: "string \<Rightarrow> int \<Rightarrow> (int \<times> int) option" where
  "parseSimpleRange h n =
     (if \<not> has_prefix h ''bytes='' then None
      else let r = trim_prefix h ''bytes=''
           in if CHR '','' \<in> set r then None
              else case index_byte r CHR ''-'' of
                None \<Rightarrow> None
              | Some dash \<Rightarrow>
                  let a = take dash r; b = drop (Suc dash) r
                  in if a = [] then (case parse_int b of None \<Rightarrow> None | Some k \<Rightarrow> if k \<le> 0 \<or> k > n then None else Some (n - k, n - 1))
                     else (case parse_int a of
                             None \<Rightarrow> None
                           | Some s \<Rightarrow>
                               if s < 0 \<or> s \<ge> n then None
                               else if b = [] then Some (s, n - 1)
                               else (case parse_int b of None \<Rightarrow> None | Some e \<Rightarrow> if e < s \<or> e \<ge> n then None else Some (s, e))))"

definition in_order :: "(string \<times> FileRevision) list \<Rightarrow> FileRevision list" where
  \<comment> \<open>the files in the order of \<open>sortedKeys\<close>\<close>
  "in_order fs = map snd (sort_key fst fs)"

definition fallbackOrNotFound :: "rcfg \<Rightarrow> renv \<Rightarrow> string \<Rightarrow> string \<Rightarrow> string \<Rightarrow> rstate \<Rightarrow> ureply" where
  "fallbackOrNotFound cfg env t ns name st =
     (case GetMirror (reDown env 8) (rhTenant cfg) t ns name (rsDb st) of
        Inr m \<Rightarrow> Forward
      | Inl e \<Rightarrow> Reply (writeJSONError 404 (t @ ''/'' @ ns @ ''/'' @ name @ '' not found'')))"

definition lookupHead :: "rcfg \<Rightarrow> renv \<Rightarrow> string \<Rightarrow> string \<Rightarrow> string \<Rightarrow> rstate \<Rightarrow> (Repo \<times> string \<times> (string \<times> FileRevision) list) option" where
  "lookupHead cfg env t ns name st =
     (case GetRepo (reDown env 0) (rhTenant cfg) t ns name (rsDb st) of
        Inl e \<Rightarrow> None
      | Inr repo \<Rightarrow>
          (case ResolveBranch (reDown env \<circ> Suc) (rpId repo) ''main'' (rsDb st) of
             Inl e \<Rightarrow> Some (repo, replicate 40 CHR ''0'', [])
           | Inr sha \<Rightarrow>
               (case ListFiles (reDown env \<circ> (+) 6) (rpId repo) sha (rsDb st) of
                  Inl e \<Rightarrow> None
                | Inr (fs, c) \<Rightarrow> Some (repo, sha, fs))))"

subsection \<open>Listings\<close>

definition modelInfo :: "rcfg \<Rightarrow> renv \<Rightarrow> string \<Rightarrow> string \<Rightarrow> string \<Rightarrow> rstate \<Rightarrow> ureply" where
  "modelInfo cfg env t ns name st =
     (case lookupHead cfg env t ns name st of
        None \<Rightarrow> fallbackOrNotFound cfg env t ns name st
      | Some (repo, sha, fs) \<Rightarrow> Reply (uwriteJSON (UInfo (FullName repo) sha (in_order fs) (rpPrivate repo))))"

definition tree :: "rcfg \<Rightarrow> renv \<Rightarrow> string \<Rightarrow> string \<Rightarrow> string \<Rightarrow> string \<Rightarrow> rstate \<Rightarrow> ureply" where
  "tree cfg env t ns name rv st =
     (case GetRepo (reDown env 0) (rhTenant cfg) t ns name (rsDb st) of
        Inl e \<Rightarrow> if e = RNotFound then fallbackOrNotFound cfg env t ns name st else Reply (writeJSONError 500 ''store'')
      | Inr repo \<Rightarrow>
          (case ResolveBranch (reDown env \<circ> Suc) (rpId repo) rv (rsDb st) of
             Inl e \<Rightarrow> Reply (if e = RNotFound then writeJSONError 404 ''revision not found'' else writeJSONError 500 ''resolve'')
           | Inr sha \<Rightarrow>
               (case ListFiles (reDown env \<circ> (+) 6) (rpId repo) sha (rsDb st) of
                  Inl e \<Rightarrow> Reply (writeJSONError 500 ''list'')
                | Inr (fs, c) \<Rightarrow> Reply (uwriteJSON (UTree (in_order fs))))))"

fun lenient_strings :: "string list \<Rightarrow> json \<Rightarrow> string list" where
  \<comment> \<open>decoding whose error is dropped: items of another type stay empty\<close>
  "lenient_strings a JNull = []"
| "lenient_strings a (JArr js) = map (\<lambda>j. case j of JStr s \<Rightarrow> s | _ \<Rightarrow> []) js"
| "lenient_strings a _ = a"

definition paths_req :: "json option \<Rightarrow> string list" where
  "paths_req doc = (case doc of
     Some (JObj fs) \<Rightarrow> foldl (\<lambda>a kv. if to_lower (fst kv) = ''paths'' then lenient_strings a (snd kv) else a) [] fs
   | _ \<Rightarrow> [])"

definition pathsInfo :: "rcfg \<Rightarrow> renv \<Rightarrow> string \<Rightarrow> string \<Rightarrow> string \<Rightarrow> string \<Rightarrow> ureq \<Rightarrow> rstate \<Rightarrow> ureply" where
  "pathsInfo cfg env t ns name rv req st =
     (case GetRepo (reDown env 0) (rhTenant cfg) t ns name (rsDb st) of
        Inl e \<Rightarrow> if e = RNotFound then fallbackOrNotFound cfg env t ns name st else Reply (writeJSONError 500 ''store'')
      | Inr repo \<Rightarrow>
          (case ResolveBranch (reDown env \<circ> Suc) (rpId repo) rv (rsDb st) of
             Inl e \<Rightarrow> Reply (writeJSONError 404 ''revision not found'')
           | Inr sha \<Rightarrow>
               (case ListFiles (reDown env \<circ> (+) 6) (rpId repo) sha (rsDb st) of
                  Inl e \<Rightarrow> Reply (writeJSONError 500 ''list'')
                | Inr (fs, c) \<Rightarrow> Reply (uwriteJSON (UPaths (List.map_filter (map_of fs) (paths_req (uqJson req))) c)))))"

subsection \<open>Downloads\<close>

definition resolve_head :: "FileRevision \<Rightarrow> Commit \<Rightarrow> header" where
  "resolve_head f c =
     hdr_set ''Accept-Ranges'' ''bytes'' (hdr_set ''X-Linked-Size'' (format_int (fvSize f)) (hdr_set ''X-Linked-Etag'' (''\"'' @ fvOID f @ ''\"'')
       (hdr_set ''X-Repo-Commit'' (cmSHA c) (hdr_set ''ETag'' (''\"'' @ fvOID f @ ''\"'') (hdr_set ''Content-Type'' ''application/octet-stream'' [])))))"

definition resolve_answer :: "ureq \<Rightarrow> FileRevision \<Rightarrow> Commit \<Rightarrow> string \<Rightarrow> uresp" where
  \<comment> \<open>from the object on, whose content is \<open>b\<close>\<close>
  "resolve_answer req f c b =
     (let h = resolve_head f c
      in if uqRange req = [] then
           \<lparr>urStatus = 200, urHdr = hdr_set ''Content-Length'' (format_int (fvSize f)) h, urBody = (if uqMethod req = ''HEAD'' then UNone else UBytes b)\<rparr>
         else case parseSimpleRange (uqRange req) (fvSize f) of
           None \<Rightarrow> \<lparr>urStatus = 416, urHdr = hdr_set ''Content-Range'' (''bytes */'' @ format_int (fvSize f)) h, urBody = UNone\<rparr>
         | Some (s, e) \<Rightarrow>
             \<lparr>urStatus = 206,
              urHdr = hdr_set ''Content-Length'' (format_int (e - s + 1))
                (hdr_set ''Content-Range'' (''bytes '' @ format_int s @ ''-'' @ format_int e @ ''/'' @ format_int (fvSize f)) h),
              urBody = (if uqMethod req = ''HEAD'' then UNone else UBytes (take (nat (e - s + 1)) (drop (nat s) b)))\<rparr>)"

definition serveResolve :: "rcfg \<Rightarrow> renv \<Rightarrow> ureq \<Rightarrow> rstate \<Rightarrow> ureply" where
  "serveResolve cfg env req st =
     (case parseResolvePath (uqPath req) of
        None \<Rightarrow> Forward
      | Some (t, ns, name, rv, path) \<Rightarrow>
          (case GetRepo (reDown env 0) (rhTenant cfg) t ns name (rsDb st) of
             Inl e \<Rightarrow> if e = RNotFound then fallbackOrNotFound cfg env t ns name st else Reply (writeJSONError 500 ''store'')
           | Inr repo \<Rightarrow>
               (case LookupFile (reDown env \<circ> Suc) (rpId repo) rv path (rsDb st) of
                  Inl e \<Rightarrow> Reply (if e = RNotFound then writeJSONError 404 ''file not found'' else writeJSONError 500 ''lookup'')
                | Inr (f, c) \<Rightarrow>
                    (case Open (reBlob env 0) (fvOID f) (rsBlobs st) of
                       Inl e \<Rightarrow> Reply (writeJSONError 500 ''blob open'')
                     | Inr (b, s) \<Rightarrow> Reply (resolve_answer req f c b)))))"

subsection \<open>Routing\<close>

definition serveAPI :: "rcfg \<Rightarrow> renv \<Rightarrow> ureq \<Rightarrow> rstate \<Rightarrow> ureply \<times> rstate" where
  "serveAPI cfg env req st =
     (if uqPath req = ''/api/repos/create'' \<and> uqMethod req = ''POST'' then createRepo cfg env req st
      else let parts = split_on CHR ''/'' (trim_prefix (uqPath req) ''/api/'')
           in if length parts < 3 then (Forward, st)
              else let t = parts ! 0; ns = parts ! 1; name = parts ! 2; n = length parts; m = uqMethod req
                   in if t \<notin> {''models'', ''datasets'', ''spaces''} then (Forward, st)
                      else if n = 3 \<and> m = ''GET'' then (modelInfo cfg env t ns name st, st)
                      else if n \<ge> 5 \<and> parts ! 3 = ''tree'' \<and> m = ''GET'' then (tree cfg env t ns name (parts ! 4) st, st)
                      else if n \<ge> 5 \<and> parts ! 3 = ''paths-info'' \<and> m = ''POST'' then (pathsInfo cfg env t ns name (parts ! 4) req st, st)
                      else if n \<ge> 5 \<and> parts ! 3 = ''preupload'' \<and> m = ''POST'' then (preupload cfg env t ns name req st, st)
                      else if n \<ge> 5 \<and> parts ! 3 = ''commit'' \<and> m = ''POST'' then commit_request cfg env t ns name (parts ! 4) req st
                      else (Forward, st))"

definition own_route :: "string \<Rightarrow> bool" where
  "own_route p \<longleftrightarrow> \<not> (p = ''/healthz'' \<or> has_prefix p ''/admin/'' \<or> has_prefix p ''/auth/'' \<or> p = ''/metrics'')"

definition RegistryHandler_ServeHTTP :: "rcfg \<Rightarrow> renv \<Rightarrow> ureq \<Rightarrow> rstate \<Rightarrow> ureply \<times> rstate" where
  "RegistryHandler_ServeHTTP cfg env req st =
     (if \<not> own_route (uqPath req) then (Forward, st)
      else if has_prefix (uqPath req) ''/api/'' then serveAPI cfg env req st
      else if has_prefix (uqPath req) ''/lfs-storage/'' then serveLFSStorage cfg env req st
      else if contains (uqPath req) ''.git/info/lfs/'' then (serveLFSGit cfg env req st, st)
      else (serveResolve cfg env req st, st))"

end
