(* ===== verification/Registry_Inv.thy ===== *)
theory Registry_Inv
  imports Registry_Handler
begin

text \<open>
  What the model registry promises across requests. The invariant \<open>reg_inv\<close> ties the database to the object store: every row of the blobs
  table names an object that is on disk under its own hash, with the size of a body of that hash. Every handler keeps it, whatever
  statements and system calls fail.
\<close>

subsection \<open>The invariant\<close>

definition blob_backed :: "LocalStore \<Rightarrow> Blob \<Rightarrow> bool" where
  "blob_backed bs x \<longleftrightarrow> blobDir bs (blOID x) \<noteq> None \<and> (\<exists>c. oid_of c = blOID x \<and> int (length c) = blSize x)"

definition reg_inv :: "rstate \<Rightarrow> bool" where
  "reg_inv st \<longleftrightarrow> reg_ok (rsDb st) \<and> addressed (rsBlobs st) \<and> (\<forall>x \<in> set (blobs (rsDb st)). blob_backed (rsBlobs st) x)"

fun reg_run :: "rcfg \<Rightarrow> (renv \<times> ureq) list \<Rightarrow> rstate \<Rightarrow> rstate" where
  \<comment> \<open>requests one after the other\<close>
  "reg_run cfg [] st = st"
| "reg_run cfg ((env, req) # qs) st = reg_run cfg qs (snd (RegistryHandler_ServeHTTP cfg env req st))"

definition no_uploads :: "rstate \<Rightarrow> bool" where
  \<comment> \<open>a registry nothing has been uploaded to yet; it may have repositories and mirrors\<close>
  "no_uploads st \<longleftrightarrow> blobs (rsDb st) = [] \<and> commits (rsDb st) = [] \<and> branches (rsDb st) = [] \<and> files (rsDb st) = [] \<and> blobDir (rsBlobs st) = Map.empty"

lemma no_uploads_inv: "no_uploads st \<Longrightarrow> reg_inv st"
  by (simp add: no_uploads_def reg_inv_def reg_ok_def addressed_def)

lemma reg_inv_audit [simp]: "reg_inv (st\<lparr>rsAudit := a\<rparr>) = reg_inv st"
  by (simp add: reg_inv_def)

lemma reg_inv_handler_audit [simp]: "reg_inv (audit cfg env a r st) = reg_inv st" "rsDb (audit cfg env a r st) = rsDb st" "rsBlobs (audit cfg env a r st) = rsBlobs st"
  by (simp_all add: audit_def)

lemma reg_inv_Put:
  assumes "reg_inv st" "Put env n cs r eo es (rsBlobs st) = (res, bs)"
  shows "reg_inv (st\<lparr>rsBlobs := bs\<rparr>)"
proof -
  have "addressed bs" using lbs.put_good [of "rsBlobs st" env n cs r eo es] assms by (simp add: reg_inv_def)
  moreover have "blob_backed bs x" if "blob_backed (rsBlobs st) x" for x
    using lbs.put_keeps [of "rsBlobs st" "blOID x" _ env n cs r eo es] assms that by (auto simp: reg_inv_def blob_backed_def holds_def)
  ultimately show ?thesis using assms(1) by (simp add: reg_inv_def)
qed

lemma reg_ok_blobs:
  assumes "reg_ok db" "blOID x \<notin> blOID ` set (blobs db)"
  shows "reg_ok (db\<lparr>blobs := blobs db @ [x]\<rparr>)"
  using assms by (auto simp: reg_ok_def commit_at_def)

lemma reg_inv_upsert:
  assumes "reg_inv st" "UpsertBlob down oid n url (rsDb st) = (res, db)"
    and "blobDir (rsBlobs st) oid \<noteq> None" "\<exists>c. oid_of c = oid \<and> int (length c) = n"
  shows "reg_inv (st\<lparr>rsDb := db\<rparr>)"
proof -
  let ?x = "\<lparr>blOID = oid, blSize = n, blURL = url, blRef = 0\<rparr>"
  have "db = rsDb st \<or> db = (rsDb st)\<lparr>blobs := blobs (rsDb st) @ [?x]\<rparr> \<and> oid \<notin> blOID ` set (blobs (rsDb st))"
    using assms(2) by (auto simp: UpsertBlob_def list_ex_iff split: if_splits)
  moreover have "blob_backed (rsBlobs st) ?x" using assms(3,4) by (simp add: blob_backed_def)
  ultimately show ?thesis using assms(1) reg_ok_blobs [of "rsDb st" ?x] by (auto simp: reg_inv_def)
qed

lemma reg_inv_store:
  assumes "reg_inv st" "Put env n cs r eo es (rsBlobs st) = (Inr s, bs)" "UpsertBlob down (bsOID s) (bsSize s) (bsURL s) (rsDb st) = (res, db)"
  shows "reg_inv (st\<lparr>rsBlobs := bs, rsDb := db\<rparr>)"
proof -
  have "bsOID s = oid_of (concat cs) \<and> bsSize s = int (length (concat cs)) \<and> blobDir bs (bsOID s) \<noteq> None"
    using lbs.put_stored [of "rsBlobs st" env n cs r eo es s bs] assms(1,2) by (auto simp: reg_inv_def holds_def)
  then have "blobDir bs (bsOID s) \<noteq> None" "\<exists>c. oid_of c = bsOID s \<and> int (length c) = bsSize s" by metis+
  then show ?thesis using reg_inv_upsert [OF reg_inv_Put [OF assms(1,2)], of down "bsOID s" "bsSize s" "bsURL s" res db] assms(3) by simp
qed

lemma reg_inv_CommitTx:
  assumes "reg_inv st" "CommitTx env inp (rsDb st) = (res, db)"
  shows "reg_inv (st\<lparr>rsDb := db\<rparr>)"
proof -
  have "reg_ok db" using CommitTx_keeps assms by (auto simp: reg_inv_def)
  moreover have "\<exists>y \<in> set (blobs (rsDb st)). blOID x = blOID y \<and> blSize x = blSize y" if "x \<in> set (blobs db)" for x
  proof (cases res)
    case (Inl e)
    with that assms(2) CommitTx_error show ?thesis by blast
  next
    case (Inr r)
    with that CommitTx_ok(1) [OF assms(2) [unfolded Inr]] show ?thesis by (auto simp: commit_rows_def update_rows_def)
  qed
  ultimately show ?thesis using assms(1) by (fastforce simp: reg_inv_def blob_backed_def)
qed

lemma store_inline_inv:
  "reg_inv st \<Longrightarrow> store_inline env k fs st = (res, st') \<Longrightarrow> reg_inv st'"
proof (induction env k fs st arbitrary: res rule: store_inline.induct)
  case (2 env k p body fs st)
  obtain r bs where put: "Put (reBlob env k) (reTmp env k) [body] None [] 0 (rsBlobs st) = (r, bs)" by fastforce
  show ?case
  proof (cases r)
    case (Inl e)
    with put 2 reg_inv_Put [OF _ put] show ?thesis by simp
  next
    case (Inr s)
    obtain u db where up: "UpsertBlob (reDown env (Suc k)) (bsOID s) (bsSize s) (bsURL s) (rsDb st) = (u, db)" by fastforce
    have inv: "reg_inv (st\<lparr>rsBlobs := bs, rsDb := db\<rparr>)" using reg_inv_store [OF 2(2) put [unfolded Inr] up] .
    show ?thesis
    proof (cases u)
      case None
      with 2(1) [OF put [symmetric] Inr up [symmetric]] 2(3) put Inr up inv show ?thesis
        by (auto split: prod.splits option.splits)
    qed (use 2 put up Inr inv in auto)
  qed
qed simp

lemma commit_attempts_inv:
  "reg_inv st \<Longrightarrow> commit_attempts env inp k n e (rsDb st) = (res, db) \<Longrightarrow> reg_inv (st\<lparr>rsDb := db\<rparr>)"
proof (induction n arbitrary: k e st)
  case (Suc n)
  obtain r db1 where tx: "CommitTx (reTx env k) inp (rsDb st) = (r, db1)" by fastforce
  have inv: "reg_inv (st\<lparr>rsDb := db1\<rparr>)" by (rule reg_inv_CommitTx [OF Suc.prems(1) tx])
  show ?case using Suc.IH [OF inv, of "Suc k"] Suc.prems inv tx by (auto split: sum.splits if_splits)
qed (auto simp: reg_inv_def)

lemma reg_inv_CreateRepo:
  assumes "reg_inv st" "CreateRepo down i ten t ns n pv (rsDb st) = (res, db)"
  shows "reg_inv (st\<lparr>rsDb := db\<rparr>)"
proof -
  have "db = rsDb st \<or> (\<exists>rs. db = (rsDb st)\<lparr>repos := rs\<rparr>)" using assms(2) by (auto simp: CreateRepo_def Let_def split: if_splits)
  then show ?thesis using assms(1) by (auto simp: reg_inv_def reg_ok_def commit_at_def)
qed

lemma createRepo_inv: "reg_inv st \<Longrightarrow> reg_inv (snd (createRepo cfg env req st))"
  by (auto simp: createRepo_def Let_def reg_inv_CreateRepo split: option.split sum.split prod.split)

definition commit_result :: "rcfg \<Rightarrow> renv \<Rightarrow> string \<Rightarrow> string \<Rightarrow> string \<Rightarrow> string \<Rightarrow> ureq \<Rightarrow> rstate \<Rightarrow> Repo \<Rightarrow> commit_body \<Rightarrow> (string \<times> string \<times> int) list \<Rightarrow> rstate \<Rightarrow>
    reg_err + CommitResult \<Rightarrow> rstate \<Rightarrow> bool" where
  \<comment> \<open>the way of a commit request as far as the transaction and its result\<close>
  "commit_result cfg env t ns name rv req st repo b inline st1 res st' \<longleftrightarrow>
     GetRepo (reDown env 0) (rhTenant cfg) t ns name (rsDb st) = Inr repo \<and>
     parseCommitNDJSON (if CommitMaxBytes cfg = 0 then defaultCommitMaxBytes else CommitMaxBytes cfg) req = Inr b \<and>
     store_inline env 0 (cbInline b) st = (Some inline, st1) \<and>
     commitWithRetry env \<lparr>ciRepo = rpId repo, ciBranch = rv, ciSummary = cbSummary b, ciDesc = cbDesc b, ciInline = inline,
       ciLFS = cbLFS b, ciDeletes = cbDeletes b\<rparr> (rsDb st1) = (res, rsDb st') \<and> rsBlobs st' = rsBlobs st1"

definition refuses :: "int set \<Rightarrow> ureply \<Rightarrow> bool" where
  "refuses S rep \<longleftrightarrow> (case rep of Forward \<Rightarrow> False | Reply r \<Rightarrow> urStatus r \<in> S \<and> (\<exists>msg. urBody r = UErr msg))"

lemma refuses_error [simp]: "refuses S (Reply (writeJSONError s msg)) \<longleftrightarrow> s \<in> S"
  by (simp add: refuses_def writeJSONError_def)

lemma commit_cases:
  assumes "commit_request cfg env t ns name rv req st = (rep, st')"
  shows "st' = st \<and> refuses {400, 404, 413, 500} rep \<or>
    (\<exists>b. store_inline env 0 b st = (None, st')) \<and> refuses {500} rep \<or>
    (\<exists>repo b inline st1 res. commit_result cfg env t ns name rv req st repo b inline st1 res st' \<and>
      (case res of
         Inl e \<Rightarrow> refuses {if e = ErrBlobMissing \<or> e = ErrCommitPathInvalid then 400 else if e = ErrLFSSizeMismatch then 422 else 500} rep
       | Inr r \<Rightarrow> rep = Reply (uwriteJSON (UCommit (crSHA r) (publicURL cfg @ ''/'' @ FullName repo @ ''/commit/'' @ crSHA r)))) \<and>
      rsAudit st' = (case res of Inl e \<Rightarrow> rsAudit st1 | Inr r \<Rightarrow> rsAudit (audit cfg env ''upload.commit'' (t @ ''/'' @ FullName repo @ ''@'' @ crSHA r) st1)))"
proof -
  let ?cap = "if CommitMaxBytes cfg = 0 then defaultCommitMaxBytes else CommitMaxBytes cfg"
  consider e where "GetRepo (reDown env 0) (rhTenant cfg) t ns name (rsDb st) = Inl e"
    | repo e where "GetRepo (reDown env 0) (rhTenant cfg) t ns name (rsDb st) = Inr repo" "parseCommitNDJSON ?cap req = Inl e"
    | repo b where "GetRepo (reDown env 0) (rhTenant cfg) t ns name (rsDb st) = Inr repo" "parseCommitNDJSON ?cap req = Inr b"
    by (metis sum.exhaust)
  then show ?thesis
  proof cases
    case 3
    obtain r st1 where i: "store_inline env 0 (cbInline b) st = (r, st1)" by fastforce
    show ?thesis
    proof (cases r)
      case None
      with 3 i assms show ?thesis by (auto simp: commit_request_def)
    next
      case (Some inline)
      let ?inp = "\<lparr>ciRepo = rpId repo, ciBranch = rv, ciSummary = cbSummary b, ciDesc = cbDesc b, ciInline = inline, ciLFS = cbLFS b, ciDeletes = cbDeletes b\<rparr>"
      obtain res db where tx: "commitWithRetry env ?inp (rsDb st1) = (res, db)" by fastforce
      have "commit_result cfg env t ns name rv req st repo b inline st1 res st'"
        using 3 i Some tx assms by (cases res) (auto simp: commit_request_def commit_result_def)
      moreover have "case res of
         Inl e \<Rightarrow> refuses {if e = ErrBlobMissing \<or> e = ErrCommitPathInvalid then 400 else if e = ErrLFSSizeMismatch then 422 else 500} rep
       | Inr r \<Rightarrow> rep = Reply (uwriteJSON (UCommit (crSHA r) (publicURL cfg @ ''/'' @ FullName repo @ ''/commit/'' @ crSHA r)))"
        using 3 i Some tx assms by (cases res) (auto simp: commit_request_def)
      moreover have "rsAudit st' = (case res of Inl e \<Rightarrow> rsAudit st1 | Inr r \<Rightarrow> rsAudit (audit cfg env ''upload.commit'' (t @ ''/'' @ FullName repo @ ''@'' @ crSHA r) st1))"
        using 3 i Some tx assms by (cases res) (auto simp: commit_request_def audit_def)
      ultimately show ?thesis by blast
    qed
  next
    case 1
    with assms have "st' = st \<and> refuses {400, 404, 413, 500} rep"
      by (cases "e = RNotFound") (auto simp: commit_request_def)
    then show ?thesis by blast
  next
    case 2
    with assms have "st' = st \<and> refuses {400, 404, 413, 500} rep"
      by (cases e) (auto simp: commit_request_def)
    then show ?thesis by blast
  qed
qed

lemma commit_inv: 
  assumes "reg_inv st"
  shows "reg_inv (snd (commit_request cfg env t ns name rv req st))"
proof -
  obtain rep st' where c: "commit_request cfg env t ns name rv req st = (rep, st')" by fastforce
  have "reg_inv st'" if "commit_result cfg env t ns name rv req st repo b inline st1 res st'" for repo b inline st1 res
  proof -
    have "reg_inv st1" using store_inline_inv [OF assms] that by (auto simp: commit_result_def)
    then have "reg_inv (st1\<lparr>rsDb := rsDb st'\<rparr>)" using commit_attempts_inv that by (auto simp: commit_result_def commitWithRetry_def)
    then show ?thesis using that by (simp add: reg_inv_def commit_result_def)
  qed
  with commit_cases [OF c] assms store_inline_inv [OF assms] c show ?thesis by (elim disjE exE conjE) (auto split: sum.splits)
qed

lemma serveLFSStorage_cases:
  assumes "serveLFSStorage cfg env req st = (rep, st')"
  defines "oid \<equiv> trim_prefix (uqPath req) ''/lfs-storage/''"
  shows "st' = st \<and> refuses {400, 405, 413} rep \<or>
    (\<exists>chunks err trip res bs. oid \<noteq> [] \<and> uqLength req \<le> lfsMaxBytes cfg \<and> lfs_limit (wrap64 (lfsMaxBytes cfg + 1)) (uqChunks req) (uqErr req) (uqEarly req) = (chunks, err, trip) \<and>
       Put (reBlob env 0) (reTmp env 0) chunks err oid (if uqLength req > 0 then uqLength req else 0) (rsBlobs st) = (res, bs) \<and>
       (st' = st\<lparr>rsBlobs := bs\<rparr> \<and> refuses {413, 422, 500, 504} rep \<or>
        (\<exists>s u db. res = Inr s \<and> \<not> (trip \<and> read_all (reBlob env 0) oid chunks) \<and> UpsertBlob (reDown env 0) (bsOID s) (bsSize s) (bsURL s) (rsDb st) = (u, db) \<and>
           st' = st\<lparr>rsBlobs := bs, rsDb := db\<rparr> \<and>
           (u \<noteq> None \<and> refuses {500} rep \<or> u = None \<and> rep = Reply \<lparr>urStatus = 200, urHdr = [], urBody = UNone\<rparr>))))"
proof (cases "uqMethod req \<noteq> ''PUT'' \<or> oid = [] \<or> CHR ''/'' \<in> set oid \<or> uqLength req > lfsMaxBytes cfg")
  case True
  with assms(1) have "st' = st \<and> refuses {400, 405, 413} rep" by (auto simp: serveLFSStorage_def Let_def oid_def split: if_splits)
  then show ?thesis ..
next
  case False
  obtain chunks err trip where l: "lfs_limit (wrap64 (lfsMaxBytes cfg + 1)) (uqChunks req) (uqErr req) (uqEarly req) = (chunks, err, trip)" by (metis prod.exhaust)
  obtain res bs where p: "Put (reBlob env 0) (reTmp env 0) chunks err oid (if uqLength req > 0 then uqLength req else 0) (rsBlobs st) = (res, bs)" by fastforce
  show ?thesis
  proof (cases res)
    case (Inl e)
    with assms(1) False l p have "st' = st\<lparr>rsBlobs := bs\<rparr> \<and> refuses {413, 422, 500, 504} rep"
      unfolding oid_def by (auto simp: serveLFSStorage_def Let_def split: if_splits)
    with False l p show ?thesis by auto
  next
    case (Inr s)
    obtain u db where u: "UpsertBlob (reDown env 0) (bsOID s) (bsSize s) (bsURL s) (rsDb st) = (u, db)" by fastforce
    show ?thesis
    proof (cases "trip \<and> read_all (reBlob env 0) oid chunks")
      case True
      with assms(1) False l p Inr have "st' = st\<lparr>rsBlobs := bs\<rparr> \<and> refuses {413, 422, 500, 504} rep"
        unfolding oid_def by (auto simp: serveLFSStorage_def Let_def split: if_splits)
      with False l p show ?thesis by auto
    next
      case ok: False
      with assms(1) False l p Inr u have "st' = st\<lparr>rsBlobs := bs, rsDb := db\<rparr> \<and>
          (u \<noteq> None \<and> refuses {500} rep \<or> u = None \<and> rep = Reply \<lparr>urStatus = 200, urHdr = [], urBody = UNone\<rparr>)"
        unfolding oid_def by (cases u) (auto simp: serveLFSStorage_def Let_def)
      with False l p Inr u ok show ?thesis by auto
    qed
  qed
qed

lemma serveLFSStorage_inv:
  assumes "reg_inv st"
  shows "reg_inv (snd (serveLFSStorage cfg env req st))"
proof -
  obtain rep st' where c: "serveLFSStorage cfg env req st = (rep, st')" by fastforce
  from serveLFSStorage_cases [OF c] assms have "reg_inv st'" by (elim disjE exE conjE) (auto intro: reg_inv_Put reg_inv_store)
  with c show ?thesis by simp
qed

lemma reg_inv_step: "reg_inv st \<Longrightarrow> reg_inv (snd (RegistryHandler_ServeHTTP cfg env req st))"
  by (simp add: RegistryHandler_ServeHTTP_def serveAPI_def Let_def createRepo_inv commit_inv serveLFSStorage_inv)

lemma reg_inv_run: "reg_inv st \<Longrightarrow> reg_inv (reg_run cfg qs st)"
  by (induction cfg qs st rule: reg_run.induct) (simp_all add: reg_inv_step)

end
