(* ===== verification/Registry_Props.thy ===== *)
theory Registry_Props
  imports Registry_Inv
begin

text \<open>
  What clients of the model registry can rely on: downloads are what their ETag says, a commit can be read back by its id whatever happens later,
  a refused commit leaves no trace in the history, uploads are bounded, and requests for repositories reach the proxy only for declared mirrors.
\<close>

subsection \<open>Integrity of downloads\<close>

lemma in_map_filter: "y \<in> set (List.map_filter g xs) \<longleftrightarrow> (\<exists>x \<in> set xs. g x = Some y)"
  by (induction xs) (auto simp: map_filter_simps split: option.splits)

lemma files_of_row:
  assumes "map_of (files_of cid db) p = Some f"
  shows "\<exists>x \<in> set (blobs db). blOID x = fvOID f \<and> blSize x = fvSize f"
proof -
  have "(p, f) \<in> set (files_of cid db)" using assms by (rule map_of_SomeD)
  then show ?thesis by (auto simp: files_of_def in_map_filter with_size_def dest!: first_row_Some)
qed

lemma LookupFile_row:
  assumes "LookupFile down repo rv p db = Inr (f, c)"
  shows "\<exists>x \<in> set (blobs db). blOID x = fvOID f \<and> blSize x = fvSize f"
  using assms by (auto simp: LookupFile_def split: sum.splits if_splits option.splits intro: files_of_row)

lemma serveResolve_bytes:
  assumes "reg_inv st" "serveResolve cfg env req st = Reply r" "urBody r = UBytes body"
  shows "\<exists>f c b d. r = resolve_answer req f c b \<and> oid_of b = fvOID f \<and> oid_of d = fvOID f \<and> int (length d) = fvSize f"
proof -
  obtain rv p f c b s and repo :: Repo where l: "LookupFile (reDown env \<circ> Suc) (rpId repo) rv p (rsDb st) = Inr (f, c)"
    "Open (reBlob env 0) (fvOID f) (rsBlobs st) = Inr (b, s)" "r = resolve_answer req f c b"
    using assms(2,3) by (auto simp: serveResolve_def fallbackOrNotFound_def writeJSONError_def split: option.splits sum.splits if_splits)
  obtain x where "x \<in> set (blobs (rsDb st))" "blOID x = fvOID f" "blSize x = fvSize f" using LookupFile_row [OF l(1)] by blast
  then have "\<exists>d. oid_of d = fvOID f \<and> int (length d) = fvSize f" using assms(1) by (force simp: reg_inv_def blob_backed_def)
  moreover have "oid_of b = fvOID f" using l(2) assms(1) by (auto simp: Open_def reg_inv_def addressed_def split: if_splits option.splits)
  ultimately show ?thesis using l(3) by blast
qed

definition no_bytes :: "ureply \<Rightarrow> bool" where
  "no_bytes rep \<longleftrightarrow> (case rep of Forward \<Rightarrow> True | Reply r \<Rightarrow> (\<forall>b. urBody r \<noteq> UBytes b))"

lemma no_bytes_simps [simp]:
  "no_bytes Forward" "no_bytes (Reply (writeJSONError s m))" "no_bytes (Reply (uwriteJSON x)) \<longleftrightarrow> (\<forall>b. x \<noteq> UBytes b)"
  "no_bytes (Reply \<lparr>urStatus = k, urHdr = h, urBody = x\<rparr>) \<longleftrightarrow> (\<forall>b. x \<noteq> UBytes b)"
  by (simp_all add: no_bytes_def writeJSONError_def uwriteJSON_def)

lemma no_bytes_refuses: "refuses S rep \<Longrightarrow> no_bytes rep"
  by (auto simp: refuses_def no_bytes_def split: ureply.splits)

lemma no_bytes_listings:
  "no_bytes (fallbackOrNotFound cfg env t ns name st)" "no_bytes (modelInfo cfg env t ns name st)" "no_bytes (tree cfg env t ns name rv st)"
  "no_bytes (pathsInfo cfg env t ns name rv req st)" "no_bytes (preupload cfg env t ns name req st)"
proof -
  show f: "no_bytes (fallbackOrNotFound cfg env t ns name st)" by (simp add: fallbackOrNotFound_def split: sum.split)
  show "no_bytes (modelInfo cfg env t ns name st)" by (simp add: modelInfo_def f split: option.split prod.split)
  show "no_bytes (tree cfg env t ns name rv st)" by (simp add: tree_def f split: sum.split prod.split)
  show "no_bytes (pathsInfo cfg env t ns name rv req st)" by (simp add: pathsInfo_def f split: sum.split prod.split)
  show "no_bytes (preupload cfg env t ns name req st)" by (simp add: preupload_def Let_def split: sum.split option.split)
qed

lemma no_bytes_writes:
  "no_bytes (fst (createRepo cfg env req st))" "no_bytes (fst (commit_request cfg env t ns name rv req st))" "no_bytes (fst (serveLFSStorage cfg env req st))"
  "no_bytes (serveLFSGit cfg env req st)"
proof -
  show "no_bytes (fst (createRepo cfg env req st))" by (simp add: createRepo_def Let_def split: option.split sum.split prod.split)
  show "no_bytes (fst (commit_request cfg env t ns name rv req st))"
    using commit_cases [OF surjective_pairing, where cfg = cfg and env = env and t = t and ns = ns and name = name and rv = rv and req = req and st = st]
    by (elim disjE exE conjE) (auto simp: no_bytes_refuses split: sum.splits)
  show "no_bytes (fst (serveLFSStorage cfg env req st))"
    using serveLFSStorage_cases [OF surjective_pairing, where cfg = cfg and env = env and req = req and st = st]
    by (elim disjE exE conjE) (auto simp: no_bytes_refuses)
  show "no_bytes (serveLFSGit cfg env req st)"
    by (simp add: serveLFSGit_def lfsBatch_def lfsVerify_def Let_def split: option.split list.split sum.split prod.split)
qed

lemma bytes_from_resolve:
  assumes "RegistryHandler_ServeHTTP cfg env req st = (Reply r, st')" "urBody r = UBytes b"
  shows "serveResolve cfg env req st = Reply r"
proof -
  have "fst (RegistryHandler_ServeHTTP cfg env req st) = serveResolve cfg env req st \<or> no_bytes (fst (RegistryHandler_ServeHTTP cfg env req st))"
    by (simp add: RegistryHandler_ServeHTTP_def serveAPI_def Let_def no_bytes_listings no_bytes_writes)
  with assms show ?thesis by (auto simp: no_bytes_def)
qed

lemma parseSimpleRange_bounds: "parseSimpleRange h n = Some (s, e) \<Longrightarrow> 0 \<le> s \<and> s \<le> e \<and> e < n"
  by (auto simp: parseSimpleRange_def Let_def split: if_splits option.splits)

lemma canon_registry:
  "CanonicalHeaderKey ''ETag'' = ''Etag''" "CanonicalHeaderKey ''X-Linked-Size'' = ''X-Linked-Size''" "CanonicalHeaderKey ''X-Linked-Etag'' = ''X-Linked-Etag''"
  "CanonicalHeaderKey ''X-Repo-Commit'' = ''X-Repo-Commit''" "CanonicalHeaderKey ''Accept-Ranges'' = ''Accept-Ranges''"
  "CanonicalHeaderKey ''Content-Type'' = ''Content-Type''"
  by code_simp+

lemmas resolve_fields = hdr_get_set canon_registry resolve_head_def

definition range_answer :: "string \<Rightarrow> int \<Rightarrow> uresp \<Rightarrow> bool" where
  \<comment> \<open>a partial answer for content \<open>b\<close> of size \<open>n\<close>: the announced bytes of it\<close>
  "range_answer b n r \<longleftrightarrow> (\<exists>s e. 0 \<le> s \<and> s \<le> e \<and> e < n \<and>
     hdr_get (urHdr r) ''Content-Range'' = ''bytes '' @ format_int s @ ''-'' @ format_int e @ ''/'' @ format_int n \<and>
     hdr_get (urHdr r) ''Content-Length'' = format_int (e - s + 1) \<and> urBody r = UBytes (take (nat (e - s + 1)) (drop (nat s) b)))"


subsection \<open>Commits stay what they are\<close>

definition extends :: "regdb \<Rightarrow> regdb \<Rightarrow> bool" where
  \<comment> \<open>repositories and commits are still there, with the same trees\<close>
  "extends db db' \<longleftrightarrow>
     (\<forall>repo sha. commit_at repo sha db \<noteq> None \<longrightarrow> commit_at repo sha db' = commit_at repo sha db \<and> tree_of db' repo sha = tree_of db repo sha) \<and>
     (\<forall>p r. first_row p (repos db) = Some r \<longrightarrow> first_row p (repos db') = Some r)"

lemma extends_refl [simp]: "extends db db"
  by (simp add: extends_def)

lemma extends_trans: "extends db1 db2 \<Longrightarrow> extends db2 db3 \<Longrightarrow> extends db1 db3"
  unfolding extends_def by metis

lemma map_filter_eq: "(\<And>x. x \<in> set xs \<Longrightarrow> f x = g x) \<Longrightarrow> xs = ys \<Longrightarrow> List.map_filter f xs = List.map_filter g ys"
  by (induction xs arbitrary: ys) (auto simp: map_filter_simps split: option.split)

lemma files_of_blobs:
  assumes "reg_ok db"
  shows "files_of cid (db\<lparr>blobs := blobs db @ xs\<rparr>) = files_of cid db"
proof -
  have "with_size (db\<lparr>blobs := blobs db @ xs\<rparr>) f = with_size db f" if "f \<in> set (files db)" for f
  proof -
    have "frOID f \<in> blOID ` set (blobs db)" using assms that by (simp add: reg_ok_def)
    then have "first_row (\<lambda>b. blOID b = frOID f) (blobs db) \<noteq> None" by (auto simp: first_row_None)
    then show ?thesis by (auto simp: with_size_def first_row_append)
  qed
  then show ?thesis unfolding files_of_def by (intro map_filter_eq) simp_all
qed

lemma extends_UpsertBlob:
  assumes "reg_ok db" "UpsertBlob down oid n url db = (u, db')"
  shows "extends db db'"
proof -
  have "db' = db \<or> (\<exists>xs. db' = db\<lparr>blobs := blobs db @ xs\<rparr>)" using assms(2) by (auto simp: UpsertBlob_def split: if_splits)
  moreover have "commit_at r s (db\<lparr>blobs := b\<rparr>) = commit_at r s db" for r s b by (simp add: commit_at_def)
  ultimately show ?thesis using files_of_blobs [OF assms(1)] by (auto simp: extends_def tree_of_def)
qed

lemma extends_CommitTx:
  assumes "CommitTx env inp db = (res, db')"
  shows "extends db db'"
proof (cases res)
  case (Inl e)
  with assms CommitTx_error show ?thesis by fastforce
next
  case (Inr r)
  have "repos db' = repos db" using CommitTx_ok(1) [OF assms [unfolded Inr]] by (simp add: commit_rows_def)
  then show ?thesis using CommitTx_old_tree [OF assms [unfolded Inr]] by (simp add: extends_def)
qed

lemma extends_CreateRepo: "CreateRepo down i ten t ns n pv db = (res, db') \<Longrightarrow> extends db db'"
  by (auto simp: CreateRepo_def Let_def extends_def commit_at_def tree_of_def files_of_def with_size_def first_row_append split: if_splits option.splits)

lemma extends_store_inline: "reg_inv st \<Longrightarrow> store_inline env k fs st = (res, st') \<Longrightarrow> extends (rsDb st) (rsDb st')"
proof (induction env k fs st arbitrary: res rule: store_inline.induct)
  case (2 env k p body fs st)
  obtain r bs where put: "Put (reBlob env k) (reTmp env k) [body] None [] 0 (rsBlobs st) = (r, bs)" by fastforce
  show ?case
  proof (cases r)
    case (Inl e)
    with put 2 show ?thesis by auto
  next
    case (Inr s)
    obtain u db where up: "UpsertBlob (reDown env (Suc k)) (bsOID s) (bsSize s) (bsURL s) (rsDb st) = (u, db)" by fastforce
    have inv: "reg_inv (st\<lparr>rsBlobs := bs, rsDb := db\<rparr>)" using reg_inv_store [OF 2(2) put [unfolded Inr] up] .
    have ext: "extends (rsDb st) db" using extends_UpsertBlob [OF _ up] 2(2) by (simp add: reg_inv_def)
    show ?thesis
    proof (cases u)
      case None
      have "extends db (rsDb st')" using 2(1) [OF put [symmetric] Inr up [symmetric] None inv] 2(3) put Inr up None
        by (auto split: prod.splits option.splits)
      with ext show ?thesis by (rule extends_trans)
    qed (use 2 put up Inr ext in auto)
  qed
qed simp

lemma extends_attempts: "commit_attempts env inp k n e db = (res, db') \<Longrightarrow> extends db db'"
proof (induction n arbitrary: k e db)
  case (Suc n)
  obtain r db1 where tx: "CommitTx (reTx env k) inp db = (r, db1)" by fastforce
  have "extends db db1" by (rule extends_CommitTx [OF tx])
  with Suc.IH [of "Suc k" _ db1] Suc.prems tx show ?case by (auto split: sum.splits if_splits intro: extends_trans)
qed simp

lemma commit_result_extends:
  assumes "reg_inv st" "commit_result cfg env t ns name rv req st repo b inline st1 res st'"
  shows "extends (rsDb st) (rsDb st')"
proof -
  have "extends (rsDb st) (rsDb st1)" using assms extends_store_inline by (auto simp: commit_result_def)
  moreover have "extends (rsDb st1) (rsDb st')" using assms(2) extends_attempts by (auto simp: commit_result_def commitWithRetry_def)
  ultimately show ?thesis by (rule extends_trans)
qed

lemma extends_step:
  assumes "reg_inv st"
  shows "extends (rsDb st) (rsDb (snd (RegistryHandler_ServeHTTP cfg env req st)))"
proof -
  have a: "extends (rsDb st) (rsDb (snd (createRepo cfg env req st)))"
    by (auto simp: createRepo_def Let_def extends_CreateRepo split: option.split sum.split prod.split)
  have b: "extends (rsDb st) (rsDb (snd (commit_request cfg env t ns name rv req st)))" for t ns name rv
    using commit_cases [OF surjective_pairing, where cfg = cfg and env = env and t = t and ns = ns and name = name and rv = rv and req = req and st = st]
    by (elim disjE exE conjE) (auto intro: commit_result_extends [OF assms] extends_store_inline [OF assms])
  have c: "extends (rsDb st) (rsDb (snd (serveLFSStorage cfg env req st)))"
    using serveLFSStorage_cases [OF surjective_pairing, where cfg = cfg and env = env and req = req and st = st] assms
    by (elim disjE exE conjE) (auto simp: reg_inv_def intro: extends_UpsertBlob)
  show ?thesis by (simp add: RegistryHandler_ServeHTTP_def serveAPI_def Let_def a b c)
qed

lemma extends_run: "reg_inv st \<Longrightarrow> extends (rsDb st) (rsDb (reg_run cfg qs st))"
proof (induction cfg qs st rule: reg_run.induct)
  case (2 cfg env req qs st)
  have "extends (rsDb st) (rsDb (snd (RegistryHandler_ServeHTTP cfg env req st)))" by (rule extends_step [OF 2(2)])
  moreover have "extends (rsDb (snd (RegistryHandler_ServeHTTP cfg env req st))) (rsDb (reg_run cfg qs (snd (RegistryHandler_ServeHTTP cfg env req st))))"
    by (rule 2(1) [OF reg_inv_step [OF 2(2)]])
  ultimately show ?case unfolding reg_run.simps by (rule extends_trans)
qed simp

subsection \<open>What a commit request does\<close>

lemma commit_line_inline:
  assumes "commit_line b l = Inr b'"
  obtains "cbInline b' = cbInline b" | p c where "cbInline b' = AList.update p c (cbInline b)"
proof (cases "commit_env l")
  case None
  with assms show thesis by (simp add: commit_line_def)
next
  case (Some kv)
  obtain k val where kv: "kv = (k, val)" by fastforce
  note line = assms [unfolded commit_line_def Some kv option.case prod.case]
  consider "k = ''header''" | "k = ''file''" | "k = ''lfsFile''" | "k = ''deletedFile'' \<or> k = ''deletedFolder''"
    | "k \<noteq> ''header''" "k \<noteq> ''file''" "k \<noteq> ''lfsFile''" "\<not> (k = ''deletedFile'' \<or> k = ''deletedFolder'')" by blast
  then show thesis
  proof cases
    case 1
    with line have "cbInline b' = cbInline b" by (cases "Option.bind val commit_header") (auto simp: split_beta)
    then show thesis by (rule that(1))
  next
    case 2
    with line obtain x where "b\<lparr>cbInline := AList.update (fst x) (snd x) (cbInline b)\<rparr> = b'"
      by (cases "Option.bind val commit_file") (simp_all add: split_beta)
    then have "cbInline b' = AList.update (fst x) (snd x) (cbInline b)" by auto
    then show thesis by (rule that(2))
  next
    case 3
    with line have "cbInline b' = cbInline b" by (cases "Option.bind val commit_lfs") (auto simp: split_beta)
    then show thesis by (rule that(1))
  next
    case 4
    then have "k \<noteq> ''header''" "k \<noteq> ''file''" "k \<noteq> ''lfsFile''" by auto
    note step = line [unfolded if_not_P [OF this(1)] if_not_P [OF this(2)] if_not_P [OF this(3)] if_P [OF 4]]
    then have "cbInline b' = cbInline b" by (cases "Option.bind val (jstring ''path'')") auto
    then show thesis by (rule that(1))
  next
    case 5
    with line have "b' = b" by simp
    then show thesis by (intro that(1)) simp
  qed
qed

lemma commit_line_distinct:
  "distinct (map fst (cbInline b)) \<Longrightarrow> commit_line b l = Inr b' \<Longrightarrow> distinct (map fst (cbInline b'))"
  by (erule commit_line_inline) (simp_all add: AList.distinct_update)

lemma commit_lines_distinct:
  "distinct (map fst (cbInline b)) \<Longrightarrow> commit_lines b ls = Inr b' \<Longrightarrow> distinct (map fst (cbInline b'))"
  by (induction b ls rule: commit_lines.induct) (auto dest: commit_line_distinct split: sum.splits)

lemma parseCommit_distinct: "parseCommitNDJSON cap req = Inr b \<Longrightarrow> distinct (map fst (cbInline b))"
  by (auto simp: parseCommitNDJSON_def Let_def split: sum.splits if_splits dest: commit_lines_distinct [rotated])

lemma store_inline_Some:
  assumes "store_inline env k ((p, body) # fs) st = (Some xs, st')"
  obtains s bs db ys where "Put (reBlob env k) (reTmp env k) [body] None [] 0 (rsBlobs st) = (Inr s, bs)"
    "UpsertBlob (reDown env (Suc k)) (bsOID s) (bsSize s) (bsURL s) (rsDb st) = (None, db)"
    "store_inline env (Suc k) fs (st\<lparr>rsBlobs := bs, rsDb := db\<rparr>) = (Some ys, st')" "xs = (p, bsOID s, bsSize s) # ys"
proof -
  obtain r bs where put: "Put (reBlob env k) (reTmp env k) [body] None [] 0 (rsBlobs st) = (r, bs)" by fastforce
  with assms obtain s where s: "r = Inr s" by (cases r) simp_all
  obtain u db where up: "UpsertBlob (reDown env (Suc k)) (bsOID s) (bsSize s) (bsURL s) (rsDb st) = (u, db)" by fastforce
  with assms put s have u: "u = None" by (cases u) simp_all
  obtain ys st1 where ys: "store_inline env (Suc k) fs (st\<lparr>rsBlobs := bs, rsDb := db\<rparr>) = (ys, st1)" by fastforce
  with assms put s up u obtain zs where "ys = Some zs" "st1 = st'" "xs = (p, bsOID s, bsSize s) # zs" by (cases ys) simp_all
  with that put s up u ys show thesis by simp
qed

lemma store_inline_files:
  "reg_inv st \<Longrightarrow> store_inline env k fs st = (Some xs, st') \<Longrightarrow> xs = map (\<lambda>(p, c). (p, oid_of c, int (length c))) fs"
proof (induction fs arbitrary: k st xs)
  case (Cons pc fs)
  obtain p body where pc: "pc = (p, body)" by fastforce
  from Cons.prems(2) obtain s bs db ys where f: "Put (reBlob env k) (reTmp env k) [body] None [] 0 (rsBlobs st) = (Inr s, bs)"
    "UpsertBlob (reDown env (Suc k)) (bsOID s) (bsSize s) (bsURL s) (rsDb st) = (None, db)"
    "store_inline env (Suc k) fs (st\<lparr>rsBlobs := bs, rsDb := db\<rparr>) = (Some ys, st')" "xs = (p, bsOID s, bsSize s) # ys"
    unfolding pc by (rule store_inline_Some)
  have "bsOID s = oid_of body \<and> bsSize s = int (length body)" using lbs.put_stored [OF _ f(1)] Cons.prems(1) by (simp add: reg_inv_def)
  with Cons.IH [OF reg_inv_store [OF Cons.prems(1) f(1,2)] f(3)] f(4) pc show ?case by simp
qed simp

lemma attempts_step:
  "commit_attempts env inp k (Suc n) e db =
     (if reCancel env k then (Inl RCanceled, db)
      else if fst (CommitTx (reTx env k) inp db) = Inl SerializationFailure then commit_attempts env inp (Suc k) n SerializationFailure db
      else CommitTx (reTx env k) inp db)"
proof -
  obtain x db1 where tx: "CommitTx (reTx env k) inp db = (x, db1)" by fastforce
  show ?thesis
  proof (cases x)
    case (Inl e1)
    with tx have "db1 = db" using CommitTx_error [of "reTx env k" inp db e1 db1] by simp
    with Inl tx show ?thesis by simp
  qed (simp add: tx)
qed

lemma attempts_ok: "commit_attempts env inp k n e db = (Inr r, db') \<Longrightarrow> \<exists>j. CommitTx (reTx env j) inp db = (Inr r, db')"
proof (induction n arbitrary: k e)
  case (Suc n)
  then show ?case unfolding attempts_step by (metis Inl_Inr_False fst_conv)
qed simp

lemma attempts_error: "commit_attempts env inp k n e db = (Inl e', db') \<Longrightarrow> db' = db"
proof (induction n arbitrary: k e)
  case (Suc n)
  then show ?case unfolding attempts_step by (metis CommitTx_error prod.inject)
qed simp

lemma commit_succeeds:
  assumes "commit_request cfg env t ns name rv req st = (Reply r, st')" "urBody r = UCommit sha url"
  obtains repo b inline st1 res where "commit_result cfg env t ns name rv req st repo b inline st1 (Inr res) st'" "crSHA res = sha"
proof -
  have no: "\<not> refuses S (Reply r)" for S using assms(2) by (simp add: refuses_def)
  from commit_cases [OF assms(1)] no obtain repo b inline st1 res where
    c: "commit_result cfg env t ns name rv req st repo b inline st1 res st'"
      "case res of Inl e \<Rightarrow> False | Inr x \<Rightarrow> Reply r = Reply (uwriteJSON (UCommit (crSHA x) (publicURL cfg @ ''/'' @ FullName repo @ ''/commit/'' @ crSHA x)))"
    by (elim disjE exE conjE) (auto split: sum.splits)
  then show thesis using that assms(2) by (auto simp: uwriteJSON_def split: sum.splits)
qed

lemma validOID_oid_of [simp]: "validOID (oid_of b)"
  by (auto simp: validOID_def oid_of_def list_all_iff dest: hex_encode_is_hex)

lemma isHex_commit_sha [simp]: "isHex (deriveCommitSHA sm now par nonce)"
  by (auto simp: isHex_def deriveCommitSHA_def list_all_iff dest!: in_set_takeD hex_encode_is_hex)

lemma commit_file_in_tree:
  assumes inv: "reg_inv st" and c: "commit_result cfg env t ns name rv req st repo b inline st1 (Inr res) st'"
    and p: "map_of (cbInline b) p = Some content" "p \<notin> fst ` set (cbLFS b)"
  shows "tree_of (rsDb st') (rpId repo) (crSHA res) p = Some (oid_of content, False)"
    "commit_at (rpId repo) (crSHA res) (rsDb st') \<noteq> None" "isHexN (crSHA res) 40"
proof -
  let ?inp = "\<lparr>ciRepo = rpId repo, ciBranch = rv, ciSummary = cbSummary b, ciDesc = cbDesc b, ciInline = inline, ciLFS = cbLFS b, ciDeletes = cbDeletes b\<rparr>"
  have inline: "inline = map (\<lambda>(p, c). (p, oid_of c, int (length c))) (cbInline b)" and inv1: "reg_inv st1"
    using c store_inline_files [OF inv] store_inline_inv [OF inv] by (auto simp: commit_result_def)
  obtain j where tx: "CommitTx (reTx env j) ?inp (rsDb st1) = (Inr res, rsDb st')"
    using c attempts_ok unfolding commit_result_def commitWithRetry_def by blast
  have "distinct (map fst (cbInline b))" using c parseCommit_distinct by (auto simp: commit_result_def)
  moreover have "(p, content) \<in> set (cbInline b)" using p(1) by (rule map_of_SomeD)
  ultimately have "map_of (rev (map (\<lambda>(p, c). (p, oid_of c, False)) (cbInline b))) p = Some (oid_of content, False)"
    by (intro map_of_is_SomeI) (auto simp: rev_map [symmetric] split_def comp_def intro: rev_image_eqI)
  moreover have "map (\<lambda>(p, oid, n). (p, oid, False)) inline = map (\<lambda>(p, c). (p, oid_of c, False)) (cbInline b)" by (simp add: inline split_def comp_def)
  moreover have "map_of (rev (map (\<lambda>(p, oid, n). (p, oid, True)) (cbLFS b))) p = None" using p(2) by (force simp: map_of_eq_None_iff)
  ultimately have "apply_commit ?inp m p = Some (oid_of content, False)" for m by (simp add: apply_commit_def map_add_def)
  then show "tree_of (rsDb st') (rpId repo) (crSHA res) p = Some (oid_of content, False)"
    using CommitTx_new_tree [OF _ tx] inv1 by (simp add: reg_inv_def)
  then show "commit_at (rpId repo) (crSHA res) (rsDb st') \<noteq> None" by (auto simp: tree_of_def split: option.splits)
  show "isHexN (crSHA res) 40" using CommitTx_ok(2) [OF tx] by (simp add: isHexN_def)
qed

lemma ResolveBranch_sha:
  assumes "commit_at repo sha db \<noteq> None" "isHexN sha 40" "branch_head db repo sha = None" "\<And>i. \<not> down i"
  shows "ResolveBranch down repo sha db = Inr sha"
proof -
  obtain c where c: "commit_at repo sha db = Some c" using assms(1) by blast
  have "sha \<noteq> []" "length sha = 40" "isHex sha" using assms(2) by (auto simp: isHexN_def)
  then show ?thesis using assms(3,4) c commit_at_mem [OF c] by (simp add: ResolveBranch_def Let_def branch_head_def commit_at_def)
qed

lemma LookupFile_tree:
  assumes "tree_of db repo sha p = Some (oid, k)" "ResolveBranch down repo rv db = Inr sha" "\<And>i. \<not> down i"
  shows "\<exists>f c. LookupFile down repo rv p db = Inr (f, c) \<and> fvOID f = oid \<and> cmSHA c = sha"
proof -
  obtain c f where c: "commit_at repo sha db = Some c" "map_of (files_of (cmId c) db) p = Some f" "fvOID f = oid"
    using assms(1) by (auto simp: tree_of_def split: option.splits)
  have "cmSHA c = sha" using commit_at_mem [OF c(1)] by simp
  then show ?thesis using c assms(2,3) by (simp add: LookupFile_def)
qed

lemma serve_file:
  assumes inv: "reg_inv st" and tree: "tree_of (rsDb st) (rpId repo) sha p = Some (oid, k)"
    and path: "parseResolvePath (uqPath q) = Some (t, ns, name, rv, p)" and repo: "first_row (repo_at (rhTenant cfg) t ns name) (repos (rsDb st)) = Some repo"
    and rev: "ResolveBranch (reDown env \<circ> Suc) (rpId repo) rv (rsDb st) = Inr sha"
    and calm: "\<And>k. \<not> reDown env k" "\<not> bOpen (reBlob env 0)" "\<not> bStat (reBlob env 0)" and oid: "validOID oid"
  shows "\<exists>b f c. serveResolve cfg env q st = Reply (resolve_answer q f c b) \<and> oid_of b = oid \<and> cmSHA c = sha"
proof -
  have "\<not> (reDown env \<circ> Suc) i" for i using calm(1) by simp
  from LookupFile_tree [OF tree rev this] obtain f c where
    l: "LookupFile (reDown env \<circ> Suc) (rpId repo) rv p (rsDb st) = Inr (f, c)" "fvOID f = oid" "cmSHA c = sha" by blast
  obtain x where "x \<in> set (blobs (rsDb st))" "blOID x = fvOID f" using LookupFile_row [OF l(1)] by blast
  then have "blobDir (rsBlobs st) oid \<noteq> None" using inv l(2) by (auto simp: reg_inv_def blob_backed_def)
  then obtain b where b: "blobDir (rsBlobs st) oid = Some b" "oid_of b = oid" using inv by (auto simp: reg_inv_def addressed_def)
  have "serveResolve cfg env q st = Reply (resolve_answer q f c b)"
    using path repo l calm b oid by (simp add: serveResolve_def Open_def GetRepo_def)
  with b(2) l(3) show ?thesis by blast
qed

abbreviation commitCap :: "rcfg \<Rightarrow> int" where
  "commitCap cfg \<equiv> (if CommitMaxBytes cfg = 0 then defaultCommitMaxBytes else CommitMaxBytes cfg)"


subsection \<open>A registry with one commit\<close>

definition calm_env :: renv where
  "calm_env = \<lparr>reDown = (\<lambda>_. False), reTx = (\<lambda>_. calm_tx ''c''), reCancel = (\<lambda>_. False), reBlob = (\<lambda>_. calm), reTmp = id, reId = ''i'', reAuditDown = False\<rparr>"

definition reg_demo_cfg :: rcfg where
  "reg_demo_cfg = \<lparr>rhTenant = ''t'', PublicURL = ''u/'', LFSMaxBytes = 0, CommitMaxBytes = 0, rhAudit = True\<rparr>"

definition reg_demo_state :: rstate where
  "reg_demo_state = \<lparr>rsDb = demo_reg\<lparr>blobs := []\<rparr>, rsBlobs = \<lparr>root = ''d'', tmpDir = Map.empty, blobDir = Map.empty\<rparr>, rsAudit = []\<rparr>"

definition reg_demo_req :: "string \<Rightarrow> string \<Rightarrow> ureq" where
  "reg_demo_req m p = \<lparr>uqMethod = m, uqPath = p, uqRange = [], uqLength = -1, uqJson = None, uqLines =
     [Some (JObj [(''key'', JStr ''header''), (''value'', JObj [(''summary'', JStr ''s'')])]),
      Some (JObj [(''key'', JStr ''file''), (''value'', JObj [(''path'', JStr ''a''), (''content'', JStr ''hi'')])])],
     uqSize = 99, uqSeen = 0, uqBroken = False, uqChunks = [], uqErr = None, uqEarly = False\<rparr>"

definition reg_demo_body :: commit_body where
  "reg_demo_body = \<lparr>cbSummary = ''s'', cbDesc = [], cbInline = [(''a'', ''hi'')], cbLFS = [], cbDeletes = []\<rparr>"

lemma demo_lines_parse: "parseCommitNDJSON (commitCap reg_demo_cfg) (reg_demo_req m p) = Inr reg_demo_body"
  unfolding reg_demo_req_def reg_demo_body_def reg_demo_cfg_def by code_simp

lemma demo_put_body:
  "Put calm n [b] None [] 0 (rsBlobs reg_demo_state) =
     (Inr (stat_of (rsBlobs reg_demo_state) b), (rsBlobs reg_demo_state)\<lparr>blobDir := [oid_of b \<mapsto> b]\<rparr>)"
  by (simp add: Put_def calm_def finish_put_def checked_def install_def drop_tmp_def reg_demo_state_def stat_of_def storageURL_def blob_path_def)

lemma isHexN_oid_of [simp]: "isHexN (oid_of b) 64"
  using validOID_oid_of [of b] by (simp add: validOID_def isHexN_def isHex_def)

definition demo_stored :: rstate where
  "demo_stored = reg_demo_state\<lparr>rsBlobs := (rsBlobs reg_demo_state)\<lparr>blobDir := [oid_of ''hi'' \<mapsto> ''hi'']\<rparr>,
     rsDb := (rsDb reg_demo_state)\<lparr>blobs := [\<lparr>blOID = oid_of ''hi'', blSize = 2, blURL = storageURL (rsBlobs reg_demo_state) (oid_of ''hi''), blRef = 0\<rparr>]\<rparr>\<rparr>"

lemma demo_store_inline: "store_inline calm_env 0 [(''a'', ''hi'')] reg_demo_state = (Some [(''a'', oid_of ''hi'', 2)], demo_stored)"
proof -
  have "blobs (rsDb reg_demo_state) = []" "reBlob calm_env 0 = calm" "\<not> reDown calm_env 1" by (simp_all add: reg_demo_state_def calm_env_def)
  then show ?thesis by (simp add: demo_put_body UpsertBlob_def stat_of_def demo_stored_def)
qed

lemma demo_tx:
  "\<exists>res db. commitWithRetry calm_env \<lparr>ciRepo = ''r'', ciBranch = ''main'', ciSummary = ''s'', ciDesc = [], ciInline = [(''a'', oid_of ''hi'', 2)], ciLFS = [],
     ciDeletes = []\<rparr> (rsDb demo_stored) = (Inr res, db) \<and> crBranch res = ''main'' \<and> branch_head db ''r'' = [''main'' \<mapsto> crSHA res]"
proof -
  let ?inp = "\<lparr>ciRepo = ''r'', ciBranch = ''main'', ciSummary = ''s'', ciDesc = [], ciInline = [(''a'', oid_of ''hi'', 2)], ciLFS = [], ciDeletes = []\<rparr>"
  have ok: "ValidateCommitFilePath ''a''" "branch_name_ok ''main''" by code_simp+
  obtain res db where tx: "CommitTx (calm_tx ''c'') ?inp (rsDb demo_stored) = (Inr res, db)" "crBranch res = ''main''"
    by (simp add: CommitTx_def demo_stored_def reg_demo_state_def demo_reg_def empty_reg_def calm_tx_def commit_error_def fails_def ok new_tree_def check_blobs_def
      first_row_def commit_at_def Let_def)
  have "branches (rsDb demo_stored) = []" by (simp add: demo_stored_def reg_demo_state_def demo_reg_def empty_reg_def)
  then have "branch_head db ''r'' = [''main'' \<mapsto> crSHA res]"
    using CommitTx_branches [OF tx(1)] tx(2) by (auto simp: fun_eq_iff branch_head_def first_row_def)
  moreover have "commitWithRetry calm_env ?inp (rsDb demo_stored) = (Inr res, db)"
    using tx(1) by (simp add: commitWithRetry_def maxAttempts_def numeral_eq_Suc attempts_step calm_env_def)
  ultimately show ?thesis using tx(2) by blast
qed

lemma demo_commit_run:
  "\<exists>r st1 sha url. commit_request reg_demo_cfg calm_env ''models'' ''o'' ''m'' ''main'' (reg_demo_req m p) reg_demo_state = (Reply r, st1) \<and> urBody r = UCommit sha url \<and>
     isHexN sha 40 \<and> branch_head (rsDb st1) ''r'' sha = None \<and> branch_head (rsDb st1) ''r'' ''main'' = Some sha"
proof -
  have g: "GetRepo (reDown calm_env 0) (rhTenant reg_demo_cfg) ''models'' ''o'' ''m'' (rsDb reg_demo_state) = Inr (hd (repos demo_reg))"
    by (simp add: GetRepo_def calm_env_def reg_demo_cfg_def reg_demo_state_def demo_reg_def first_row_def repo_at_def)
  have h: "rpId (hd (repos demo_reg)) = ''r''" by (simp add: demo_reg_def)
  obtain res db where tx: "commitWithRetry calm_env \<lparr>ciRepo = ''r'', ciBranch = ''main'', ciSummary = ''s'', ciDesc = [], ciInline = [(''a'', oid_of ''hi'', 2)], ciLFS = [],
     ciDeletes = []\<rparr> (rsDb demo_stored) = (Inr res, db)" "branch_head db ''r'' = [''main'' \<mapsto> crSHA res]" using demo_tx by blast
  have "length (crSHA res) = 40 \<and> isHex (crSHA res)"
    using attempts_ok [OF tx(1) [unfolded commitWithRetry_def]] CommitTx_ok(2) by auto
  moreover have "branch_head db ''r'' (crSHA res) = None" using calculation tx(2) by auto
  moreover have "cbInline reg_demo_body = [(''a'', ''hi'')]" "cbSummary reg_demo_body = ''s''" "cbDesc reg_demo_body = []" "cbLFS reg_demo_body = []" "cbDeletes reg_demo_body = []"
    by (simp_all add: reg_demo_body_def)
  ultimately show ?thesis
    using g h tx demo_store_inline demo_lines_parse [of m p] by (simp add: commit_request_def isHexN_def uwriteJSON_def)
qed

lemma reg_demo_start: "no_uploads reg_demo_state" "reg_inv reg_demo_state"
proof -
  show "no_uploads reg_demo_state" by (simp add: no_uploads_def reg_demo_state_def demo_reg_def empty_reg_def)
  then show "reg_inv reg_demo_state" by (rule no_uploads_inv)
qed

lemma resolve_path: "isHexN sha 40 \<Longrightarrow> parseResolvePath (''/o/m/resolve/'' @ sha @ ''/a'') = Some (''models'', ''o'', ''m'', sha, ''a'')"
proof -
  assume "isHexN sha 40"
  then have "CHR ''/'' \<notin> set sha" by (auto simp: isHexN_def isHex_def list_all_iff is_hex_def)
  then have "split_on CHR ''/'' (join_with ''/'' [''o'', ''m'', ''resolve'', sha, ''a'']) = [''o'', ''m'', ''resolve'', sha, ''a'']"
    by (intro split_on_join) auto
  then show ?thesis by (simp add: parseResolvePath_def trim_prefix_def has_prefix_def Let_def)
qed


lemma demo_routes:
  "RegistryHandler_ServeHTTP cfg env (reg_demo_req ''POST'' ''/api/models/o/m/commit/main'') st =
     commit_request cfg env ''models'' ''o'' ''m'' ''main'' (reg_demo_req ''POST'' ''/api/models/o/m/commit/main'') st"
  "RegistryHandler_ServeHTTP cfg env (reg_demo_req ''GET'' ''/o/m/resolve/main/a'') st =
     (serveResolve cfg env (reg_demo_req ''GET'' ''/o/m/resolve/main/a'') st, st)"
  by (simp_all add: RegistryHandler_ServeHTTP_def serveAPI_def own_route_def reg_demo_req_def has_prefix_def trim_prefix_def contains_def)


end
