(* ===== verification/Registry_Limits.thy ===== *)
theory Registry_Limits
  imports Registry_Props
begin

text \<open>
  What the model registry refuses and bounds: failed commits, contended commits, oversized uploads, and requests for repositories it does not have.
\<close>

subsection \<open>Refused commits\<close>

definition history :: "regdb \<Rightarrow> Repo list \<times> Commit list \<times> branch_row list \<times> file_row list \<times> Mirror list" where
  \<comment> \<open>everything but the blobs table\<close>
  "history db = (repos db, commits db, branches db, files db, mirrors db)"

lemma UpsertBlob_history: "UpsertBlob down oid n url db = (u, db') \<Longrightarrow> history db' = history db"
  by (auto simp: UpsertBlob_def history_def split: if_splits)

lemma store_inline_history:
  "store_inline env k fs st = (res, st') \<Longrightarrow> history (rsDb st') = history (rsDb st) \<and> rsAudit st' = rsAudit st"
proof (induction env k fs st arbitrary: res st' rule: store_inline.induct)
  case (2 env k p body fs st)
  obtain r bs where put: "Put (reBlob env k) (reTmp env k) [body] None [] 0 (rsBlobs st) = (r, bs)" by fastforce
  show ?case
  proof (cases r)
    case (Inl e)
    with put 2 show ?thesis by auto
  next
    case (Inr s)
    obtain u db where up: "UpsertBlob (reDown env (Suc k)) (bsOID s) (bsSize s) (bsURL s) (rsDb st) = (u, db)" by fastforce
    show ?thesis
    proof (cases u)
      case None
      obtain ys st1 where "store_inline env (Suc k) fs (st\<lparr>rsBlobs := bs, rsDb := db\<rparr>) = (ys, st1)" by fastforce
      with 2(1) [OF put [symmetric] Inr up [symmetric] None this] 2(2) put Inr up None UpsertBlob_history [OF up] show ?thesis
        by (cases ys) simp_all
    qed (use 2 put up Inr UpsertBlob_history [OF up] in auto)
  qed
qed simp

text \<open>C17: a commit request succeeds as a whole or leaves the history as it was. Either it is refused with status 400, 404, 413, 422 or 500, and
  then repositories, commits, branches, files, mirrors and the audit log are unchanged, or it is answered with the id of the one commit that was added,
  which the branch then points to, and the audit log has, if it is on and its table can be written, exactly one more entry.\<close>

theorem commit_all_or_nothing:
  "case commit_request cfg env t ns name rv req st of (rep, st') \<Rightarrow>
     refuses {400, 404, 413, 422, 500} rep \<and> history (rsDb st') = history (rsDb st) \<and> rsAudit st' = rsAudit st \<or>
     (\<exists>url c. rep = Reply (uwriteJSON (UCommit (cmSHA c) url)) \<and> commits (rsDb st') = commits (rsDb st) @ [c] \<and>
        branch_head (rsDb st') (cmRepo c) (if rv = [] then ''main'' else rv) = Some (cmSHA c) \<and>
        length (rsAudit st') = length (rsAudit st) + (if rhAudit cfg \<and> \<not> reAuditDown env then 1 else 0))"
proof -
  obtain rep st' where c: "commit_request cfg env t ns name rv req st = (rep, st')" by fastforce
  from commit_cases [OF c] show ?thesis
  proof (elim disjE exE conjE)
    fix repo b inline st1 res
    assume cr: "commit_result cfg env t ns name rv req st repo b inline st1 res st'"
      and rep: "case res of Inl e \<Rightarrow> refuses {if e = ErrBlobMissing \<or> e = ErrCommitPathInvalid then 400 else if e = ErrLFSSizeMismatch then 422 else 500} rep
        | Inr r \<Rightarrow> rep = Reply (uwriteJSON (UCommit (crSHA r) (publicURL cfg @ ''/'' @ FullName repo @ ''/commit/'' @ crSHA r)))"
      and au: "rsAudit st' = (case res of Inl e \<Rightarrow> rsAudit st1 | Inr r \<Rightarrow> rsAudit (audit cfg env ''upload.commit'' (t @ ''/'' @ FullName repo @ ''@'' @ crSHA r) st1))"
    have st1: "history (rsDb st1) = history (rsDb st)" "rsAudit st1 = rsAudit st"
      using cr store_inline_history by (auto simp: commit_result_def)
    show ?thesis
    proof (cases res)
      case (Inl e)
      with cr have "rsDb st' = rsDb st1" using attempts_error by (auto simp: commit_result_def commitWithRetry_def)
      with Inl rep au st1 c show ?thesis by (auto simp: refuses_def split: ureply.splits if_splits)
    next
      case (Inr r)
      obtain j where tx: "CommitTx (reTx env j) \<lparr>ciRepo = rpId repo, ciBranch = rv, ciSummary = cbSummary b, ciDesc = cbDesc b, ciInline = inline,
          ciLFS = cbLFS b, ciDeletes = cbDeletes b\<rparr> (rsDb st1) = (Inr r, rsDb st')"
        using cr attempts_ok unfolding Inr commit_result_def commitWithRetry_def by blast
      obtain cm where "commits (rsDb st') = commits (rsDb st1) @ [cm]" "cmSHA cm = crSHA r" "cmRepo cm = rpId repo"
        using CommitTx_ok(1) [OF tx] by (simp add: commit_rows_def)
      moreover have "branch_head (rsDb st') (rpId repo) (if rv = [] then ''main'' else rv) = Some (crSHA r)"
        using CommitTx_branches [OF tx] CommitTx_ok(3) [OF tx] by simp
      ultimately show ?thesis using Inr rep au st1 c
        by (auto simp: history_def audit_def intro!: exI [of _ "publicURL cfg @ ''/'' @ FullName repo @ ''/commit/'' @ crSHA r"] exI [of _ cm])
    qed
  next
    fix b
    assume "store_inline env 0 b st = (None, st')" "refuses {500} rep"
    with c store_inline_history show ?thesis by (auto simp: refuses_def split: ureply.splits)
  qed (use c in \<open>auto simp: refuses_def split: ureply.splits\<close>)
qed

subsection \<open>Contention\<close>

lemma attempts_run:
  "\<exists>k \<le> n. (\<forall>j < k. \<not> reCancel env (i + j) \<and> fst (CommitTx (reTx env (i + j)) inp db) = Inl SerializationFailure) \<and>
     (k < n \<longrightarrow> reCancel env (i + k) \<or> fst (CommitTx (reTx env (i + k)) inp db) \<noteq> Inl SerializationFailure) \<and>
     commit_attempts env inp i n e db =
       (if reCancel env (i + k) then (Inl RCanceled, db) else if k < n then CommitTx (reTx env (i + k)) inp db
        else (Inl (if n = 0 then e else SerializationFailure), db))"
proof (induction n arbitrary: i e)
  case (Suc n)
  show ?case
  proof (cases "reCancel env i \<or> fst (CommitTx (reTx env i) inp db) \<noteq> Inl SerializationFailure")
    case True
    then show ?thesis by (intro exI [of _ 0]) (auto simp: attempts_step simp del: commit_attempts.simps(2))
  next
    case False
    from Suc.IH [of "Suc i" SerializationFailure] obtain k where k: "k \<le> n"
      "\<forall>j < k. \<not> reCancel env (Suc i + j) \<and> fst (CommitTx (reTx env (Suc i + j)) inp db) = Inl SerializationFailure"
      "k < n \<longrightarrow> reCancel env (Suc i + k) \<or> fst (CommitTx (reTx env (Suc i + k)) inp db) \<noteq> Inl SerializationFailure"
      "commit_attempts env inp (Suc i) n SerializationFailure db =
         (if reCancel env (Suc i + k) then (Inl RCanceled, db) else if k < n then CommitTx (reTx env (Suc i + k)) inp db else (Inl SerializationFailure, db))"
      by auto
    have "\<not> reCancel env (i + j) \<and> fst (CommitTx (reTx env (i + j)) inp db) = Inl SerializationFailure" if "j < Suc k" for j
      using that False k(2) by (cases j) auto
    with False k(1,3,4) show ?thesis by (intro exI [of _ "Suc k"]) (simp add: attempts_step del: commit_attempts.simps(2))
  qed
qed (intro exI [of _ 0], simp)

text \<open>C35: retrying a contended commit is safe and ends. \<open>commitWithRetry\<close> makes at most twelve attempts on the unchanged database; it goes on only after
  attempts that failed to serialize, and what it returns is the first other outcome, or the cancellation, or the last such failure; so at most
  one attempt takes effect.\<close>

theorem commitWithRetry_once:
  "\<exists>k \<le> 12. (\<forall>j < k. \<not> reCancel env j \<and> CommitTx (reTx env j) inp db = (Inl SerializationFailure, db)) \<and>
     (k = 12 \<or> reCancel env k \<or> fst (CommitTx (reTx env k) inp db) \<noteq> Inl SerializationFailure) \<and>
     commitWithRetry env inp db =
       (if reCancel env k then (Inl RCanceled, db) else if k < 12 then CommitTx (reTx env k) inp db else (Inl SerializationFailure, db))"
proof -
  from attempts_run [of 12 env 0 inp db RDbError] obtain k where k: "k \<le> 12"
    "\<forall>j < k. \<not> reCancel env j \<and> fst (CommitTx (reTx env j) inp db) = Inl SerializationFailure"
    "k < 12 \<longrightarrow> reCancel env k \<or> fst (CommitTx (reTx env k) inp db) \<noteq> Inl SerializationFailure"
    "commit_attempts env inp 0 12 RDbError db =
       (if reCancel env k then (Inl RCanceled, db) else if k < 12 then CommitTx (reTx env k) inp db else (Inl SerializationFailure, db))" by auto
  have "CommitTx (reTx env j) inp db = (Inl SerializationFailure, db)" if "fst (CommitTx (reTx env j) inp db) = Inl SerializationFailure" for j
    using that CommitTx_error by (metis prod.collapse)
  with k show ?thesis by (intro exI [of _ k]) (auto simp: commitWithRetry_def maxAttempts_def)
qed

definition busy_env :: renv where
  "busy_env = calm_env\<lparr>reTx := (\<lambda>_. (calm_tx ''c'')\<lparr>ceFail := (\<lambda>k. if k = 9 then Some SerializationFailure else None)\<rparr>)\<rparr>"

theorem commitWithRetry_once_witness: "commitWithRetry busy_env demo_commit demo_reg = (Inl SerializationFailure, demo_reg)"
proof -
  have paths: "ValidateCommitFilePath ''a.txt''" "ValidateCommitFilePath ''b.bin''" "branch_name_ok ''main''" by code_simp+
  have "CommitTx (reTx busy_env j) demo_commit demo_reg = (Inl SerializationFailure, demo_reg)" "\<not> reCancel busy_env j" for j
    by (simp_all add: CommitTx_def demo_commit_def demo_reg_def empty_reg_def busy_env_def calm_tx_def calm_env_def commit_error_def fails_def paths new_tree_def
      check_blobs_def first_row_def commit_at_def Let_def)
  with commitWithRetry_once [of busy_env demo_commit demo_reg] show ?thesis by auto
qed

subsection \<open>Bounded uploads\<close>

lemma lfs_limit_bound:
  assumes "lfs_limit N cs err early = (ds, e, trip)" "0 < N"
  shows "int (length (concat ds)) \<le> N \<and> (trip \<or> early \<or> int (length (concat ds)) < N)"
  using assms
proof (induction N cs err early arbitrary: ds e trip rule: lfs_limit.induct)
  case (2 N c cs err early)
  show ?case
  proof (cases "int (length c) > N \<or> N - int (length c) \<le> 0")
    case True
    with 2(2,3) show ?thesis by (auto split: if_splits)
  next
    case False
    obtain ds' e' trip' where rest: "lfs_limit (N - int (length c)) cs err early = (ds', e', trip')" by (metis prod.exhaust)
    from False 2(3) have "int (length (concat ds')) \<le> N - int (length c) \<and> (trip' \<or> early \<or> int (length (concat ds')) < N - int (length c))"
      by (intro 2(1) [OF _ _ _ rest]) auto
    with 2(2,3) False rest show ?thesis by auto
  qed
qed (auto split: if_splits)

lemma copy_loop_writes: "copy_loop env n i acc cs s = (Inr b, s') \<Longrightarrow> j < length cs \<Longrightarrow> \<not> bWrite env (i + j)"
proof (induction cs arbitrary: i acc s j)
  case (Cons c cs)
  then have step: "\<not> bWrite env i" "copy_loop env n (Suc i) (acc @ c) cs (s\<lparr>tmpDir := (tmpDir s)(n \<mapsto> acc @ c)\<rparr>) = (Inr b, s')"
    by (simp_all split: if_splits)
  show ?case
  proof (cases j)
    case (Suc k)
    with Cons.IH [OF step(2), of k] Cons.prems(2) show ?thesis by simp
  qed (use step(1) in simp)
qed simp

lemma Put_read_all:
  assumes "Put env n cs r oid es s = (Inr x, s')" "oid \<noteq> []"
  shows "read_all env oid cs"
proof -
  obtain c s1 where c: "copy_loop env n 0 [] cs (s\<lparr>tmpDir := (tmpDir s)(n \<mapsto> [])\<rparr>) = (c, s1)" by fastforce
  with assms obtain b where "c = Inr b" "validOID oid" "\<not> bCreate env" by (cases c) (auto simp: Put_def split: if_splits)
  with copy_loop_writes [OF c [unfolded \<open>c = Inr b\<close>]] show ?thesis by (auto simp: read_all_def list_all_iff)
qed

lemma lfs_rows_bound:
  assumes "Put env n chunks err oid es bs0 = (res, bs)" "oid \<noteq> []" "res = Inr s" "\<not> (trip \<and> read_all env oid chunks)"
    and "UpsertBlob down (bsOID s) (bsSize s) (bsURL s) db0 = (u, db)" "0 < N \<Longrightarrow> int (length (concat chunks)) \<le> N \<and> (trip \<or> early \<or> int (length (concat chunks)) < N)"
    and "0 < N" "x \<in> set (blobs db)"
  shows "x \<in> set (blobs db0) \<or> blSize x \<le> N - 1 + (if early then 1 else 0)"
proof -
  have "\<not> trip" using Put_read_all [OF assms(1) [unfolded assms(3)] assms(2)] assms(4) by blast
  moreover have "bsSize s = int (length (concat chunks))" using Put_cases [OF assms(1)] assms(3) by (auto simp: stat_of_def)
  ultimately show ?thesis using assms(5-8) by (auto simp: UpsertBlob_def split: if_splits)
qed

text \<open>C24: uploads are bounded. Whatever the client sends and whatever it declares, an upload stores no object of more than one byte over the
  configured limit, and enters none of more than the limit into the blobs table, except that a reader which reports the end of the body together with its
  last bytes gets one byte more; every other outcome is a refusal.\<close>

theorem lfs_upload_bounded:
  assumes "lfsMaxBytes cfg < 2 ^ 63 - 1" "serveLFSStorage cfg env req st = (rep, st')"
  shows "(\<forall>oid x. blobDir (rsBlobs st') oid = Some x \<longrightarrow> blobDir (rsBlobs st) oid = Some x \<or> int (length x) \<le> lfsMaxBytes cfg + 1) \<and>
    (\<forall>x \<in> set (blobs (rsDb st')). x \<in> set (blobs (rsDb st)) \<or> blSize x \<le> lfsMaxBytes cfg + (if uqEarly req then 1 else 0)) \<and>
    (rep = Reply \<lparr>urStatus = 200, urHdr = [], urBody = UNone\<rparr> \<or> refuses {400, 405, 413, 422, 500, 504} rep)"
proof -
  have mx: "0 < lfsMaxBytes cfg" by (simp add: lfsMaxBytes_def defaultLFSMaxBytes_def)
  then have w: "wrap64 (lfsMaxBytes cfg + 1) = lfsMaxBytes cfg + 1" using assms(1) by (simp add: int64_def)
  have sub: "refuses S rep \<Longrightarrow> S \<subseteq> T \<Longrightarrow> refuses T rep" for S T by (auto simp: refuses_def split: ureply.splits)
  let ?oid = "trim_prefix (uqPath req) ''/lfs-storage/''"
  from serveLFSStorage_cases [OF assms(2), unfolded w] show ?thesis
  proof (rule disjE)
    assume "st' = st \<and> refuses {400, 405, 413} rep"
    then show ?thesis using sub [of _ "{400, 405, 413, 422, 500, 504}"] by auto
  next
    assume "\<exists>chunks err trip res bs. ?oid \<noteq> [] \<and> uqLength req \<le> lfsMaxBytes cfg \<and>
       lfs_limit (lfsMaxBytes cfg + 1) (uqChunks req) (uqErr req) (uqEarly req) = (chunks, err, trip) \<and>
       Put (reBlob env 0) (reTmp env 0) chunks err ?oid (if uqLength req > 0 then uqLength req else 0) (rsBlobs st) = (res, bs) \<and>
       (st' = st\<lparr>rsBlobs := bs\<rparr> \<and> refuses {413, 422, 500, 504} rep \<or>
        (\<exists>s u db. res = Inr s \<and> \<not> (trip \<and> read_all (reBlob env 0) ?oid chunks) \<and> UpsertBlob (reDown env 0) (bsOID s) (bsSize s) (bsURL s) (rsDb st) = (u, db) \<and>
           st' = st\<lparr>rsBlobs := bs, rsDb := db\<rparr> \<and>
           (u \<noteq> None \<and> refuses {500} rep \<or> u = None \<and> rep = Reply \<lparr>urStatus = 200, urHdr = [], urBody = UNone\<rparr>)))"
    then obtain chunks err trip res bs where oid: "?oid \<noteq> []"
      and l: "lfs_limit (lfsMaxBytes cfg + 1) (uqChunks req) (uqErr req) (uqEarly req) = (chunks, err, trip)"
      and p: "Put (reBlob env 0) (reTmp env 0) chunks err ?oid (if uqLength req > 0 then uqLength req else 0) (rsBlobs st) = (res, bs)"
      and tail: "st' = st\<lparr>rsBlobs := bs\<rparr> \<and> refuses {413, 422, 500, 504} rep \<or>
        (\<exists>s u db. res = Inr s \<and> \<not> (trip \<and> read_all (reBlob env 0) ?oid chunks) \<and> UpsertBlob (reDown env 0) (bsOID s) (bsSize s) (bsURL s) (rsDb st) = (u, db) \<and>
           st' = st\<lparr>rsBlobs := bs, rsDb := db\<rparr> \<and>
           (u \<noteq> None \<and> refuses {500} rep \<or> u = None \<and> rep = Reply \<lparr>urStatus = 200, urHdr = [], urBody = UNone\<rparr>))" by blast
    note bound = lfs_limit_bound [OF l]
    have dir: "blobDir bs oid = Some x \<Longrightarrow> blobDir (rsBlobs st) oid = Some x \<or> int (length x) \<le> lfsMaxBytes cfg + 1" for oid x
      using Put_cases [OF p] bound mx by (auto split: if_splits)
    from tail show ?thesis
    proof (elim disjE exE conjE)
      assume "st' = st\<lparr>rsBlobs := bs\<rparr>" "refuses {413, 422, 500, 504} rep"
      then show ?thesis using dir sub [of _ "{400, 405, 413, 422, 500, 504}"] by auto
    qed (use dir sub [of _ "{400, 405, 413, 422, 500, 504}"] lfs_rows_bound [OF p oid _ _ _ bound] mx in auto)
  qed
qed

definition demo_upload :: ureq where
  "demo_upload = (reg_demo_req ''PUT'' (''/lfs-storage/'' @ oid_of ''hi''))\<lparr>uqChunks := [''hi'']\<rparr>"

lemma oid_of_no_slash: "CHR ''/'' \<notin> set (oid_of b)"
proof
  assume "CHR ''/'' \<in> set (oid_of b)"
  then have "is_hex CHR ''/''" unfolding oid_of_def by (rule hex_encode_is_hex)
  then show False by (simp add: is_hex_def)
qed

lemma oid_of_ne: "oid_of b \<noteq> []"
proof -
  have "length (oid_of b) = 64" by (simp add: oid_of_def)
  then show ?thesis by force
qed

lemma demo_upload_run:
  "serveLFSStorage reg_demo_cfg calm_env demo_upload reg_demo_state = (Reply \<lparr>urStatus = 200, urHdr = [], urBody = UNone\<rparr>, demo_stored)"
proof -
  have hex: "CHR ''/'' \<notin> set (oid_of ''hi'')" "oid_of ''hi'' \<noteq> []" by (rule oid_of_no_slash, rule oid_of_ne)
  have trim: "trim_prefix (uqPath demo_upload) ''/lfs-storage/'' = oid_of ''hi''" by (simp add: demo_upload_def reg_demo_req_def trim_prefix_def has_prefix_def)
  have "lfs_limit (wrap64 (lfsMaxBytes reg_demo_cfg + 1)) (uqChunks demo_upload) (uqErr demo_upload) (uqEarly demo_upload) = ([''hi''], None, False)"
    by (simp add: demo_upload_def reg_demo_req_def lfsMaxBytes_def reg_demo_cfg_def defaultLFSMaxBytes_def wrap64_def)
  moreover have "Put calm n [''hi''] None (oid_of ''hi'') 0 (rsBlobs reg_demo_state) = Put calm n [''hi''] None [] 0 (rsBlobs reg_demo_state)" for n
    using hex by (simp add: Put_def calm_def finish_put_def checked_def)
  moreover have "uqMethod demo_upload = ''PUT''" "uqLength demo_upload = -1" "reBlob calm_env 0 = calm" "\<not> reDown calm_env 0" "blobs (rsDb reg_demo_state) = []"
    by (simp_all add: demo_upload_def reg_demo_req_def calm_env_def reg_demo_state_def)
  moreover have "\<not> uqLength demo_upload > lfsMaxBytes reg_demo_cfg" using calculation by (simp add: lfsMaxBytes_def defaultLFSMaxBytes_def)
  ultimately show ?thesis using hex trim
    by (simp add: serveLFSStorage_def Let_def demo_put_body UpsertBlob_def stat_of_def demo_stored_def)
qed

theorem lfs_upload_bounded_witness:
  "lfsMaxBytes reg_demo_cfg < 2 ^ 63 - 1 \<and> length (blobs (rsDb demo_stored)) = 1 \<and> list_all (\<lambda>x. blSize x \<le> 200 * 2 ^ 30) (blobs (rsDb demo_stored))"
proof -
  have m: "lfsMaxBytes reg_demo_cfg = 200 * 2 ^ 30" by (simp add: lfsMaxBytes_def reg_demo_cfg_def defaultLFSMaxBytes_def)
  moreover have "blobs (rsDb reg_demo_state) = []" "\<not> uqEarly demo_upload" "length (blobs (rsDb demo_stored)) = 1"
    by (simp_all add: reg_demo_state_def demo_upload_def reg_demo_req_def demo_stored_def)
  ultimately show ?thesis using lfs_upload_bounded [OF _ demo_upload_run] by (simp add: list_all_iff)
qed

lemma lfs_one_over:
  \<comment> \<open>a limit of two bytes, and three that come together with the end of the body\<close>
  "lfs_limit (2 + 1) [''abc''] None True = ([''abc''], None, False)"
  by simp

lemma lfs_largest_limit:
  \<comment> \<open>the largest limit there is lets nothing through\<close>
  "LFSMaxBytes cfg = 2 ^ 63 - 1 \<Longrightarrow> lfs_limit (wrap64 (lfsMaxBytes cfg + 1)) cs err early = ([], None, True)"
  by (cases cs) (simp_all add: lfsMaxBytes_def wrap64_def)

subsection \<open>Mirrors\<close>

definition asks_for :: "ureq \<Rightarrow> (string \<times> string \<times> string) option" where
  \<comment> \<open>the repository that a request to read one is about\<close>
  "asks_for req =
     (let parts = split_on CHR ''/'' (trim_prefix (uqPath req) ''/api/''); m = uqMethod req
      in if \<not> own_route (uqPath req) then None
         else if has_prefix (uqPath req) ''/api/'' then
           (if 3 \<le> length parts \<and> parts ! 0 \<in> {''models'', ''datasets'', ''spaces''} \<and>
               (length parts = 3 \<and> m = ''GET'' \<or> 5 \<le> length parts \<and> (parts ! 3 = ''tree'' \<and> m = ''GET'' \<or> parts ! 3 = ''paths-info'' \<and> m = ''POST''))
            then Some (parts ! 0, parts ! 1, parts ! 2) else None)
         else if has_prefix (uqPath req) ''/lfs-storage/'' \<or> contains (uqPath req) ''.git/info/lfs/'' then None
         else map_option (\<lambda>(t, ns, name, rv, p). (t, ns, name)) (parseResolvePath (uqPath req)))"

definition only_mirrors :: "rcfg \<Rightarrow> renv \<Rightarrow> string \<Rightarrow> string \<Rightarrow> string \<Rightarrow> rstate \<Rightarrow> ureply \<Rightarrow> bool" where
  "only_mirrors cfg env t ns name st rep \<longleftrightarrow>
     (rep = Forward \<longrightarrow> list_ex (mirror_at (rhTenant cfg) t ns name) (mirrors (rsDb st)) \<and>
        (list_ex (repo_at (rhTenant cfg) t ns name) (repos (rsDb st)) \<longrightarrow> (\<exists>k. reDown env k)))"

lemma GetRepo_missing: "GetRepo down ten t ns name db = Inl RNotFound \<Longrightarrow> \<not> list_ex (repo_at ten t ns name) (repos db)"
  by (auto simp: GetRepo_def first_row_None list_ex_iff split: if_splits option.splits)

lemma GetRepo_error: "GetRepo down ten t ns name db = Inl e \<Longrightarrow> e = RNotFound \<or> down"
  by (auto simp: GetRepo_def split: if_splits option.splits)

lemma only_mirrors_fallback:
  "(list_ex (repo_at (rhTenant cfg) t ns name) (repos (rsDb st)) \<Longrightarrow> \<exists>k. reDown env k) \<Longrightarrow> only_mirrors cfg env t ns name st (fallbackOrNotFound cfg env t ns name st)"
  by (auto simp: only_mirrors_def fallbackOrNotFound_def GetMirror_def list_ex_iff split: sum.splits option.splits if_splits dest: first_row_Some)

lemma only_mirrors_Reply [simp]: "only_mirrors cfg env t ns name st (Reply r)"
  by (simp add: only_mirrors_def)

lemma ResolveBranch_commit:
  assumes "reg_ok db" "ResolveBranch down repo rv db = Inr sha"
  shows "commit_at repo sha db \<noteq> None"
proof -
  have "commit_at repo (cmSHA c) db \<noteq> None" if "first_row (\<lambda>c. cmRepo c = repo \<and> P c) (commits db) = Some c" for c P
    using first_row_Some [OF that] by (auto simp: commit_at_ex)
  moreover have "commit_at repo (brSHA b) db \<noteq> None" if "first_row (\<lambda>b. brRepo b = repo \<and> brName b = n) (branches db) = Some b" for b n
    using first_row_Some [OF that] assms(1) by (auto simp: reg_ok_def)
  ultimately show ?thesis using assms(2) by (auto simp: ResolveBranch_def Let_def split: if_splits option.splits)
qed

lemma only_mirrors_reads:
  assumes inv: "reg_ok (rsDb st)"
  shows "only_mirrors cfg env t ns name st (modelInfo cfg env t ns name st)" "only_mirrors cfg env t ns name st (tree cfg env t ns name rv st)"
    "only_mirrors cfg env t ns name st (pathsInfo cfg env t ns name rv req st)"
    "parseResolvePath (uqPath req) = Some (t, ns, name, rv, p) \<Longrightarrow> only_mirrors cfg env t ns name st (serveResolve cfg env req st)"
proof -
  have miss: "only_mirrors cfg env t ns name st (fallbackOrNotFound cfg env t ns name st)"
    if "GetRepo (reDown env 0) (rhTenant cfg) t ns name (rsDb st) = Inl RNotFound"
    using GetRepo_missing [OF that] by (intro only_mirrors_fallback) simp
  let ?g = "GetRepo (reDown env 0) (rhTenant cfg) t ns name (rsDb st)"
  consider "?g = Inl RNotFound" | e where "?g = Inl e" "e \<noteq> RNotFound" | repo where "?g = Inr repo" by (metis sum.exhaust)
  then have "only_mirrors cfg env t ns name st (tree cfg env t ns name rv st) \<and> only_mirrors cfg env t ns name st (pathsInfo cfg env t ns name rv req st) \<and>
    (parseResolvePath (uqPath req) = Some (t, ns, name, rv, p) \<longrightarrow> only_mirrors cfg env t ns name st (serveResolve cfg env req st))"
  proof cases
    case 1
    with miss [OF 1] show ?thesis by (simp add: tree_def pathsInfo_def serveResolve_def)
  next
    case 2
    then show ?thesis by (simp add: tree_def pathsInfo_def serveResolve_def)
  next
    case 3
    then show ?thesis by (simp add: tree_def pathsInfo_def serveResolve_def split: sum.split prod.split)
  qed
  then show "only_mirrors cfg env t ns name st (tree cfg env t ns name rv st)" "only_mirrors cfg env t ns name st (pathsInfo cfg env t ns name rv req st)"
    "parseResolvePath (uqPath req) = Some (t, ns, name, rv, p) \<Longrightarrow> only_mirrors cfg env t ns name st (serveResolve cfg env req st)" by blast+
  show "only_mirrors cfg env t ns name st (modelInfo cfg env t ns name st)"
  proof (cases "lookupHead cfg env t ns name st")
    case None
    have "\<exists>k. reDown env k" if ex: "list_ex (repo_at (rhTenant cfg) t ns name) (repos (rsDb st))"
    proof (rule ccontr)
      assume calm: "\<not> (\<exists>k. reDown env k)"
      then obtain repo where g: "?g = Inr repo"
        using ex GetRepo_missing [of "reDown env 0" "rhTenant cfg" t ns name "rsDb st"] GetRepo_error [of "reDown env 0" "rhTenant cfg" t ns name "rsDb st"]
        by (cases ?g) auto
      with None obtain sha where sha: "ResolveBranch (reDown env \<circ> Suc) (rpId repo) ''main'' (rsDb st) = Inr sha"
        by (cases "ResolveBranch (reDown env \<circ> Suc) (rpId repo) ''main'' (rsDb st)") (simp_all add: lookupHead_def)
      then have "commit_at (rpId repo) sha (rsDb st) \<noteq> None" by (rule ResolveBranch_commit [OF inv])
      with None g sha calm show False by (auto simp: lookupHead_def ListFiles_def)
    qed
    with None show ?thesis by (simp add: modelInfo_def only_mirrors_fallback)
  qed (simp add: modelInfo_def split_beta)
qed

lemma asks_for_route:
  assumes "asks_for req = Some (t, ns, name)"
  shows "\<exists>rv p. fst (RegistryHandler_ServeHTTP cfg env req st) = modelInfo cfg env t ns name st \<or> fst (RegistryHandler_ServeHTTP cfg env req st) = tree cfg env t ns name rv st \<or>
    fst (RegistryHandler_ServeHTTP cfg env req st) = pathsInfo cfg env t ns name rv req st \<or>
    parseResolvePath (uqPath req) = Some (t, ns, name, rv, p) \<and> fst (RegistryHandler_ServeHTTP cfg env req st) = serveResolve cfg env req st"
proof (cases "has_prefix (uqPath req) ''/api/''")
  case True
  define parts where "parts = split_on CHR ''/'' (trim_prefix (uqPath req) ''/api/'')"
  have a: "own_route (uqPath req)" "3 \<le> length parts" "parts ! 0 \<in> {''models'', ''datasets'', ''spaces''}" "t = parts ! 0" "ns = parts ! 1" "name = parts ! 2"
    and m: "length parts = 3 \<and> uqMethod req = ''GET'' \<or>
      5 \<le> length parts \<and> (parts ! 3 = ''tree'' \<and> uqMethod req = ''GET'' \<or> parts ! 3 = ''paths-info'' \<and> uqMethod req = ''POST'')"
    using assms True by (simp_all add: asks_for_def Let_def parts_def split: if_split_asm)
  have "uqPath req \<noteq> ''/api/repos/create''"
  proof
    assume "uqPath req = ''/api/repos/create''"
    then have "length parts = 2" by (simp add: parts_def trim_prefix_def has_prefix_def)
    with a(2) show False by simp
  qed
  then have run: "RegistryHandler_ServeHTTP cfg env req st =
      (if length parts = 3 \<and> uqMethod req = ''GET'' then (modelInfo cfg env t ns name st, st)
       else if length parts \<ge> 5 \<and> parts ! 3 = ''tree'' \<and> uqMethod req = ''GET'' then (tree cfg env t ns name (parts ! 4) st, st)
       else if length parts \<ge> 5 \<and> parts ! 3 = ''paths-info'' \<and> uqMethod req = ''POST'' then (pathsInfo cfg env t ns name (parts ! 4) req st, st)
       else if length parts \<ge> 5 \<and> parts ! 3 = ''preupload'' \<and> uqMethod req = ''POST'' then (preupload cfg env t ns name req st, st)
       else if length parts \<ge> 5 \<and> parts ! 3 = ''commit'' \<and> uqMethod req = ''POST'' then commit_request cfg env t ns name (parts ! 4) req st
       else (Forward, st))"
    using a True by (simp add: RegistryHandler_ServeHTTP_def serveAPI_def Let_def flip: parts_def del: insert_iff)
  from m show ?thesis by (elim disjE conjE) (simp_all add: run exI [of _ "parts ! 4"])
next
  case False
  then obtain rv p where "own_route (uqPath req)" "\<not> has_prefix (uqPath req) ''/lfs-storage/''" "\<not> contains (uqPath req) ''.git/info/lfs/''"
    "parseResolvePath (uqPath req) = Some (t, ns, name, rv, p)"
    using assms by (auto simp: asks_for_def Let_def split: if_split_asm)
  with False show ?thesis by (intro exI [of _ rv] exI [of _ p]) (simp add: RegistryHandler_ServeHTTP_def)
qed


definition mirror_state :: rstate where
  "mirror_state = reg_demo_state\<lparr>rsDb := (rsDb reg_demo_state)\<lparr>repos := [], mirrors := [\<lparr>mrTenant = ''t'', mrType = ''models'', mrNs = ''o'', mrName = ''m'',
     mrHost = ''huggingface.co'', mrPinned = [], mrDeleted = False\<rparr>]\<rparr>\<rparr>"


lemma revision_passes:
  \<comment> \<open>the summary of a named revision is not among the routes, whether the registry has the repository or not\<close>
  "RegistryHandler_ServeHTTP cfg env (reg_demo_req ''GET'' ''/api/models/o/m/revision/main'') st = (Forward, st)"
  by (simp add: RegistryHandler_ServeHTTP_def serveAPI_def own_route_def reg_demo_req_def has_prefix_def trim_prefix_def)

end
