(* ===== verification/Spec2Isabelle.thy ===== *)
theory Spec2Isabelle
  imports Spans Lru Cache_Key Sha256_Vectors Inflight Store_Sys Proxy_Props Conn_Loop Warm_Path Resp_Writer Auth_Db Auth_Gate Gate_Race Admin_Models Import_Jobs Oidc_Login Admin_Props Directory Registry_Limits
begin

text \<open>
  Pulsys is a caching reverse proxy for the Hugging Face Hub with a model registry and an administration service. This library models its Go sources
  (\<open>src/internal\<close>) as executable functions on explicit states and proves what clients, operators and tenants rely on.

  \<^bold>\<open>The program and its parts.\<close> A connection is accepted and read by the core server (\<open>coreserver\<close>), which parses HTTP/1.1 itself, asks the
  data-plane gate (\<open>auth/proxygate.go\<close>) whether the request may pass, and tries the warm path: an answer straight from the cache on disk. Everything else
  goes through a response writer (\<open>bridge.go\<close>) to the model registry (\<open>proxy/registry_handler.go\<close>, \<open>proxy/upload_handler.go\<close>), which serves repositories of
  its own from Postgres tables (\<open>registry\<close>) and an object store (\<open>blobstore\<close>) and hands declared mirrors to the proxy handler (\<open>proxy/handler.go\<close>). The handler
  keys requests (\<open>cache/key.go\<close>), looks them up in the store (\<open>cache/store.go\<close>), coordinates concurrent fetches (\<open>cache/inflight.go\<close>), fetches through a
  client that admits only allowed hosts (\<open>upstream\<close>, \<open>hostallow\<close>), and writes what arrives to disk and client. The admin listener (\<open>admin\<close>,
  \<open>auth\<close>) manages tokens, users, settings, imports and cached models over the same tables, with an audit log.

  \<^bold>\<open>Theories.\<close> Each theory opens with what it models and how its state corresponds to the code; definitions keep the names of the source.

  \<^item> Library: \<open>Go_Prelude\<close> (strings, integers, slices), \<open>Sha256\<close> with a test vector in \<open>Sha256_Vectors\<close>, \<open>Http_Header\<close>, \<open>Go_Json\<close>.
  \<^item> Cache: \<open>Spans\<close> and \<open>Cache_Key\<close> (\<open>key.go\<close>, \<open>keyhex_cache.go\<close>), \<open>Lru\<close> (\<open>lru.go\<close>, a linked list in a heap, refining an association list),
    \<open>Inflight\<close> (\<open>inflight.go\<close>), \<open>Store_Model\<close> (\<open>store.go\<close>) with its invariants in \<open>Store_Inv\<close> and \<open>Store_Ops\<close> and its runs in \<open>Store_Sys\<close>,
    \<open>Body_Handles\<close> (\<open>bodyhandle.go\<close>). Shown: spans are canonical and exact, keys separate requests up to collisions, fetches of a
    key never overlap, counters account for the disk at every moment of every run, borrowed files stay open.
  \<^item> Proxy: \<open>Classify\<close>, \<open>Rewrite\<close>, \<open>Host_Allow\<close>, \<open>Upstream\<close>, \<open>Proxy_Handler\<close>, and \<open>Proxy_Props\<close>. Shown: which requests are sent upstream, to which hosts and with whose
    credentials, and what of an answer is relayed.
  \<^item> Core server: \<open>Http_Parser\<close> (both parsers of \<open>server.go\<close> and \<open>iouring_parser_linux.go\<close>), \<open>Conn_Loop\<close>, \<open>Warm_Path\<close>, \<open>Resp_Writer\<close>. Shown: the parsers agree and
    refuse ambiguous framing, only admitted requests are served, the warm path answers what the handler would, responses are framed so that
    a client reads back what was written, connections per address are capped.
  \<^item> Identities: \<open>Auth_Db\<close> (\<open>auth/store/pg.go\<close>, \<open>admin/store/admin.go\<close>), \<open>Auth_Gate\<close> and \<open>Gate_Race\<close> (\<open>auth/proxygate.go\<close>), \<open>Oidc_Login\<close>. Shown: a request is
    served only with a token that was live a bounded time ago, when a revocation takes effect, that logout is final and settings are compare-and-swap.
  \<^item> Administration: \<open>Admin_Models\<close>, \<open>Import_Jobs\<close>, \<open>Admin_Auth\<close>, \<open>Admin_Api\<close>, \<open>Admin_Server\<close>, with \<open>Admin_Props\<close> and \<open>Directory\<close>. Shown: changes are authorized and
    protected against cross-site requests, tenants are isolated, successes are audited, the tables keep their types, a purge removes one model and nothing else.
  \<^item> Registry: \<open>Blob_Store\<close> (\<open>blobstore/local.go\<close>), \<open>Registry\<close> (\<open>registry/store.go\<close>), \<open>Upload_Handler\<close>, \<open>Registry_Handler\<close>, the invariant in \<open>Registry_Inv\<close>, and
    \<open>Registry_Props\<close> and \<open>Registry_Limits\<close>. Shown: objects are complete and stored under their hash however uploads interleave, a commit refines its
    abstract meaning and is all or nothing, what was committed can be read back, downloads have the hash they announce, uploads are bounded, only declared
    mirrors reach the proxy.

  \<^bold>\<open>Interfaces.\<close> What one part relies on in another is a locale, proved for the model where it is provided: \<open>span_index\<close> (recording and
  testing of byte ranges, in \<open>Spans\<close>), \<open>kv_cache\<close> (a bounded cache, in \<open>Lru\<close>), \<open>auth_gate\<close> (evidence behind an admission, in \<open>Auth_Gate\<close>), \<open>blob_store\<close> (content under its
  hash, in \<open>Blob_Store\<close>).

  \<^bold>\<open>Conventions.\<close> Strings are lists of bytes. Signed 64-bit integers are \<^typ>\<open>int\<close>, with the wrap-around written out where a value is not under
  control. Errors are values of sums or options, so every early return is a branch. System calls and SQL statements may fail, each by a flag of an environment
  argument, and properties hold for all environments unless they say otherwise. Fresh identifiers, secrets, random choices and the time are arguments.
  Tables are lists of rows. Third-party code (River, OpenID verification, \<open>net/url\<close>, the network) is a parameter.
  Concurrency is modelled where the code handles it: as step relations between critical sections (\<open>Inflight\<close>, \<open>Store_Sys\<close>, \<open>Body_Handles\<close>, \<open>Gate_Race\<close>, uploads in
  \<open>Blob_Store\<close>). A request to the proxy handler, the admin listener or the registry is otherwise one step; commits of the registry are serializable
  transactions in the code.

  \<^bold>\<open>Bounds.\<close> No definition uses fuel: loops are structural or come with a termination measure, the connection loop because every accepted request consumes input, the
  commit retry because its attempts are counted.

  \<^bold>\<open>Not modelled.\<close> The io_uring reactor, its rings and the sendfile shims, which are a kernel interface (the parser of the reactor and the bytes
  handed to sendfile are modelled); the Hub client, the importer's workers, mock servers, fixtures and benchmarks; migrations and connection pools; configuration, start-up, logging and telemetry;
  the cache tier, a pass-through that is not used yet; the web interface and deployment. Of the modelled parts: buffer pools, time spent
  waiting, the JSON text of responses, client address and user agent of audit rows, and non-ASCII case mapping.
\<close>

end
